(* ===== verification/Prelude.thy ===== *)
theory Prelude
  imports Main "HOL-Library.Word"
begin

unbundle bit_operations_syntax

text \<open>
  The ground the components of the MacHoma development stand on: Go's fixed-width integers as
  words, byte slices as lists (with the copy into a sub-subslice), and the big-endian accessors of
  Go's package encoding/binary, together with the contract every fixed-width field codec obeys.
\<close>

section \<open>Machine types\<close>

type_synonym byte = "8 word"
type_synonym u8 = "8 word"
type_synonym u16 = "16 word"
type_synonym u32 = "32 word"
type_synonym u64 = "64 word"
type_synonym bytes = "byte list"

lemma unat_u8: "unat (x :: u8) < 256"
  by (rule order_less_le_trans [OF unsigned_less]) simp

lemma unat_u16: "unat (x :: u16) < 65536"
  by (rule order_less_le_trans [OF unsigned_less]) simp

lemma unat_u32: "unat (x :: u32) < 2 ^ 32"
  using unsigned_less [of x] by simp

lemma unat_ucast_u64 [simp]: "unat (ucast (x :: u32) :: u64) = unat x"
proof -
  have "unat x < 2 ^ 64" using unat_u32 [of x] by simp
  then show ?thesis by (simp add: unsigned_ucast_eq take_bit_nat_eq_self)
qed

named_theorems buf_simps \<open>reading from and writing to byte buffers at fixed offsets\<close>

section \<open>Slices of a buffer\<close>

text \<open>\<open>subslice i j b\<close> is Go's \<^verbatim>\<open>b[i:j]\<close> (for \<open>i \<le> j \<le> len b\<close>), and
  \<open>put_at i ys b\<close> the buffer after \<^verbatim>\<open>copy(b[i:], ys)\<close> (for \<open>i + len ys \<le> len b\<close>).\<close>

definition subslice :: "nat \<Rightarrow> nat \<Rightarrow> 'a list \<Rightarrow> 'a list" where
  "subslice i j b = take (j - i) (drop i b)"

definition put_at :: "nat \<Rightarrow> 'a list \<Rightarrow> 'a list \<Rightarrow> 'a list" where
  "put_at i ys b = take i b @ ys @ drop (i + length ys) b"

lemma length_subslice [simp]: "length (subslice i j b) = min (j - i) (length b - i)"
  by (simp add: subslice_def)

lemma nth_subslice [simp]: "k < j - i \<Longrightarrow> i + k < length b \<Longrightarrow> subslice i j b ! k = b ! (i + k)"
  by (simp add: subslice_def)

lemma subslice_full [simp]: "subslice 0 (length b) b = b"
  by (simp add: subslice_def)

lemma subslice_append:
  "i \<le> j \<Longrightarrow> j \<le> k \<Longrightarrow> subslice i j b @ subslice j k b = subslice i k b"
proof -
  assume "i \<le> j" and "j \<le> k"
  then have "subslice i k b = take (j - i + (k - j)) (drop i b)"
    by (simp add: subslice_def)
  also have "\<dots> = subslice i j b @ subslice j k b"
    using \<open>i \<le> j\<close> by (simp only: take_add drop_drop subslice_def) simp
  finally show ?thesis by simp
qed

lemma length_put_at [simp]: "i + length ys \<le> length b \<Longrightarrow> length (put_at i ys b) = length b"
  by (simp add: put_at_def)

lemma nth_put_at:
  "i + length ys \<le> length b \<Longrightarrow> k < length b \<Longrightarrow>
   put_at i ys b ! k = (if i \<le> k \<and> k < i + length ys then ys ! (k - i) else b ! k)"
  by (auto simp: put_at_def nth_append)

lemma subslice_put_at_same [buf_simps]:
  "i + length ys \<le> length b \<Longrightarrow> j = i + length ys \<Longrightarrow> subslice i j (put_at i ys b) = ys"
  by (simp add: subslice_def put_at_def)

lemma subslice_put_at_before [buf_simps]:
  assumes "i + length ys \<le> length b" and "j' \<le> i"
  shows "subslice i' j' (put_at i ys b) = subslice i' j' b"
  using assms by (intro nth_equalityI) (auto simp: nth_put_at)

lemma subslice_put_at_after [buf_simps]:
  assumes "i + length ys \<le> length b" and "i + length ys \<le> i'"
  shows "subslice i' j' (put_at i ys b) = subslice i' j' b"
  using assms by (intro nth_equalityI) (auto simp: nth_put_at)

lemma drop_put_at_after [buf_simps]:
  "i + length ys \<le> length b \<Longrightarrow> i + length ys \<le> k \<Longrightarrow> drop k (put_at i ys b) = drop k b"
  by (intro nth_equalityI) (auto simp: nth_put_at)

lemma drop_put_at_same [buf_simps]:
  "i + length ys = length b \<Longrightarrow> drop i (put_at i ys b) = ys"
  by (simp add: put_at_def)

text \<open>The same accessors on a buffer that is a concatenation of fields: an offset beyond the first
  field goes on into the rest.\<close>

lemma put_at_0 [buf_simps]: "put_at 0 ys b = ys @ drop (length ys) b"
  by (simp add: put_at_def)

lemma put_at_append [buf_simps]:
  "length xs \<le> i \<Longrightarrow> put_at i ys (xs @ b) = xs @ put_at (i - length xs) ys b"
  by (simp add: put_at_def)

lemma put_at_Cons [buf_simps]: "0 < i \<Longrightarrow> put_at i ys (x # b) = x # put_at (i - 1) ys b"
  using put_at_append [of "[x]" i ys b] by simp

lemma subslice_append_skip [buf_simps]:
  "length xs \<le> i \<Longrightarrow> subslice i j (xs @ b) = subslice (i - length xs) (j - length xs) b"
  by (simp add: subslice_def)

lemma subslice_Cons_skip [buf_simps]:
  "0 < i \<Longrightarrow> subslice i j (x # b) = subslice (i - 1) (j - 1) b"
  using subslice_append_skip [of "[x]" i j b] by simp

lemma subslice_prefix [buf_simps]: "length xs = j \<Longrightarrow> subslice 0 j (xs @ b) = xs"
  by (simp add: subslice_def)

lemma subslice_subslice [buf_simps]:
  "j' \<le> j - i \<Longrightarrow> subslice i' j' (subslice i j b) = subslice (i + i') (i + j') b"
  by (simp add: subslice_def drop_take take_take min_def add.commute)

lemma nth_append_skip [buf_simps]: "length xs \<le> i \<Longrightarrow> (xs @ b) ! i = b ! (i - length xs)"
  by (simp add: nth_append)

lemma single_subslice: "i < length b \<Longrightarrow> [b ! i] = subslice i (Suc i) b"
  by (simp add: subslice_def take_Suc_conv_app_nth Cons_nth_drop_Suc [symmetric])

lemma triple_subslice: "i + 2 < length b \<Longrightarrow> [b ! i, b ! (i + 1), b ! (i + 2)] = subslice i (i + 3) b"
  by (auto simp: list_eq_iff_nth_eq nth_Cons' less_Suc_eq numeral_3_eq_3)

text \<open>A buffer is the concatenation of its consecutive slices.\<close>

lemma take_subslice: "take j b = subslice 0 j b"
  by (simp add: subslice_def)

section \<open>Big-endian integers\<close>

text \<open>\<^verbatim>\<open>binary.BigEndian.PutUint16/32/64\<close> and \<^verbatim>\<open>Uint16/32/64\<close> of Go's standard library.\<close>

definition PutUint16 :: "u16 \<Rightarrow> bytes" where
  "PutUint16 v = [ucast (drop_bit 8 v), ucast v]"

definition Uint16 :: "bytes \<Rightarrow> u16" where
  "Uint16 b = ucast (b ! 1) OR push_bit 8 (ucast (b ! 0))"

definition PutUint32 :: "u32 \<Rightarrow> bytes" where
  "PutUint32 v = [ucast (drop_bit 24 v), ucast (drop_bit 16 v), ucast (drop_bit 8 v), ucast v]"

definition Uint32 :: "bytes \<Rightarrow> u32" where
  "Uint32 b = ucast (b ! 3) OR push_bit 8 (ucast (b ! 2)) OR push_bit 16 (ucast (b ! 1))
     OR push_bit 24 (ucast (b ! 0))"

definition PutUint64 :: "u64 \<Rightarrow> bytes" where
  "PutUint64 v =
     [ucast (drop_bit 56 v), ucast (drop_bit 48 v), ucast (drop_bit 40 v), ucast (drop_bit 32 v),
      ucast (drop_bit 24 v), ucast (drop_bit 16 v), ucast (drop_bit 8 v), ucast v]"

definition Uint64 :: "bytes \<Rightarrow> u64" where
  "Uint64 b = ucast (b ! 7) OR push_bit 8 (ucast (b ! 6)) OR push_bit 16 (ucast (b ! 5))
     OR push_bit 24 (ucast (b ! 4)) OR push_bit 32 (ucast (b ! 3)) OR push_bit 40 (ucast (b ! 2))
     OR push_bit 48 (ucast (b ! 1)) OR push_bit 56 (ucast (b ! 0))"

lemma length_PutUint [simp]:
  "length (PutUint16 v) = 2" "length (PutUint32 w) = 4" "length (PutUint64 x) = 8"
  by (simp_all add: PutUint16_def PutUint32_def PutUint64_def)

section \<open>The contract of a fixed-width field\<close>

text \<open>A field of the wire format is a pair of a writer and a reader over exactly \<open>width\<close> bytes.
  Every client of a codec uses only these three laws.\<close>

locale field_codec =
  fixes put :: "'v \<Rightarrow> bytes" and get :: "bytes \<Rightarrow> 'v" and width :: nat and ok :: "'v \<Rightarrow> bool"
  assumes length_put: "ok v \<Longrightarrow> length (put v) = width"
    and get_put: "ok v \<Longrightarrow> get (put v) = v"
    and put_get: "length b = width \<Longrightarrow> put (get b) = b"
    and ok_get: "length b = width \<Longrightarrow> ok (get b)"
begin

lemma put_inject: "ok v \<Longrightarrow> ok w \<Longrightarrow> put v = put w \<Longrightarrow> v = w"
  by (metis get_put)

text \<open>A field written at an offset is read back there, and a neighbouring write does not
  disturb it.\<close>

lemma get_at_written:
  "ok v \<Longrightarrow> i + width \<le> length b \<Longrightarrow> get (subslice i (i + width) (put_at i (put v) b)) = v"
  by (simp add: subslice_put_at_same length_put get_put)

lemma rewrite_at_read:
  "i + width \<le> length b \<Longrightarrow> put_at i (put (get (subslice i (i + width) b))) b = b"
  by (simp add: put_get put_at_def subslice_def length_put ok_get)
    (metis append_take_drop_id drop_drop add.commute)

end

lemma list_of_length:
  "length b = 2 \<Longrightarrow> b = [b ! 0, b ! 1]"
  "length c = 4 \<Longrightarrow> c = [c ! 0, c ! 1, c ! 2, c ! 3]"
  "length d = 8 \<Longrightarrow> d = [d ! 0, d ! 1, d ! 2, d ! 3, d ! 4, d ! 5, d ! 6, d ! 7]"
  by (auto simp: list_eq_iff_nth_eq nth_Cons' less_Suc_eq numeral_eq_Suc)

lemma bit_byteD: "bit (x :: byte) n \<Longrightarrow> n < 8"
  using bit_imp_le_length [of x n] by simp

lemma Uint16_PutUint16 [simp]: "Uint16 (PutUint16 v) = v"
  by (rule bit_eqI) (auto simp: PutUint16_def Uint16_def bit_simps)

lemma byte_lanes:
  fixes n :: nat
  assumes "n < 64"
  obtains "n < 8" | "8 \<le> n" "n < 16" | "16 \<le> n" "n < 24" | "24 \<le> n" "n < 32"
    | "32 \<le> n" "n < 40" | "40 \<le> n" "n < 48" | "48 \<le> n" "n < 56" | "56 \<le> n" "n < 64"
  using assms by linarith

lemma Uint32_PutUint32 [simp]: "Uint32 (PutUint32 v) = v"
proof (rule bit_eqI)
  fix n
  assume "possible_bit TYPE(32 word) n"
  then have "n < 32" by simp
  then have "n < 64" by simp
  then show "bit (Uint32 (PutUint32 v)) n \<longleftrightarrow> bit v n"
    by (cases rule: byte_lanes) (use \<open>n < 32\<close> in \<open>simp_all add: PutUint32_def Uint32_def bit_simps less_diff_conv2\<close>)
qed

lemma Uint64_PutUint64 [simp]: "Uint64 (PutUint64 v) = v"
proof (rule bit_eqI)
  fix n
  assume "possible_bit TYPE(64 word) n"
  then have "n < 64" by simp
  then show "bit (Uint64 (PutUint64 v)) n \<longleftrightarrow> bit v n"
    by (cases rule: byte_lanes) (simp_all add: PutUint64_def Uint64_def bit_simps less_diff_conv2)
qed

text \<open>The other direction: re-encoding what was read gives the bytes back, lane by lane.\<close>

lemma bit_beyond_byte [simp]: "8 \<le> n \<Longrightarrow> \<not> bit (x :: byte) n"
  using bit_imp_le_length [of x n] by auto

lemma PutUint16_Uint16: "length b = 2 \<Longrightarrow> PutUint16 (Uint16 b) = b"
proof -
  assume "length b = 2"
  have "PutUint16 (Uint16 b) = [b ! 0, b ! 1]"
    by (auto simp: PutUint16_def Uint16_def bit_simps intro!: bit_eqI)
  with list_of_length(1) [OF \<open>length b = 2\<close>] show ?thesis by simp
qed

lemma PutUint32_Uint32: "length b = 4 \<Longrightarrow> PutUint32 (Uint32 b) = b"
proof -
  assume "length b = 4"
  have "PutUint32 (Uint32 b) = [b ! 0, b ! 1, b ! 2, b ! 3]"
    by (auto simp: PutUint32_def Uint32_def bit_simps intro!: bit_eqI)
  with list_of_length(2) [OF \<open>length b = 4\<close>] show ?thesis by simp
qed

lemma PutUint64_Uint64: "length b = 8 \<Longrightarrow> PutUint64 (Uint64 b) = b"
proof -
  assume "length b = 8"
  have "PutUint64 (Uint64 b) = [b ! 0, b ! 1, b ! 2, b ! 3, b ! 4, b ! 5, b ! 6, b ! 7]"
    unfolding PutUint64_def Uint64_def list.inject
    by (intro conjI refl bit_eqI) (simp_all add: bit_simps)
  with list_of_length(3) [OF \<open>length b = 8\<close>] show ?thesis by simp
qed

interpretation be16: field_codec PutUint16 Uint16 2 "\<lambda>_. True"
  by unfold_locales (simp_all add: PutUint16_Uint16)

interpretation be32: field_codec PutUint32 Uint32 4 "\<lambda>_. True"
  by unfold_locales (simp_all add: PutUint32_Uint32)

interpretation be64: field_codec PutUint64 Uint64 8 "\<lambda>_. True"
  by unfold_locales (simp_all add: PutUint64_Uint64)

section \<open>Deferred calls\<close>

text \<open>Go's \<^verbatim>\<open>defer\<close>: a deferred call changes the state when the rest of its function has returned; \<open>None\<close> is a
  function that has not.\<close>

definition deferred :: "('s \<Rightarrow> 's) \<Rightarrow> ('e \<times> 's) option \<Rightarrow> ('e \<times> 's) option" where
  "deferred g r = map_option (\<lambda>(err, s). (err, g s)) r"

lemma deferred_Some: "deferred g r = Some (err, s') \<longleftrightarrow> (\<exists>s. r = Some (err, s) \<and> s' = g s)"
  by (auto simp: deferred_def)

end
