(* ===== verification/Wire.thy ===== *)
theory Wire
  imports Prelude
begin

unbundle bit_operations_syntax

text \<open>
  The wire format, \<^verbatim>\<open>internal/wire/wire.go\<close>: packet headers as records, \<open>Marshal\<close> as writes into a
  zeroed buffer at the offsets the code uses, \<open>Parse\<close> as reads from the received datagram.
  A reference layout (\<open>layout\<close>) lists the fields in wire order; \<open>Marshal\<close> is shown equal to it,
  and the round trips of the codec are proved from it.
\<close>

section \<open>Constants\<close>

type_synonym wtype = u8

definition DataType :: wtype where "DataType = 0x10"
definition GrantType :: wtype where "GrantType = 0x11"
definition ResendType :: wtype where "ResendType = 0x12"
definition RPCUnknownType :: wtype where "RPCUnknownType = 0x13"
definition BusyType :: wtype where "BusyType = 0x14"
definition CutoffsType :: wtype where "CutoffsType = 0x15"
definition FreezeType :: wtype where "FreezeType = 0x16"
definition NeedAckType :: wtype where "NeedAckType = 0x17"
definition AckType :: wtype where "AckType = 0x18"

lemmas type_defs = DataType_def GrantType_def ResendType_def RPCUnknownType_def BusyType_def
  CutoffsType_def FreezeType_def NeedAckType_def AckType_def

definition IPProtocol :: nat where "IPProtocol = 146"
definition CommonSize :: nat where "CommonSize = 28"
definition AckRecordSize :: nat where "AckRecordSize = 10"
definition SegmentSize :: nat where "SegmentSize = 4"
definition DataSize :: nat where "DataSize = 56"
definition GrantSize :: nat where "GrantSize = 33"
definition ResendSize :: nat where "ResendSize = 37"
definition CutoffsSize :: nat where "CutoffsSize = 62"
definition AckSize :: nat where "AckSize = 80"
definition MaxPriorities :: nat where "MaxPriorities = 8"
definition MaxAcks :: nat where "MaxAcks = 5"
definition MinPacketLength :: nat where "MinPacketLength = 26"
definition MaxHeader :: nat where "MaxHeader = 90"
definition MaxMessageLength :: nat where "MaxMessageLength = 1000000"

lemmas size_defs = CommonSize_def AckRecordSize_def SegmentSize_def DataSize_def GrantSize_def
  ResendSize_def CutoffsSize_def AckSize_def MaxPriorities_def MaxAcks_def

definition DataOffset :: u8 where
  "DataOffset = push_bit 4 (of_nat ((DataSize - SegmentSize) div 4))"
definition ControlOffset :: u8 where "ControlOffset = push_bit 4 5"
definition SequenceOffset :: u32 where "SequenceOffset = 0xffffffff"
definition ResendAll :: u32 where "ResendAll = 0xffffffff"

datatype wire_error = ErrTruncated | ErrType | ErrAckCount | ErrDataBounds | PanicUnreachable

section \<open>Packets\<close>

text \<open>Go's fixed arrays are lists here; \<open>wf_packet\<close> below carries their lengths.\<close>

record common =
  SourcePort :: u16
  DestinationPort :: u16
  Sequence :: u32
  AckBytes :: bytes
  PacketType :: wtype
  HeaderOffset :: u8
  Flags :: u8
  Window :: u16
  Checksum :: u16
  Urgent :: u16
  SenderID :: u64

definition LocalID :: "common \<Rightarrow> u64" where
  "LocalID h = SenderID h XOR 1"

definition NewCommon :: "wtype \<Rightarrow> u16 \<Rightarrow> u16 \<Rightarrow> u64 \<Rightarrow> common" where
  "NewCommon typ source destination senderID =
     \<lparr>SourcePort = source, DestinationPort = destination, Sequence = 0, AckBytes = [0, 0, 0],
      PacketType = typ, HeaderOffset = (if typ = DataType then DataOffset else ControlOffset),
      Flags = 0, Window = 0, Checksum = 0, Urgent = 0, SenderID = senderID\<rparr>"

record ack_record =
  ClientID :: u64
  ServerPort :: u16

record data =
  d_common :: common
  MessageLength :: u32
  Incoming :: u32
  d_ack :: ack_record
  d_cutoff_version :: u16
  Retransmit :: u8
  Padding :: bytes
  SegmentOffset :: u32
  Payload :: bytes

definition EffectiveOffset :: "data \<Rightarrow> u32" where
  "EffectiveOffset p =
     (if SegmentOffset p = SequenceOffset then Sequence (d_common p) else SegmentOffset p)"

definition ValidateBounds :: "data \<Rightarrow> u32 \<Rightarrow> wire_error option" where
  "ValidateBounds p maxMessage =
     (if MessageLength p = 0 \<or> MessageLength p > maxMessage \<or>
         (ucast (EffectiveOffset p) :: u64) + of_nat (length (Payload p)) > ucast (MessageLength p)
      then Some ErrDataBounds else None)"

record grant =
  g_common :: common
  g_offset :: u32
  g_priority :: u8

record resend =
  rs_common :: common
  rs_offset :: u32
  rs_length :: u32
  rs_priority :: u8

record cutoffs =
  c_common :: common
  UnscheduledCutoffs :: "u32 list"
  c_cutoff_version :: u16

record ack =
  a_common :: common
  NumAcks :: u16
  Acks :: "ack_record list"

datatype packet =
    Data data
  | Grant grant
  | Resend resend
  | RPCUnknown common
  | Busy common
  | Cutoffs cutoffs
  | Freeze common
  | NeedAck common
  | Ack ack
  | CommonPacket common

fun Header :: "packet \<Rightarrow> common" where
  "Header (Data p) = d_common p"
| "Header (Grant p) = g_common p"
| "Header (Resend p) = rs_common p"
| "Header (RPCUnknown h) = h"
| "Header (Busy h) = h"
| "Header (Cutoffs p) = c_common p"
| "Header (Freeze h) = h"
| "Header (NeedAck h) = h"
| "Header (Ack p) = a_common p"
| "Header (CommonPacket h) = h"

definition HeaderSize :: "wtype \<Rightarrow> nat option" where
  "HeaderSize typ =
     (if typ = DataType then Some DataSize
      else if typ = GrantType then Some GrantSize
      else if typ = ResendType then Some ResendSize
      else if typ \<in> {RPCUnknownType, BusyType, FreezeType, NeedAckType} then Some CommonSize
      else if typ = CutoffsType then Some CutoffsSize
      else if typ = AckType then Some AckSize
      else None)"

section \<open>Parsing\<close>

definition parseCommon :: "bytes \<Rightarrow> common" where
  "parseCommon b =
     \<lparr>SourcePort = Uint16 (subslice 0 2 b), DestinationPort = Uint16 (subslice 2 4 b),
      Sequence = Uint32 (subslice 4 8 b), AckBytes = [b ! 8, b ! 9, b ! 10],
      PacketType = b ! 11, HeaderOffset = b ! 12, Flags = b ! 13,
      Window = Uint16 (subslice 14 16 b), Checksum = Uint16 (subslice 16 18 b),
      Urgent = Uint16 (subslice 18 20 b), SenderID = Uint64 (subslice 20 28 b)\<rparr>"

definition parseAck :: "bytes \<Rightarrow> ack_record" where
  "parseAck b = \<lparr>ClientID = Uint64 (subslice 0 8 b), ServerPort = Uint16 (subslice 8 10 b)\<rparr>"

text \<open>The type switch of \<^verbatim>\<open>Parse\<close>, run once the fixed header is known to be complete.\<close>

definition parseBody :: "common \<Rightarrow> bytes \<Rightarrow> wire_error + packet" where
  "parseBody h b =
     (let typ = PacketType h in
     if typ = DataType then
       Inr (Data \<lparr>d_common = h, MessageLength = Uint32 (subslice 28 32 b),
              Incoming = Uint32 (subslice 32 36 b), d_ack = parseAck (subslice 36 46 b),
              d_cutoff_version = Uint16 (subslice 46 48 b), Retransmit = b ! 48,
              Padding = [b ! 49, b ! 50, b ! 51], SegmentOffset = Uint32 (subslice 52 56 b),
              Payload = drop DataSize b\<rparr>)
     else if typ = GrantType then
       Inr (Grant \<lparr>g_common = h, g_offset = Uint32 (subslice 28 32 b), g_priority = b ! 32\<rparr>)
     else if typ = ResendType then
       Inr (Resend \<lparr>rs_common = h, rs_offset = Uint32 (subslice 28 32 b),
              rs_length = Uint32 (subslice 32 36 b), rs_priority = b ! 36\<rparr>)
     else if typ = RPCUnknownType then Inr (RPCUnknown h)
     else if typ = BusyType then Inr (Busy h)
     else if typ = CutoffsType then
       Inr (Cutoffs \<lparr>c_common = h,
              UnscheduledCutoffs =
                map (\<lambda>i. Uint32 (subslice (28 + 4 * i) (32 + 4 * i) b)) [0..<MaxPriorities],
              c_cutoff_version = Uint16 (subslice 60 62 b)\<rparr>)
     else if typ = FreezeType then Inr (Freeze h)
     else if typ = NeedAckType then Inr (NeedAck h)
     else if typ = AckType then
       (let n = Uint16 (subslice 28 30 b) in
        if unat n > MaxAcks then Inl ErrAckCount
        else Inr (Ack \<lparr>a_common = h, NumAcks = n,
               Acks = map (\<lambda>i. parseAck (subslice (30 + i * AckRecordSize)
                         (40 + i * AckRecordSize) b)) [0..<MaxAcks]\<rparr>))
     else Inl PanicUnreachable)"

definition Parse :: "bytes \<Rightarrow> wire_error + packet" where
  "Parse b =
     (if length b < CommonSize then Inl ErrTruncated
      else let h = parseCommon b in
       case HeaderSize (PacketType h) of
         None \<Rightarrow> Inl ErrType
       | Some hsize \<Rightarrow> if length b < hsize then Inl ErrTruncated else parseBody h b)"

section \<open>Marshalling\<close>

definition marshalCommon :: "bytes \<Rightarrow> common \<Rightarrow> bytes" where
  "marshalCommon b h =
     (let b = put_at 0 (PutUint16 (SourcePort h)) b;
          b = put_at 2 (PutUint16 (DestinationPort h)) b;
          b = put_at 4 (PutUint32 (Sequence h)) b;
          b = put_at 8 (AckBytes h) b;
          b = put_at 11 [PacketType h] b;
          b = put_at 12 [HeaderOffset h] b;
          b = put_at 13 [Flags h] b;
          b = put_at 14 (PutUint16 (Window h)) b;
          b = put_at 16 (PutUint16 (Checksum h)) b;
          b = put_at 18 (PutUint16 (Urgent h)) b
      in put_at 20 (PutUint64 (SenderID h)) b)"

text \<open>\<^verbatim>\<open>marshalAck(b[i:i+10], ack)\<close>: the slice starts at \<open>i\<close> of the packet buffer.\<close>

definition marshalAck :: "nat \<Rightarrow> bytes \<Rightarrow> ack_record \<Rightarrow> bytes" where
  "marshalAck i b a =
     (let b = put_at i (PutUint64 (ClientID a)) b
      in put_at (i + 8) (PutUint16 (ServerPort a)) b)"

fun marshalCutoffs :: "nat \<Rightarrow> u32 list \<Rightarrow> bytes \<Rightarrow> bytes" where
  "marshalCutoffs i [] b = b"
| "marshalCutoffs i (c # cs) b =
     marshalCutoffs (Suc i) cs (put_at (28 + i * 4) (PutUint32 c) b)"

fun marshalAcks :: "nat \<Rightarrow> ack_record list \<Rightarrow> bytes \<Rightarrow> bytes" where
  "marshalAcks i [] b = b"
| "marshalAcks i (a # as) b = marshalAcks (Suc i) as (marshalAck (30 + i * AckRecordSize) b a)"

text \<open>The second type switch of \<^verbatim>\<open>Marshal\<close>: the fields after the common header.\<close>

fun marshalBody :: "packet \<Rightarrow> bytes \<Rightarrow> bytes" where
  "marshalBody (Data p) b =
     (let b = put_at 28 (PutUint32 (MessageLength p)) b;
          b = put_at 32 (PutUint32 (Incoming p)) b;
          b = marshalAck 36 b (d_ack p);
          b = put_at 46 (PutUint16 (d_cutoff_version p)) b;
          b = put_at 48 [Retransmit p] b;
          b = put_at 49 (Padding p) b;
          b = put_at 52 (PutUint32 (SegmentOffset p)) b
      in put_at 56 (Payload p) b)"
| "marshalBody (Grant p) b =
     (let b = put_at 28 (PutUint32 (g_offset p)) b in put_at 32 [g_priority p] b)"
| "marshalBody (Resend p) b =
     (let b = put_at 28 (PutUint32 (rs_offset p)) b;
          b = put_at 32 (PutUint32 (rs_length p)) b
      in put_at 36 [rs_priority p] b)"
| "marshalBody (Cutoffs p) b =
     (let b = marshalCutoffs 0 (UnscheduledCutoffs p) b
      in put_at 60 (PutUint16 (c_cutoff_version p)) b)"
| "marshalBody (Ack p) b =
     (let b = put_at 28 (PutUint16 (NumAcks p)) b in marshalAcks 0 (Acks p) b)"
| "marshalBody _ b = b"

text \<open>The first type switch: the type a concrete packet must carry, and its payload.\<close>

fun expected :: "packet \<Rightarrow> wire_error + (wtype \<times> bytes)" where
  "expected (Data p) = Inr (DataType, Payload p)"
| "expected (Grant p) = Inr (GrantType, [])"
| "expected (Resend p) = Inr (ResendType, [])"
| "expected (RPCUnknown h) = Inr (RPCUnknownType, [])"
| "expected (Busy h) = Inr (BusyType, [])"
| "expected (Cutoffs p) = Inr (CutoffsType, [])"
| "expected (Freeze h) = Inr (FreezeType, [])"
| "expected (NeedAck h) = Inr (NeedAckType, [])"
| "expected (Ack p) = (if unat (NumAcks p) > MaxAcks then Inl ErrAckCount else Inr (AckType, []))"
| "expected (CommonPacket h) =
     (if HeaderSize (PacketType h) \<noteq> Some CommonSize then Inl ErrType
      else Inr (PacketType h, []))"

definition maxInt :: nat where "maxInt = 2 ^ 63 - 1"

definition marshalValue :: "packet \<Rightarrow> wire_error + bytes" where
  "marshalValue p =
     (let h = Header p in
      case HeaderSize (PacketType h) of
        None \<Rightarrow> Inl ErrType
      | Some hsize \<Rightarrow>
         (case expected p of
            Inl e \<Rightarrow> Inl e
          | Inr (typ, payload) \<Rightarrow>
              if PacketType h \<noteq> typ then Inl ErrType
              else if length payload > maxInt - hsize then Inl ErrDataBounds
              else Inr (marshalBody p (marshalCommon (replicate (hsize + length payload) 0) h))))"

text \<open>What may stand in the \<^verbatim>\<open>Packet\<close> interface: the nil interface, a packet value, a pointer to one
  (possibly nil), or a value of a type the package does not know.\<close>

datatype iface = NilInterface | Val packet | Ptr "packet option" | Foreign common

fun Marshal :: "iface \<Rightarrow> wire_error + bytes" where
  "Marshal NilInterface = Inl ErrType"
| "Marshal (Ptr None) = Inl ErrType"
| "Marshal (Ptr (Some p)) = marshalValue p"
| "Marshal (Val p) = marshalValue p"
| "Marshal (Foreign h) = Inl ErrType"

section \<open>The reference layout\<close>

definition layout_common :: "common \<Rightarrow> bytes" where
  "layout_common h =
     PutUint16 (SourcePort h) @ PutUint16 (DestinationPort h) @ PutUint32 (Sequence h) @
     AckBytes h @ [PacketType h] @ [HeaderOffset h] @ [Flags h] @ PutUint16 (Window h) @
     PutUint16 (Checksum h) @ PutUint16 (Urgent h) @ PutUint64 (SenderID h)"

definition layout_ack :: "ack_record \<Rightarrow> bytes" where
  "layout_ack a = PutUint64 (ClientID a) @ PutUint16 (ServerPort a)"

fun layout_body :: "packet \<Rightarrow> bytes" where
  "layout_body (Data p) =
     PutUint32 (MessageLength p) @ PutUint32 (Incoming p) @ layout_ack (d_ack p) @
     PutUint16 (d_cutoff_version p) @ [Retransmit p] @ Padding p @ PutUint32 (SegmentOffset p) @
     Payload p"
| "layout_body (Grant p) = PutUint32 (g_offset p) @ [g_priority p]"
| "layout_body (Resend p) =
     PutUint32 (rs_offset p) @ PutUint32 (rs_length p) @ [rs_priority p]"
| "layout_body (Cutoffs p) =
     concat (map PutUint32 (UnscheduledCutoffs p)) @ PutUint16 (c_cutoff_version p)"
| "layout_body (Ack p) = PutUint16 (NumAcks p) @ concat (map layout_ack (Acks p))"
| "layout_body _ = []"

definition layout :: "packet \<Rightarrow> bytes" where
  "layout p = layout_common (Header p) @ layout_body p"

text \<open>The lengths of Go's fixed arrays.\<close>

fun wf_body :: "packet \<Rightarrow> bool" where
  "wf_body (Data p) \<longleftrightarrow> length (Padding p) = 3"
| "wf_body (Cutoffs p) \<longleftrightarrow> length (UnscheduledCutoffs p) = MaxPriorities"
| "wf_body (Ack p) \<longleftrightarrow> length (Acks p) = MaxAcks"
| "wf_body _ \<longleftrightarrow> True"

definition wf_packet :: "packet \<Rightarrow> bool" where
  "wf_packet p \<longleftrightarrow> length (AckBytes (Header p)) = 3 \<and> wf_body p"

lemma length_layout_ack [simp]: "length (layout_ack a) = 10"
  by (simp add: layout_ack_def)

lemma length_layout_common [simp]: "length (AckBytes h) = 3 \<Longrightarrow> length (layout_common h) = 28"
  by (simp add: layout_common_def)

lemma marshalCommon_layout:
  assumes "length (AckBytes h) = 3" and "28 \<le> n"
  shows "marshalCommon (replicate n 0) h = layout_common h @ replicate (n - 28) 0"
  using assms by (simp add: marshalCommon_def layout_common_def buf_simps)

lemma marshalAck_append:
  assumes "length xs = i"
  shows "marshalAck i (xs @ b) a = xs @ layout_ack a @ drop 10 b"
  using assms by (simp add: marshalAck_def layout_ack_def buf_simps)

lemma marshalCutoffs_append:
  assumes "length xs = 28 + i * 4"
  shows "marshalCutoffs i cs (xs @ b) =
    xs @ concat (map PutUint32 cs) @ drop (4 * length cs) b"
  using assms
proof (induction cs arbitrary: i xs b)
  case Nil
  then show ?case by simp
next
  case (Cons c cs)
  have "marshalCutoffs i (c # cs) (xs @ b) =
      marshalCutoffs (Suc i) cs ((xs @ PutUint32 c) @ drop 4 b)"
    using Cons.prems by (simp add: buf_simps)
  also have "\<dots> = (xs @ PutUint32 c) @ concat (map PutUint32 cs) @ drop (4 * length cs) (drop 4 b)"
    using Cons.prems by (intro Cons.IH) simp
  finally show ?case by (simp add: add.commute)
qed

lemma marshalAcks_append:
  assumes "length xs = 30 + i * 10"
  shows "marshalAcks i as (xs @ b) = xs @ concat (map layout_ack as) @ drop (10 * length as) b"
  using assms
proof (induction as arbitrary: i xs b)
  case Nil
  then show ?case by simp
next
  case (Cons a as)
  have "marshalAcks i (a # as) (xs @ b) =
      marshalAcks (Suc i) as ((xs @ layout_ack a) @ drop 10 b)"
    using Cons.prems by (simp add: marshalAck_append size_defs)
  also have "\<dots> = (xs @ layout_ack a) @ concat (map layout_ack as) @ drop (10 * length as) (drop 10 b)"
    using Cons.prems by (intro Cons.IH) simp
  finally show ?case by (simp add: add.commute)
qed

lemma length_concat_fixed: "(\<And>x. x \<in> set xs \<Longrightarrow> length (f x) = w) \<Longrightarrow> length (concat (map f xs)) = w * length xs"
  by (induction xs) simp_all

text \<open>The size of a header of the packet's own constructor.\<close>

fun own_size :: "packet \<Rightarrow> nat" where
  "own_size (Data p) = DataSize"
| "own_size (Grant p) = GrantSize"
| "own_size (Resend p) = ResendSize"
| "own_size (Cutoffs p) = CutoffsSize"
| "own_size (Ack p) = AckSize"
| "own_size _ = CommonSize"

fun payload_of :: "packet \<Rightarrow> bytes" where
  "payload_of (Data p) = Payload p"
| "payload_of _ = []"

lemma length_layout:
  "wf_packet p \<Longrightarrow> length (layout p) = own_size p + length (payload_of p)"
  by (cases p) (simp_all add: wf_packet_def layout_def size_defs length_concat_fixed [where w = 4]
      length_concat_fixed [where w = 10])

lemma marshalBody_layout:
  assumes "wf_packet p" and "n = own_size p + length (payload_of p)"
  shows "marshalBody p (marshalCommon (replicate n 0) (Header p)) = layout p"
proof -
  have "28 \<le> n" using assms(2) by (cases p) (simp_all add: size_defs)
  then have hd: "marshalCommon (replicate n 0) (Header p) =
      layout_common (Header p) @ replicate (n - 28) 0"
    using assms(1) by (intro marshalCommon_layout) (simp_all add: wf_packet_def)
  have len: "length (layout_common (Header p)) = 28"
    using assms(1) by (simp add: wf_packet_def)
  show ?thesis
  proof (cases p)
    case (Data d)
    with assms len hd show ?thesis
      by (simp add: layout_def marshalAck_def layout_ack_def buf_simps size_defs wf_packet_def)
  next
    case (Cutoffs c)
    with assms len hd show ?thesis
      by (simp add: layout_def marshalCutoffs_append buf_simps size_defs wf_packet_def
          length_concat_fixed [where w = 4])
  next
    case (Ack a)
    then have "marshalBody p (marshalCommon (replicate n 0) (Header p)) =
        marshalAcks 0 (Acks a) ((layout_common (Header p) @ PutUint16 (NumAcks a)) @
          drop 2 (replicate (n - 28) 0))"
      using assms len hd by (simp add: buf_simps)
    also have "\<dots> = layout p"
      using Ack assms len by (subst marshalAcks_append) (simp_all add: layout_def size_defs wf_packet_def)
    finally show ?thesis .
  qed (use assms len hd in \<open>simp_all add: layout_def buf_simps size_defs\<close>)
qed

section \<open>Marshal produces the reference layout\<close>

fun type_matches :: "packet \<Rightarrow> bool" where
  "type_matches (Data p) \<longleftrightarrow> PacketType (d_common p) = DataType"
| "type_matches (Grant p) \<longleftrightarrow> PacketType (g_common p) = GrantType"
| "type_matches (Resend p) \<longleftrightarrow> PacketType (rs_common p) = ResendType"
| "type_matches (RPCUnknown h) \<longleftrightarrow> PacketType h = RPCUnknownType"
| "type_matches (Busy h) \<longleftrightarrow> PacketType h = BusyType"
| "type_matches (Cutoffs p) \<longleftrightarrow> PacketType (c_common p) = CutoffsType"
| "type_matches (Freeze h) \<longleftrightarrow> PacketType h = FreezeType"
| "type_matches (NeedAck h) \<longleftrightarrow> PacketType h = NeedAckType"
| "type_matches (Ack p) \<longleftrightarrow> PacketType (a_common p) = AckType"
| "type_matches (CommonPacket h) \<longleftrightarrow>
     PacketType h \<in> {RPCUnknownType, BusyType, FreezeType, NeedAckType}"

fun ack_overflow :: "packet \<Rightarrow> bool" where
  "ack_overflow (Ack p) \<longleftrightarrow> unat (NumAcks p) > MaxAcks"
| "ack_overflow _ \<longleftrightarrow> False"

lemma type_distinct:
  "distinct [DataType, GrantType, ResendType, RPCUnknownType, BusyType, CutoffsType, FreezeType,
     NeedAckType, AckType]"
  by (simp add: type_defs)

lemma type_distinct_rev:
  "distinct [AckType, NeedAckType, FreezeType, CutoffsType, BusyType, RPCUnknownType, ResendType,
     GrantType, DataType]"
  by (simp add: type_defs)

lemmas type_neq [simp] =
  type_distinct [unfolded distinct.simps list.set insert_iff empty_iff de_Morgan_disj conj_assoc simp_thms]
  type_distinct_rev [unfolded distinct.simps list.set insert_iff empty_iff de_Morgan_disj conj_assoc simp_thms]

lemma HeaderSize_limits: "HeaderSize t = Some n \<Longrightarrow> MinPacketLength \<le> n \<and> n \<le> MaxHeader"
  by (auto simp: HeaderSize_def size_defs MinPacketLength_def MaxHeader_def split: if_splits)

lemma HeaderSize_matches: "type_matches p \<Longrightarrow> HeaderSize (PacketType (Header p)) = Some (own_size p)"
  by (cases p) (auto simp: HeaderSize_def type_defs)

lemma expected_matches:
  "type_matches p \<Longrightarrow> \<not> ack_overflow p \<Longrightarrow> expected p = Inr (PacketType (Header p), payload_of p)"
  by (cases p) (auto simp: HeaderSize_def type_defs size_defs)

lemma HeaderSize_common_iff:
  "HeaderSize t = Some CommonSize \<longleftrightarrow> t \<in> {RPCUnknownType, BusyType, FreezeType, NeedAckType}"
  by (auto simp: HeaderSize_def type_defs size_defs)

lemma marshalValue_eq:
  assumes "wf_packet p"
  shows "marshalValue p =
    (if HeaderSize (PacketType (Header p)) = None then Inl ErrType
     else if ack_overflow p then Inl ErrAckCount
     else if \<not> type_matches p then Inl ErrType
     else if length (payload_of p) > maxInt - own_size p then Inl ErrDataBounds
     else Inr (layout p))"
proof (cases "type_matches p \<and> \<not> ack_overflow p")
  case True
  then show ?thesis
    using assms by (simp add: marshalValue_def HeaderSize_matches expected_matches marshalBody_layout)
next
  case False
  then show ?thesis
    by (cases p) (auto simp: marshalValue_def Let_def HeaderSize_common_iff split: option.splits)
qed

lemma Marshal_Inr_iff:
  "wf_packet p \<Longrightarrow> Marshal (Val p) = Inr b \<longleftrightarrow>
     type_matches p \<and> \<not> ack_overflow p \<and> length (payload_of p) \<le> maxInt - own_size p \<and> b = layout p"
  by (auto simp: marshalValue_eq HeaderSize_matches)

section \<open>Reading the layout back\<close>

lemma parseCommon_layout:
  assumes "length (AckBytes h) = 3"
  shows "parseCommon (layout_common h @ b) = h"
proof -
  from assms obtain x y z where "AckBytes h = [x, y, z]"
    by (auto simp: length_Suc_conv numeral_3_eq_3)
  then show ?thesis
    by (simp add: parseCommon_def layout_common_def buf_simps)
qed

lemma parseAck_layout [simp]: "parseAck (layout_ack a) = a"
  by (simp add: parseAck_def layout_ack_def buf_simps subslice_def)

lemma layout_common_parse:
  assumes "28 \<le> length b"
  shows "layout_common (parseCommon b) = take 28 b"
proof -
  have one: "[b ! 11] = subslice 11 12 b" "[b ! 12] = subslice 12 13 b" "[b ! 13] = subslice 13 14 b"
    using assms by (simp_all add: single_subslice)
  have three: "[b ! 8, b ! 9, b ! 10] = subslice 8 11 b"
    using assms triple_subslice [of 8 b] by simp
  have "layout_common (parseCommon b) =
      subslice 0 2 b @ subslice 2 4 b @ subslice 4 8 b @ subslice 8 11 b @ subslice 11 12 b @
      subslice 12 13 b @ subslice 13 14 b @ subslice 14 16 b @ subslice 16 18 b @
      subslice 18 20 b @ subslice 20 28 b"
    using assms by (simp add: layout_common_def parseCommon_def PutUint16_Uint16 PutUint32_Uint32
        PutUint64_Uint64 one three del: append.simps)
  then show ?thesis by (simp add: subslice_append take_subslice)
qed

lemma layout_ack_parse:
  "length b = 10 \<Longrightarrow> layout_ack (parseAck b) = b"
  by (simp add: layout_ack_def parseAck_def PutUint64_Uint64 PutUint16_Uint16 subslice_append)
    (simp add: subslice_def)

interpretation common_codec: field_codec layout_common parseCommon 28 "\<lambda>h. length (AckBytes h) = 3"
proof unfold_locales
  show "\<And>v. length (AckBytes v) = 3 \<Longrightarrow> parseCommon (layout_common v) = v"
    using parseCommon_layout [where b = "[]"] by simp
  show "\<And>b. length b = 28 \<Longrightarrow> layout_common (parseCommon b) = b"
    by (simp add: layout_common_parse)
qed (simp_all add: parseCommon_def)

interpretation ack_codec: field_codec layout_ack parseAck 10 "\<lambda>_. True"
  by unfold_locales (simp_all add: layout_ack_parse)

text \<open>An array of fields is a field: the loops over the cutoffs and the acknowledgment slots.\<close>

context field_codec
begin

lemma get_array:
  assumes "\<forall>v\<in>set vs. ok v" and "n = length vs" and "w = width" and "k = length xs"
  shows "map (\<lambda>i. get (subslice (k + w * i) (k + w * i + w) (xs @ concat (map put vs) @ b))) [0..<n] = vs"
  using assms
proof (induction vs arbitrary: n k xs)
  case Nil
  then show ?case by simp
next
  case (Cons v vs)
  have "map (\<lambda>i. get (subslice (k + w * i) (k + w * i + w)
          (xs @ concat (map put (v # vs)) @ b))) [0..<n] =
      get (subslice k (k + w) (xs @ put v @ concat (map put vs) @ b)) #
      map (\<lambda>i. get (subslice ((k + w) + w * i) ((k + w) + w * i + w)
          ((xs @ put v) @ concat (map put vs) @ b))) [0..<length vs]"
    using Cons.prems
    by (simp add: upt_conv_Cons map_Suc_upt [symmetric] add.assoc del: upt_Suc)
  also have "map (\<lambda>i. get (subslice ((k + w) + w * i) ((k + w) + w * i + w)
          ((xs @ put v) @ concat (map put vs) @ b))) [0..<length vs] = vs"
    using Cons.prems by (intro Cons.IH) (simp_all add: length_put)
  also have "get (subslice k (k + w) (xs @ put v @ concat (map put vs) @ b)) = v"
    using Cons.prems by (simp add: buf_simps length_put get_put)
  finally show ?case .
qed

lemma put_array:
  assumes "k + w * n \<le> length b" and "w = width"
  shows "concat (map put (map (\<lambda>i. get (subslice (k + w * i) (k + w * i + w) b)) [0..<n])) =
    subslice k (k + w * n) b"
  using assms
proof (induction n)
  case 0
  then show ?case by (simp add: subslice_def)
next
  case (Suc n)
  then have "put (get (subslice (k + w * n) (k + w * n + w) b)) = subslice (k + w * n) (k + w * n + w) b"
    by (intro put_get) simp
  with Suc show ?case by (simp add: subslice_append algebra_simps)
qed

end

section \<open>Round trips\<close>

text \<open>Reading back a marshalled packet gives the packet; the constructor-less \<^verbatim>\<open>CommonPacket\<close> comes
  back as the dedicated constructor of its type.\<close>

fun canonical :: "packet \<Rightarrow> packet" where
  "canonical (CommonPacket h) =
     (if PacketType h = RPCUnknownType then RPCUnknown h
      else if PacketType h = BusyType then Busy h
      else if PacketType h = FreezeType then Freeze h
      else NeedAck h)"
| "canonical p = p"

lemma Parse_layout_append:
  assumes "wf_packet p" and "type_matches p" and "\<not> ack_overflow p"
  shows "Parse (layout p @ pad) = parseBody (Header p) (layout p @ pad)"
  using assms length_layout [OF assms(1)]
  by (auto simp: Let_def Parse_def HeaderSize_matches layout_def parseCommon_layout wf_packet_def size_defs)

lemma parseBody_layout:
  assumes "wf_packet p" and "type_matches p" and "\<not> ack_overflow p"
    and "pad = [] \<or> (\<forall>d. p \<noteq> Data d)"
  shows "parseBody (Header p) (layout p @ pad) = Inr (canonical p)"
proof -
  have len: "length (layout_common (Header p)) = 28"
    using assms(1) by (simp add: wf_packet_def)
  show ?thesis
  proof (cases p)
    case (Data d)
    then obtain x y z where "Padding d = [x, y, z]"
      using assms(1) by (auto simp: wf_packet_def length_Suc_conv numeral_3_eq_3)
    with Data assms len show ?thesis
      by (simp add: parseBody_def layout_def buf_simps size_defs)
  next
    case (Cutoffs c)
    have "map (\<lambda>i. Uint32 (subslice (28 + 4 * i) (28 + 4 * i + 4)
        (layout_common (Header p) @ concat (map PutUint32 (UnscheduledCutoffs c)) @
          PutUint16 (c_cutoff_version c) @ pad))) [0..<8] = UnscheduledCutoffs c"
      using Cutoffs assms len by (intro be32.get_array) (simp_all add: wf_packet_def size_defs)
    moreover have "length (concat (map PutUint32 (UnscheduledCutoffs c))) = 32"
      using Cutoffs assms by (simp add: wf_packet_def size_defs length_concat_fixed [where w = 4])
    ultimately show ?thesis
      using Cutoffs assms len
      by (simp add: parseBody_def layout_def buf_simps size_defs add.commute)
  next
    case (Ack a)
    have "map (\<lambda>i. parseAck (subslice (30 + 10 * i) (30 + 10 * i + 10)
        ((layout_common (Header p) @ PutUint16 (NumAcks a)) @ concat (map layout_ack (Acks a)) @ pad)))
        [0..<5] = Acks a"
      using Ack assms len by (intro ack_codec.get_array) (simp_all add: wf_packet_def size_defs)
    then show ?thesis
      using Ack assms len
      by (simp add: parseBody_def layout_def buf_simps size_defs algebra_simps)
  qed (use assms len in \<open>auto simp: parseBody_def layout_def buf_simps type_defs\<close>)
qed

lemma Parse_Marshal:
  assumes "wf_packet p" and "Marshal (Val p) = Inr b" and "pad = [] \<or> (\<forall>d. p \<noteq> Data d)"
  shows "Parse (b @ pad) = Inr (canonical p)"
  using assms(1,3) Marshal_Inr_iff [OF assms(1), THEN iffD1, OF assms(2)]
  by (simp add: Parse_layout_append parseBody_layout)

text \<open>The other direction. What \<^verbatim>\<open>Parse\<close> accepts it has decoded without loss.\<close>

lemma PacketType_parseCommon [simp]: "PacketType (parseCommon b) = b ! 11"
  by (simp add: parseCommon_def)

lemma Parse_InrD:
  assumes "Parse b = Inr p"
  obtains n where "28 \<le> length b" and "HeaderSize (b ! 11) = Some n" and "n \<le> length b"
    and "parseBody (parseCommon b) b = Inr p"
  using assms by (auto simp: Parse_def Let_def size_defs not_less split: if_splits option.splits)

text \<open>Case analysis of an accepted datagram, one case per packet type.\<close>

lemma Parse_cases:
  assumes "Parse b = Inr p"
  shows "type_matches p \<and> \<not> ack_overflow p \<and> wf_packet p \<and> Header p = parseCommon b \<and>
    own_size p \<le> length b \<and> 28 \<le> length b \<and> canonical p = p"
proof -
  from assms obtain n where n: "28 \<le> length b" "HeaderSize (b ! 11) = Some n" "n \<le> length b"
    and body: "parseBody (parseCommon b) b = Inr p"
    by (rule Parse_InrD)
  have wf: "length (AckBytes (parseCommon b)) = 3" by (simp add: parseCommon_def)
  from body have t: "type_matches p" "\<not> ack_overflow p" "Header p = parseCommon b" "wf_body p" "canonical p = p"
    by (auto simp: parseBody_def Let_def size_defs split: if_splits)
  moreover have "own_size p = n" using HeaderSize_matches [OF t(1)] n t(3) by simp
  ultimately show ?thesis using n wf by (simp add: wf_packet_def)
qed

lemma layout_body_parse:
  assumes body: "parseBody (parseCommon b) b = Inr p" and len: "own_size p \<le> length b"
  shows "layout_body p = subslice 28 (own_size p + length (payload_of p)) b"
proof (cases p)
  case (Data d)
  then have "56 \<le> length b" using len by (simp add: size_defs)
  then have "drop 56 b = subslice 56 (length b) b" "[b ! 48] = subslice 48 49 b"
    "[b ! 49, b ! 50, b ! 51] = subslice 49 52 b"
    using single_subslice [of 48 b] triple_subslice [of 49 b] by (simp_all add: subslice_def)
  with Data body \<open>56 \<le> length b\<close> show ?thesis
    by (auto simp: parseBody_def Let_def size_defs PutUint16_Uint16 PutUint32_Uint32 layout_ack_parse
        subslice_append simp del: append.simps split: if_splits)
next
  case (Grant g)
  then have "33 \<le> length b" using len by (simp add: size_defs)
  then have "[b ! 32] = subslice 32 33 b" using single_subslice [of 32 b] by simp
  with Grant body \<open>33 \<le> length b\<close> show ?thesis
    by (auto simp: parseBody_def Let_def size_defs PutUint32_Uint32 subslice_append split: if_splits)
next
  case (Resend r)
  then have "37 \<le> length b" using len by (simp add: size_defs)
  then have "[b ! 36] = subslice 36 37 b" using single_subslice [of 36 b] by simp
  with Resend body \<open>37 \<le> length b\<close> show ?thesis
    by (auto simp: parseBody_def Let_def size_defs PutUint32_Uint32 subslice_append split: if_splits)
next
  case (Cutoffs c)
  then have "62 \<le> length b" using len by (simp add: size_defs)
  then have "concat (map PutUint32 (map (\<lambda>i. Uint32 (subslice (28 + 4 * i) (28 + 4 * i + 4) b)) [0..<8]))
      = subslice 28 60 b"
    using be32.put_array [of 28 4 8 b] by simp
  then have "concat (map PutUint32 (map (\<lambda>i. Uint32 (subslice (28 + 4 * i) (32 + 4 * i) b)) [0..<8]))
      = subslice 28 60 b"
    by (simp add: add.commute)
  with Cutoffs body \<open>62 \<le> length b\<close> show ?thesis
    by (auto simp: parseBody_def Let_def size_defs PutUint16_Uint16 subslice_append
        simp del: map_map upt_rec_numeral split: if_splits)
next
  case (Ack a)
  then have "80 \<le> length b" using len by (simp add: size_defs)
  then have "concat (map layout_ack (map (\<lambda>i. parseAck (subslice (30 + 10 * i) (30 + 10 * i + 10) b)) [0..<5]))
      = subslice 30 80 b"
    using ack_codec.put_array [of 30 10 5 b] by simp
  then have "concat (map layout_ack (map (\<lambda>i. parseAck (subslice (30 + i * 10) (40 + i * 10) b)) [0..<5]))
      = subslice 30 80 b"
    by (simp add: algebra_simps)
  with Ack body \<open>80 \<le> length b\<close> show ?thesis
    by (auto simp: parseBody_def Let_def size_defs PutUint16_Uint16 subslice_append
        simp del: map_map upt_rec_numeral split: if_splits)
qed (use body in \<open>auto simp: parseBody_def Let_def size_defs subslice_def split: if_splits\<close>)

lemma payload_of_Parse:
  "parseBody h b = Inr p \<Longrightarrow> PacketType h = b ! 11 \<Longrightarrow>
   payload_of p = (if b ! 11 = DataType then drop 56 b else [])"
  by (auto simp: parseBody_def Let_def size_defs split: if_splits)

lemma layout_Parse:
  assumes "Parse b = Inr p"
  shows "layout p = take (own_size p + length (payload_of p)) b"
proof -
  from assms have "parseBody (parseCommon b) b = Inr p" by (auto elim: Parse_InrD)
  moreover have "own_size p \<le> length b" and "28 \<le> length b" and "Header p = parseCommon b"
    using Parse_cases [OF assms] by auto
  moreover have "28 \<le> own_size p" by (cases p) (simp_all add: size_defs)
  ultimately show ?thesis
    by (simp add: layout_def layout_common_parse layout_body_parse take_subslice subslice_append)
qed

lemma Parse_payload:
  assumes "Parse b = Inr p"
  shows "payload_of p = (if b ! 11 = DataType then drop 56 b else [])"
  using assms by (auto elim!: Parse_InrD dest: payload_of_Parse)

lemma own_size_Parse:
  assumes "Parse b = Inr p"
  shows "HeaderSize (b ! 11) = Some (own_size p)"
  using Parse_cases [OF assms] HeaderSize_matches [of p] by simp

lemma Marshal_Parse:
  assumes "Parse b = Inr p" and "length b \<le> maxInt"
  shows "Marshal (Val p) = Inr (if b ! 11 = DataType then b else take (own_size p) b)"
proof -
  note c = Parse_cases [OF assms(1)] and pl = Parse_payload [OF assms(1)]
  have "b ! 11 = DataType \<Longrightarrow> own_size p = 56"
    using own_size_Parse [OF assms(1)] by (simp add: HeaderSize_def size_defs)
  then have "length (payload_of p) \<le> maxInt - own_size p"
    and "take (own_size p + length (payload_of p)) b = (if b ! 11 = DataType then b else take (own_size p) b)"
    using assms(2) c by (auto simp: pl)
  then show ?thesis
    using c layout_Parse [OF assms(1)] by (simp only: Marshal_Inr_iff) auto
qed

lemma parseBody_no_panic:
  "HeaderSize (PacketType h) = Some n \<Longrightarrow> parseBody h b = Inl e \<Longrightarrow>
   e = ErrAckCount \<and> PacketType h = AckType \<and> 5 < unat (Uint16 (subslice 28 30 b))"
  by (auto simp: parseBody_def HeaderSize_def Let_def size_defs split: if_splits)

lemma parseBody_AckCount:
  "PacketType h = AckType \<Longrightarrow> 5 < unat (Uint16 (subslice 28 30 b)) \<Longrightarrow> parseBody h b = Inl ErrAckCount"
  by (simp add: parseBody_def Let_def size_defs)

section \<open>Segment bounds\<close>

lemma ValidateBounds_iff:
  assumes "length (Payload p) < 2 ^ 63"
  shows "ValidateBounds p m = None \<longleftrightarrow>
    0 < unat (MessageLength p) \<and> MessageLength p \<le> m \<and>
    unat (EffectiveOffset p) + length (Payload p) \<le> unat (MessageLength p)"
proof -
  have off: "unat (EffectiveOffset p) < 2 ^ 32"
    using unat_u32 by simp
  have "unat ((ucast (EffectiveOffset p) :: u64) + of_nat (length (Payload p))) =
      unat (EffectiveOffset p) + length (Payload p)"
    using assms off by (simp add: unat_word_ariths unat_of_nat)
  then have "(ucast (EffectiveOffset p) :: u64) + of_nat (length (Payload p)) > ucast (MessageLength p) \<longleftrightarrow>
      unat (EffectiveOffset p) + length (Payload p) > unat (MessageLength p)"
    by (simp add: word_less_nat_alt)
  then show ?thesis
    by (auto simp: ValidateBounds_def unat_gt_0 not_less linorder_not_le)
qed

section \<open>Properties of the codec\<close>

text \<open>C18. Marshalling a packet whose arrays have their Go lengths either fails with the documented
  error or yields exactly the reference layout, the fields in wire order: an unknown type, or one
  that does not belong to the concrete packet, is \<^verbatim>\<open>ErrType\<close>, more than five acknowledgments
  \<^verbatim>\<open>ErrAckCount\<close>, a payload beyond the address space \<^verbatim>\<open>ErrDataBounds\<close>.\<close>

theorem marshal_is_layout:
  assumes "wf_packet p"
  shows "Marshal (Val p) =
    (if HeaderSize (PacketType (Header p)) = None then Inl ErrType
     else if ack_overflow p then Inl ErrAckCount
     else if \<not> type_matches p then Inl ErrType
     else if length (payload_of p) > maxInt - own_size p then Inl ErrDataBounds
     else Inr (layout p))"
  using marshalValue_eq [OF assms] by simp

theorem marshal_is_layout_witness:
  "Marshal (Val (Grant \<lparr>g_common = NewCommon GrantType 4001 4000 10, g_offset = 28000, g_priority = 3\<rparr>)) =
     Inr (layout (Grant \<lparr>g_common = NewCommon GrantType 4001 4000 10, g_offset = 28000, g_priority = 3\<rparr>))"
  by (subst marshal_is_layout)
    (simp_all add: wf_packet_def NewCommon_def HeaderSize_def size_defs maxInt_def)

text \<open>C19. Parsing the bytes of a marshalled packet gives the packet back, field for field; for
  every packet but DATA also when the datagram carries trailing padding.\<close>

theorem parse_marshal_roundtrip:
  assumes "wf_packet p" and "Marshal (Val p) = Inr b" and "pad = [] \<or> (\<forall>d. p \<noteq> Data d)"
  shows "Parse (b @ pad) = Inr (canonical p)"
  using assms by (rule Parse_Marshal)

definition sample_resend :: packet where
  "sample_resend = Resend \<lparr>rs_common = NewCommon ResendType 4001 4000 11, rs_offset = 2800,
     rs_length = 1400, rs_priority = 7\<rparr>"

theorem parse_marshal_roundtrip_witness:
  "Parse (layout sample_resend @ [0, 0, 0]) = Inr sample_resend"
  using parse_marshal_roundtrip [of sample_resend "layout sample_resend" "[0, 0, 0]"]
  by (simp add: marshalValue_eq sample_resend_def wf_packet_def NewCommon_def HeaderSize_def size_defs
      maxInt_def)

text \<open>C20. What \<^verbatim>\<open>Parse\<close> accepts is well formed, and marshalling it again reproduces the datagram:
  all of it for DATA, the fixed header (without trailing padding) for a control packet.\<close>

theorem marshal_parse_roundtrip:
  assumes "Parse b = Inr p" and "length b \<le> maxInt"
  shows "wf_packet p \<and> type_matches p \<and>
    Marshal (Val p) = Inr (if b ! 11 = DataType then b else take (own_size p) b)"
  using Parse_cases [OF assms(1)] Marshal_Parse [OF assms] by blast

theorem marshal_parse_roundtrip_witness:
  "Marshal (Val (Busy (parseCommon (replicate 11 0 @ [0x14] @ replicate 20 0)))) =
     Inr (replicate 11 0 @ [0x14] @ replicate 16 0)"
  using marshal_parse_roundtrip [of "replicate 11 0 @ [0x14] @ replicate 20 0"
      "Busy (parseCommon (replicate 11 0 @ [0x14] @ replicate 20 0))"]
  by (simp add: Parse_def parseBody_def HeaderSize_def type_defs size_defs maxInt_def nth_append)


end
