(* ===== verification/Config.thy ===== *)
theory Config
  imports Wire
begin

unbundle bit_operations_syntax

text \<open>
  The public types of \<^verbatim>\<open>api.go\<close> (addresses, errors, configuration, statistics) with the part of Go's
  \<^verbatim>\<open>net/netip\<close> they use, and \<^verbatim>\<open>defaults\<close> of \<^verbatim>\<open>endpoint.go\<close>, which fills in and validates a configuration.
  Go's \<^verbatim>\<open>int\<close> is 64 bits wide; configuration values are \<open>int\<close> here, because a caller may pass a
  negative one, and durations are nanoseconds.
\<close>

section \<open>Addresses\<close>

text \<open>\<^verbatim>\<open>netip.Addr\<close>: the zero value, an IPv4 address, an IPv6 address with its zone.\<close>

datatype netip = NoAddr | V4 u32 | V6 "128 word" string

fun Is4 :: "netip \<Rightarrow> bool" where
  "Is4 (V4 a) = True"
| "Is4 _ = False"

fun Is4In6 :: "netip \<Rightarrow> bool" where
  "Is4In6 (V6 a z) \<longleftrightarrow> drop_bit 32 a = 0xffff"
| "Is4In6 _ \<longleftrightarrow> False"

fun Unmap :: "netip \<Rightarrow> netip" where
  "Unmap (V6 a z) = (if drop_bit 32 a = 0xffff then V4 (ucast a) else V6 a z)"
| "Unmap ip = ip"

fun IsUnspecified :: "netip \<Rightarrow> bool" where
  "IsUnspecified NoAddr = False"
| "IsUnspecified (V4 a) \<longleftrightarrow> a = 0"
| "IsUnspecified (V6 a z) \<longleftrightarrow> a = 0 \<and> z = []"

fun IsMulticast :: "netip \<Rightarrow> bool" where
  "IsMulticast NoAddr = False"
| "IsMulticast (V4 a) \<longleftrightarrow> drop_bit 28 a = 0xe"
| "IsMulticast (V6 a z) \<longleftrightarrow>
     (if drop_bit 32 a = 0xffff then drop_bit 28 (ucast a :: u32) = 0xe else drop_bit 120 a = 0xff)"

definition limitedBroadcast :: netip where
  "limitedBroadcast = V4 0xffffffff"

record addr =
  IP :: netip
  Port :: u16

section \<open>Errors, configuration, statistics\<close>

text \<open>Every error value a call can end with: the package's own, the errors of the caller's context,
  a marshalling error, and what the packet I/O returned (an opaque number).\<close>

datatype error =
    ErrClosed
  | ErrBusy
  | ErrTooLarge
  | ErrProtocol
  | DeadlineExceeded
  | Canceled
  | WireErr wire_error
  | IOErr nat

record call_error =
  Err :: error
  Sent :: bool

text \<open>The texts of these errors; \<open>io\<close> is the text of an error of the packet I/O.\<close>

fun wire_error_text :: "wire_error \<Rightarrow> string" where
  "wire_error_text ErrTruncated = ''homa wire: truncated packet''"
| "wire_error_text ErrType = ''homa wire: unknown or mismatched packet type''"
| "wire_error_text ErrAckCount = ''homa wire: more than five acknowledgment records''"
| "wire_error_text ErrDataBounds = ''homa wire: segment exceeds message bounds''"
| "wire_error_text PanicUnreachable = []"

fun api_error_text :: "(nat \<Rightarrow> string) \<Rightarrow> error \<Rightarrow> string" where
  "api_error_text io ErrClosed = ''homa: closed''"
| "api_error_text io ErrBusy = ''homa: capacity exhausted''"
| "api_error_text io ErrTooLarge = ''homa: message length must be 1..configured maximum''"
| "api_error_text io ErrProtocol = ''homa: invalid protocol message''"
| "api_error_text io DeadlineExceeded = ''context deadline exceeded''"
| "api_error_text io Canceled = ''context canceled''"
| "api_error_text io (WireErr e) = wire_error_text e"
| "api_error_text io (IOErr n) = io n"

definition CallError_Error :: "(nat \<Rightarrow> string) \<Rightarrow> call_error \<Rightarrow> string" where
  "CallError_Error io e =
     ''homa: call failed (sent='' @ (if Sent e then ''true'' else ''false'') @ ''): '' @ api_error_text io (Err e)"

definition CallError_Unwrap :: "call_error \<Rightarrow> error" where
  "CallError_Unwrap e = Err e"

lemma CallError_text_sent: "CallError_Error io e = CallError_Error io' e' \<Longrightarrow> Sent e = Sent e'"
  by (auto simp: CallError_Error_def split: if_splits)

record config =
  MaxMessageSize :: int
  MaxRPCs :: int
  MaxBufferedBytes :: int
  HandlerWorkers :: int
  Timeout :: int
  RetryInterval :: int
  SegmentBytes :: int
  UnscheduledBytes :: int
  GrantWindow :: int
  Overcommit :: int

record stats =
  SentPackets :: u64
  ReceivedPackets :: u64
  Retransmissions :: u64
  InvalidPackets :: u64
  DroppedPackets :: u64
  WriteErrors :: u64
  CompletedCalls :: u64
  HandledRequests :: u64
  ActiveRPCs :: nat
  ActiveHandlers :: nat
  BufferedBytes :: int

definition maxMessage :: int where "maxMessage = 1000000"

definition Millisecond :: int where "Millisecond = 1000000"
definition Second :: int where "Second = 1000 * Millisecond"
definition Minute :: int where "Minute = 60 * Second"

lemmas duration_defs = Millisecond_def Second_def Minute_def

section \<open>Defaults\<close>

definition fill :: "int \<Rightarrow> int \<Rightarrow> int" where
  "fill v d = (if v = 0 then d else v)"

definition with_defaults :: "config \<Rightarrow> config" where
  "with_defaults c =
     \<lparr>MaxMessageSize = fill (MaxMessageSize c) maxMessage,
      MaxRPCs = fill (MaxRPCs c) 128,
      MaxBufferedBytes = fill (MaxBufferedBytes c) (push_bit 20 64),
      HandlerWorkers = fill (HandlerWorkers c) 8,
      Timeout = fill (Timeout c) (5 * Second),
      RetryInterval = fill (RetryInterval c) (5 * Millisecond),
      SegmentBytes = fill (SegmentBytes c) 1400,
      UnscheduledBytes = fill (UnscheduledBytes c) 14000,
      GrantWindow = fill (GrantWindow c) 14000,
      Overcommit = fill (Overcommit c) 2\<rparr>"

definition invalid_config :: "config \<Rightarrow> bool" where
  "invalid_config c \<longleftrightarrow>
     MaxMessageSize c < 1 \<or> MaxMessageSize c > maxMessage \<or> MaxRPCs c < 1 \<or> MaxRPCs c > 65536 \<or>
     MaxBufferedBytes c < 1 \<or> HandlerWorkers c < 1 \<or> HandlerWorkers c > 1024 \<or>
     Timeout c < Millisecond \<or> Timeout c > Minute \<or>
     RetryInterval c < Millisecond \<or> RetryInterval c > Timeout c \<or>
     SegmentBytes c < 256 \<or> SegmentBytes c > 1424 \<or>
     UnscheduledBytes c < 1 \<or> UnscheduledBytes c > maxMessage \<or>
     GrantWindow c < 1 \<or> GrantWindow c > maxMessage \<or>
     Overcommit c < 1 \<or> Overcommit c > MaxRPCs c"

text \<open>The rounding divides positive numbers, where Go's truncating division and \<open>div\<close> agree.\<close>

definition defaults :: "config \<Rightarrow> config option" where
  "defaults c =
     (let c = with_defaults c in
      if invalid_config c then None
      else Some (c\<lparr>UnscheduledBytes :=
        ((UnscheduledBytes c + SegmentBytes c - 1) div SegmentBytes c) * SegmentBytes c\<rparr>))"

text \<open>What the rest of the endpoint relies on.\<close>

definition valid_config :: "config \<Rightarrow> bool" where
  "valid_config c \<longleftrightarrow>
     0 < MaxMessageSize c \<and> MaxMessageSize c \<le> maxMessage \<and> 0 < MaxRPCs c \<and> MaxRPCs c \<le> 65536 \<and>
     0 < MaxBufferedBytes c \<and> 0 < HandlerWorkers c \<and> HandlerWorkers c \<le> 1024 \<and>
     Millisecond \<le> RetryInterval c \<and> RetryInterval c \<le> Timeout c \<and> Timeout c \<le> Minute \<and>
     256 \<le> SegmentBytes c \<and> SegmentBytes c \<le> 1424 \<and>
     SegmentBytes c dvd UnscheduledBytes c \<and> 0 < UnscheduledBytes c \<and>
     UnscheduledBytes c < maxMessage + SegmentBytes c \<and>
     0 < GrantWindow c \<and> GrantWindow c \<le> maxMessage \<and> 0 < Overcommit c \<and> Overcommit c \<le> MaxRPCs c"

lemma round_up_bounds:
  fixes u s :: int
  assumes "0 < s"
  shows "u \<le> ((u + s - 1) div s) * s" and "((u + s - 1) div s) * s < u + s"
proof -
  have "(u + s - 1) div s * s = (u + s - 1) - (u + s - 1) mod s"
    by (simp add: minus_mod_eq_div_mult)
  moreover have "0 \<le> (u + s - 1) mod s" and "(u + s - 1) mod s < s"
    using assms by simp_all
  ultimately show "u \<le> ((u + s - 1) div s) * s" and "((u + s - 1) div s) * s < u + s"
    by linarith+
qed

lemma defaults_valid:
  assumes "defaults c = Some d"
  shows "valid_config d"
proof -
  let ?c = "with_defaults c"
  have ok: "\<not> invalid_config ?c" and d: "d = ?c\<lparr>UnscheduledBytes :=
      ((UnscheduledBytes ?c + SegmentBytes ?c - 1) div SegmentBytes ?c) * SegmentBytes ?c\<rparr>"
    using assms by (auto simp: defaults_def Let_def split: if_splits)
  have "0 < SegmentBytes ?c" using ok by (simp add: invalid_config_def)
  note r = round_up_bounds [OF this, of "UnscheduledBytes ?c"]
  show ?thesis
    using ok r unfolding invalid_config_def valid_config_def d by simp
qed

section \<open>Properties of the configuration\<close>

definition zero_config :: config where
  "zero_config = \<lparr>MaxMessageSize = 0, MaxRPCs = 0, MaxBufferedBytes = 0, HandlerWorkers = 0,
     Timeout = 0, RetryInterval = 0, SegmentBytes = 0, UnscheduledBytes = 0, GrantWindow = 0,
     Overcommit = 0\<rparr>"



end
