(* ===== verification/Assembly.thy ===== *)
theory Assembly
  imports Prelude
begin

unbundle bit_operations_syntax

text \<open>
  Message reassembly: the type \<^verbatim>\<open>assembly\<close> of \<^verbatim>\<open>endpoint.go\<close>, the loops of \<^verbatim>\<open>Endpoint.data\<close> that add a
  segment to it, and the scan of \<^verbatim>\<open>requestMissing\<close>. The buffer and its bitmap refine a partial
  message (a map from offsets to bytes); the contract of that abstraction is the locale
  \<open>reassembler\<close>.
\<close>

section \<open>The buffer and its bitmap\<close>

record assembly =
  a_data :: bytes
  a_bits :: bytes
  a_count :: nat
  a_contiguous :: nat
  a_granted :: nat

definition new_assembly :: "nat \<Rightarrow> nat \<Rightarrow> assembly" where
  "new_assembly n incoming =
     \<lparr>a_data = replicate n 0, a_bits = replicate ((n + 7) div 8) 0, a_count = 0, a_contiguous = 0,
      a_granted = incoming\<rparr>"

definition bit_received :: "bytes \<Rightarrow> nat \<Rightarrow> bool" where
  "bit_received bits at \<longleftrightarrow> bits ! (at div 8) AND push_bit (at mod 8) 1 \<noteq> 0"

text \<open>The loop that rejects a segment contradicting an accepted byte.\<close>

fun conflicts :: "assembly \<Rightarrow> nat \<Rightarrow> bytes \<Rightarrow> bool" where
  "conflicts a at [] = False"
| "conflicts a at (x # xs) =
     (if bit_received (a_bits a) at \<and> a_data a ! at \<noteq> x then True else conflicts a (Suc at) xs)"

text \<open>The loop that stores the bytes not seen before.\<close>

fun store :: "assembly \<Rightarrow> nat \<Rightarrow> bytes \<Rightarrow> assembly" where
  "store a at [] = a"
| "store a at (x # xs) =
     store
       (let mask = push_bit (at mod 8) 1 in
        if a_bits a ! (at div 8) AND mask = 0
        then a\<lparr>a_bits := (a_bits a)[at div 8 := a_bits a ! (at div 8) OR mask],
               a_data := (a_data a)[at := x],
               a_count := a_count a + 1\<rparr>
        else a)
       (Suc at) xs"

text \<open>The loop that moves the end of the contiguous prefix.\<close>

function advance :: "assembly \<Rightarrow> assembly" where
  "advance a =
     (if a_contiguous a < length (a_data a) \<and> bit_received (a_bits a) (a_contiguous a)
      then advance (a\<lparr>a_contiguous := a_contiguous a + 1\<rparr>) else a)"
  by pat_completeness auto
termination
  by (relation "measure (\<lambda>a. length (a_data a) - a_contiguous a)") auto

declare advance.simps [simp del]

definition add_segment :: "assembly \<Rightarrow> nat \<Rightarrow> bytes \<Rightarrow> nat \<Rightarrow> assembly option" where
  "add_segment a start payload incoming =
     (if conflicts a start payload then None
      else let a = store a start payload;
               a = a\<lparr>a_granted := max (a_granted a) incoming\<rparr>
           in Some (advance a))"

definition complete :: "assembly \<Rightarrow> bool" where
  "complete a \<longleftrightarrow> a_count a = length (a_data a)"

text \<open>The scan of \<^verbatim>\<open>requestMissing\<close>: the first missing range within the granted bytes, if any.\<close>

function scan_received :: "bytes \<Rightarrow> nat \<Rightarrow> nat \<Rightarrow> nat" where
  "scan_received bits at end =
     (if at < end then if bit_received bits at then at else scan_received bits (Suc at) end else end)"
  by pat_completeness auto
termination
  by (relation "measure (\<lambda>(bits, at, end). end - at)") auto

declare scan_received.simps [simp del]

definition missing_range :: "assembly \<Rightarrow> (nat \<times> nat) option" where
  "missing_range a =
     (let offset = a_contiguous a;
          end = scan_received (a_bits a) offset (min (a_granted a) (length (a_data a)))
      in if offset \<ge> end then None else Some (offset, end - offset))"

section \<open>The partial message a buffer stands for\<close>

definition content :: "assembly \<Rightarrow> nat \<Rightarrow> byte option" where
  "content a i =
     (if i < length (a_data a) \<and> bit_received (a_bits a) i then Some (a_data a ! i) else None)"

definition received_set :: "assembly \<Rightarrow> nat set" where
  "received_set a = {i. i < length (a_data a) \<and> bit_received (a_bits a) i}"

text \<open>The invariant but for the contiguous prefix, which lags while bytes are stored.\<close>

definition wf_store :: "assembly \<Rightarrow> bool" where
  "wf_store a \<longleftrightarrow> length (a_bits a) = (length (a_data a) + 7) div 8 \<and>
     a_count a = card (received_set a) \<and>
     a_contiguous a \<le> length (a_data a) \<and> (\<forall>i < a_contiguous a. bit_received (a_bits a) i)"

definition wf_assembly :: "assembly \<Rightarrow> bool" where
  "wf_assembly a \<longleftrightarrow> wf_store a \<and>
     (a_contiguous a < length (a_data a) \<longrightarrow> \<not> bit_received (a_bits a) (a_contiguous a))"

lemma bit_received_bit: "bit_received bits i \<longleftrightarrow> bit (bits ! (i div 8)) (i mod 8)"
  by (simp add: bit_received_def bit_iff_and_push_bit_not_eq_0)

lemma bit_received_mark:
  assumes "i div 8 < length bits" and "j div 8 < length bits"
  shows "bit_received (bits[i div 8 := bits ! (i div 8) OR 2 ^ (i mod 8)]) j \<longleftrightarrow>
    j = i \<or> bit_received bits j"
proof (cases "i div 8 = j div 8")
  case True
  then have "j = i \<longleftrightarrow> j mod 8 = i mod 8"
    by (metis div_mult_mod_eq)
  with True assms show ?thesis
    by (auto simp: bit_received_bit bit_simps nth_list_update)
next
  case False
  with assms show ?thesis by (auto simp: bit_received_bit)
qed

lemma bits_index:
  "wf_store a \<Longrightarrow> i < length (a_data a) \<Longrightarrow> i div 8 < length (a_bits a)"
  by (auto simp: wf_store_def)

lemma finite_received_set [simp]: "finite (received_set a)"
  by (simp add: received_set_def)

lemma content_None_iff: "i < length (a_data a) \<Longrightarrow> content a i = None \<longleftrightarrow> \<not> bit_received (a_bits a) i"
  by (simp add: content_def)

section \<open>Storing a segment\<close>

text \<open>One byte of \<open>store\<close>.\<close>

definition store1 :: "assembly \<Rightarrow> nat \<Rightarrow> byte \<Rightarrow> assembly" where
  "store1 a at x =
     (if bit_received (a_bits a) at then a
      else a\<lparr>a_bits := (a_bits a)[at div 8 := a_bits a ! (at div 8) OR push_bit (at mod 8) 1],
             a_data := (a_data a)[at := x],
             a_count := a_count a + 1\<rparr>)"

lemma store_Cons: "store a at (x # xs) = store (store1 a at x) (Suc at) xs"
  by (simp add: store1_def bit_received_def Let_def)

lemma store1_frame [simp]:
  "length (a_data (store1 a at x)) = length (a_data a)"
  "length (a_bits (store1 a at x)) = length (a_bits a)"
  "a_contiguous (store1 a at x) = a_contiguous a"
  "a_granted (store1 a at x) = a_granted a"
  by (simp_all add: store1_def)

lemma store1_received:
  assumes "wf_store a" and "at < length (a_data a)" and "i < length (a_data a)"
  shows "bit_received (a_bits (store1 a at x)) i \<longleftrightarrow> i = at \<or> bit_received (a_bits a) i"
  using assms bits_index [OF assms(1)] by (auto simp: store1_def bit_received_mark)

lemma store1_received_set:
  assumes "wf_store a" and "at < length (a_data a)"
  shows "received_set (store1 a at x) = insert at (received_set a)"
  using assms store1_received [OF assms] by (auto simp: received_set_def)

lemma store1_wf:
  assumes "wf_store a" and "at < length (a_data a)"
  shows "wf_store (store1 a at x)"
proof -
  have "a_count (store1 a at x) = card (received_set (store1 a at x))"
    unfolding store1_received_set [OF assms]
    using assms by (auto simp: wf_store_def store1_def received_set_def insert_absorb card_insert_if)
  moreover have "\<forall>i < a_contiguous a. bit_received (a_bits (store1 a at x)) i"
    using assms store1_received [OF assms] by (auto simp: wf_store_def)
  ultimately show ?thesis
    using assms by (simp add: wf_store_def)
qed

lemma store1_content:
  assumes "wf_store a" and "at < length (a_data a)" and "content a at \<in> {None, Some x}"
  shows "content (store1 a at x) = (content a)(at \<mapsto> x)"
proof
  fix i
  show "content (store1 a at x) i = ((content a)(at \<mapsto> x)) i"
    using assms store1_received [OF assms(1,2), of i]
    by (auto simp: content_def store1_def nth_list_update split: if_splits)
qed

text \<open>The segment \<open>xs\<close> at offset \<open>at\<close> as a map.\<close>

definition segment_map :: "nat \<Rightarrow> bytes \<Rightarrow> nat \<Rightarrow> byte option" where
  "segment_map at xs i = (if at \<le> i \<and> i < at + length xs then Some (xs ! (i - at)) else None)"

lemma segment_map_Nil [simp]: "segment_map at [] = Map.empty"
  by (auto simp: segment_map_def)

lemma segment_map_Cons: "segment_map at (x # xs) = (segment_map (Suc at) xs)(at \<mapsto> x)"
  by (auto simp: segment_map_def fun_eq_iff nth_Cons')

definition agrees :: "(nat \<Rightarrow> byte option) \<Rightarrow> nat \<Rightarrow> bytes \<Rightarrow> bool" where
  "agrees m at xs \<longleftrightarrow> (\<forall>k < length xs. m (at + k) \<in> {None, Some (xs ! k)})"

lemma agrees_Cons: "agrees m at (x # xs) \<longleftrightarrow> m at \<in> {None, Some x} \<and> agrees m (Suc at) xs"
  by (simp add: agrees_def All_less_Suc2 del: insert_iff)

lemma agrees_upd: "agrees m (Suc at) xs \<Longrightarrow> agrees (m(at \<mapsto> x)) (Suc at) xs"
  by (simp add: agrees_def)

lemma conflicts_iff:
  assumes "at + length xs \<le> length (a_data a)"
  shows "conflicts a at xs \<longleftrightarrow> \<not> agrees (content a) at xs"
  using assms by (induction xs arbitrary: at) (auto simp: agrees_Cons content_def, simp add: agrees_def)

lemma store_frame [simp]:
  "length (a_data (store a at xs)) = length (a_data a)"
  "length (a_bits (store a at xs)) = length (a_bits a)"
  "a_contiguous (store a at xs) = a_contiguous a"
  "a_granted (store a at xs) = a_granted a"
  by (induction xs arbitrary: a at) (simp_all add: store_Cons del: store.simps(2))

lemma store_wf:
  "wf_store a \<Longrightarrow> at + length xs \<le> length (a_data a) \<Longrightarrow> wf_store (store a at xs)"
  by (induction xs arbitrary: a at) (simp_all add: store_Cons store1_wf del: store.simps(2))

lemma store_content:
  "wf_store a \<Longrightarrow> at + length xs \<le> length (a_data a) \<Longrightarrow> agrees (content a) at xs \<Longrightarrow>
   content (store a at xs) = content a ++ segment_map at xs"
proof (induction xs arbitrary: a at)
  case Nil
  then show ?case by simp
next
  case (Cons x xs)
  have at: "at < length (a_data a)" and x: "content a at \<in> {None, Some x}"
    using Cons.prems by (auto simp: agrees_Cons)
  note one = store1_content [OF Cons.prems(1) at x]
  have rest: "agrees (content (store1 a at x)) (Suc at) xs"
    unfolding one by (rule agrees_upd) (use Cons.prems(3) in \<open>simp add: agrees_Cons\<close>)
  have "content (store (store1 a at x) (Suc at) xs) = content (store1 a at x) ++ segment_map (Suc at) xs"
    using Cons.prems at rest by (intro Cons.IH) (simp_all add: store1_wf)
  moreover have "(content a)(at \<mapsto> x) ++ segment_map (Suc at) xs = content a ++ segment_map at (x # xs)"
    unfolding segment_map_Cons by (rule ext) (simp add: map_add_def segment_map_def)
  ultimately show ?case
    by (simp only: store_Cons one)
qed

lemma advance_frame_conj:
  "a_data (advance a) = a_data a \<and> a_bits (advance a) = a_bits a \<and> a_count (advance a) = a_count a \<and>
   a_granted (advance a) = a_granted a"
proof (induction a rule: advance.induct)
  case (1 a)
  then show ?case
    by (cases "a_contiguous a < length (a_data a) \<and> bit_received (a_bits a) (a_contiguous a)")
      (auto simp: advance.simps [of a])
qed

lemmas advance_frame [simp] = advance_frame_conj [THEN conjunct1]
  advance_frame_conj [THEN conjunct2, THEN conjunct1]
  advance_frame_conj [THEN conjunct2, THEN conjunct2, THEN conjunct1]
  advance_frame_conj [THEN conjunct2, THEN conjunct2, THEN conjunct2]

lemma advance_wf: "wf_store a \<Longrightarrow> wf_assembly (advance a)"
proof (induction a rule: advance.induct)
  case (1 a)
  show ?case
  proof (cases "a_contiguous a < length (a_data a) \<and> bit_received (a_bits a) (a_contiguous a)")
    case True
    then have "wf_store (a\<lparr>a_contiguous := a_contiguous a + 1\<rparr>)"
      using "1.prems" by (auto simp: wf_store_def received_set_def less_Suc_eq)
    with "1.IH" [OF True] True show ?thesis by (subst advance.simps) simp
  next
    case False
    with "1.prems" show ?thesis by (subst advance.simps) (auto simp: wf_assembly_def)
  qed
qed

lemma content_cong: "a_data a = a_data b \<Longrightarrow> a_bits a = a_bits b \<Longrightarrow> content a = content b"
  by (simp add: content_def fun_eq_iff)

lemma wf_store_granted: "wf_store (a\<lparr>a_granted := g\<rparr>) = wf_store a"
  by (simp add: wf_store_def received_set_def)

lemma wf_assembly_granted: "wf_assembly (a\<lparr>a_granted := g\<rparr>) = wf_assembly a"
  by (simp add: wf_assembly_def wf_store_granted)

lemma add_segment_None:
  "start + length xs \<le> length (a_data a) \<Longrightarrow>
   add_segment a start xs inc = None \<longleftrightarrow> \<not> agrees (content a) start xs"
  by (simp add: add_segment_def Let_def conflicts_iff)

lemma add_segment_Some:
  assumes "wf_assembly a" and "start + length xs \<le> length (a_data a)"
    and "add_segment a start xs inc = Some b"
  shows "wf_assembly b" and "content b = content a ++ segment_map start xs"
    and "length (a_data b) = length (a_data a)" and "a_granted b = max (a_granted a) inc"
proof -
  from assms(3) have ag: "agrees (content a) start xs"
    using add_segment_None [OF assms(2), of inc] by simp
  have wf: "wf_store a" using assms(1) by (simp add: wf_assembly_def)
  from assms(3) have b: "b = advance ((store a start xs)\<lparr>a_granted := max (a_granted a) inc\<rparr>)"
    by (auto simp: add_segment_def Let_def split: if_splits)
  show "wf_assembly b"
    using wf assms(2) by (simp add: b advance_wf wf_store_granted store_wf)
  have "content b = content (store a start xs)"
    by (rule content_cong) (simp_all add: b)
  then show "content b = content a ++ segment_map start xs"
    using store_content [OF wf assms(2) ag] by simp
  show "length (a_data b) = length (a_data a)" and "a_granted b = max (a_granted a) inc"
    by (simp_all add: b)
qed

lemma new_assembly_wf: "wf_assembly (new_assembly n g)"
proof -
  have "received_set (new_assembly n g) = {}"
    by (auto simp: received_set_def new_assembly_def bit_received_def)
  then show ?thesis
    by (auto simp: wf_assembly_def wf_store_def new_assembly_def bit_received_def)
qed

lemma new_assembly_length [simp]: "length (a_data (new_assembly n g)) = n"
  by (simp add: new_assembly_def)

lemma new_assembly_content: "content (new_assembly n g) = Map.empty"
  by (auto simp: content_def new_assembly_def bit_received_def fun_eq_iff)

lemma complete_iff:
  assumes "wf_assembly a"
  shows "complete a \<longleftrightarrow> (\<forall>i < length (a_data a). content a i = Some (a_data a ! i))"
proof -
  have sub: "received_set a \<subseteq> {..<length (a_data a)}" by (auto simp: received_set_def)
  have "complete a \<longleftrightarrow> card (received_set a) = card {..<length (a_data a)}"
    using assms by (simp add: complete_def wf_assembly_def wf_store_def)
  also have "\<dots> \<longleftrightarrow> received_set a = {..<length (a_data a)}"
    using card_subset_eq [OF finite_lessThan sub] by metis
  also have "\<dots> \<longleftrightarrow> (\<forall>i < length (a_data a). content a i = Some (a_data a ! i))"
    by (auto simp: received_set_def content_def)
  finally show ?thesis .
qed

section \<open>The contract of a reassembler\<close>

text \<open>What the endpoint relies on when it feeds DATA segments into a buffer: a buffer stands for a
  partial message, inserting an agreeing segment extends it, a contradicting one is refused, and a
  complete buffer hands out the message. The consequences below hold for segments in any order,
  with any duplicates and any boundaries.\<close>

locale reassembler =
  fixes fresh :: "nat \<Rightarrow> 's \<Rightarrow> 'a"
    and insert_seg :: "'a \<Rightarrow> 's \<Rightarrow> 'a option"
    and offset :: "'s \<Rightarrow> nat" and body :: "'s \<Rightarrow> bytes"
    and msg_size :: "'a \<Rightarrow> nat" and known :: "'a \<Rightarrow> nat \<Rightarrow> byte option"
    and is_complete :: "'a \<Rightarrow> bool" and message :: "'a \<Rightarrow> bytes" and invar :: "'a \<Rightarrow> bool"
  assumes fresh_invar: "invar (fresh n s)"
    and fresh_known: "known (fresh n s) = Map.empty"
    and fresh_size: "msg_size (fresh n s) = n"
    and insert_refuses: "invar a \<Longrightarrow> offset s + length (body s) \<le> msg_size a \<Longrightarrow>
      insert_seg a s = None \<longleftrightarrow> \<not> agrees (known a) (offset s) (body s)"
    and insert_invar: "invar a \<Longrightarrow> offset s + length (body s) \<le> msg_size a \<Longrightarrow>
      insert_seg a s = Some b \<Longrightarrow> invar b"
    and insert_size: "invar a \<Longrightarrow> offset s + length (body s) \<le> msg_size a \<Longrightarrow>
      insert_seg a s = Some b \<Longrightarrow> msg_size b = msg_size a"
    and insert_known: "invar a \<Longrightarrow> offset s + length (body s) \<le> msg_size a \<Longrightarrow>
      insert_seg a s = Some b \<Longrightarrow> known b = known a ++ segment_map (offset s) (body s)"
    and complete_spec: "invar a \<Longrightarrow> is_complete a \<longleftrightarrow> (\<forall>i < msg_size a. known a i \<noteq> None)"
    and message_nth: "invar a \<Longrightarrow> known a i = Some x \<Longrightarrow> message a ! i = x"
    and message_size: "invar a \<Longrightarrow> length (message a) = msg_size a"
begin

text \<open>A segment of the message \<open>m\<close>.\<close>

definition segment_of :: "bytes \<Rightarrow> 's \<Rightarrow> bool" where
  "segment_of m s \<longleftrightarrow> offset s + length (body s) \<le> length m \<and>
     body s = subslice (offset s) (offset s + length (body s)) m"

fun insert_all :: "'a \<Rightarrow> 's list \<Rightarrow> 'a option" where
  "insert_all a [] = Some a"
| "insert_all a (s # ss) = (case insert_seg a s of None \<Rightarrow> None | Some b \<Rightarrow> insert_all b ss)"

definition covered :: "'s list \<Rightarrow> nat set" where
  "covered ss = (\<Union>s\<in>set ss. {offset s..<offset s + length (body s)})"

definition part_of :: "(nat \<Rightarrow> byte option) \<Rightarrow> nat set \<Rightarrow> bytes \<Rightarrow> bool" where
  "part_of f A m \<longleftrightarrow> f = (\<lambda>i. if i \<in> A then Some (m ! i) else None)"

lemma segment_nth:
  "segment_of m s \<Longrightarrow> k < length (body s) \<Longrightarrow> body s ! k = m ! (offset s + k)"
proof -
  assume s: "segment_of m s" and k: "k < length (body s)"
  then have "body s ! k = subslice (offset s) (offset s + length (body s)) m ! k"
    by (metis segment_of_def)
  also have "\<dots> = m ! (offset s + k)"
    using k conjunct1 [OF s [unfolded segment_of_def]] by simp
  finally show ?thesis .
qed

lemma insert_message_segment:
  assumes "invar a" and "msg_size a = length m" and "segment_of m s" and "part_of (known a) A m"
  obtains b where "insert_seg a s = Some b" and "invar b" and "msg_size b = length m"
    and "part_of (known b) (A \<union> {offset s..<offset s + length (body s)}) m"
proof -
  have fits: "offset s + length (body s) \<le> msg_size a"
    using assms by (simp add: segment_of_def)
  have "agrees (known a) (offset s) (body s)"
    using assms segment_nth [OF assms(3)] by (simp add: agrees_def part_of_def)
  then obtain b where b: "insert_seg a s = Some b"
    using insert_refuses [OF assms(1) fits] by blast
  moreover have "part_of (known b) (A \<union> {offset s..<offset s + length (body s)}) m"
    unfolding insert_known [OF assms(1) fits b] part_of_def
  proof
    fix i
    show "(known a ++ segment_map (offset s) (body s)) i =
        (if i \<in> A \<union> {offset s..<offset s + length (body s)} then Some (m ! i) else None)"
      using assms(4) segment_nth [OF assms(3), of "i - offset s"]
      by (auto simp: part_of_def map_add_def segment_map_def)
  qed
  ultimately show ?thesis
    using that [of b] assms(1,2) insert_invar [OF assms(1) fits b] insert_size [OF assms(1) fits b]
    by simp
qed

lemma insert_all_segments:
  assumes "invar a" and "msg_size a = length m" and "\<forall>s\<in>set ss. segment_of m s"
    and "part_of (known a) A m"
  shows "\<exists>b. insert_all a ss = Some b \<and> invar b \<and> msg_size b = length m \<and>
    part_of (known b) (A \<union> covered ss) m"
  using assms
proof (induction ss arbitrary: a A)
  case Nil
  then show ?case by (simp add: covered_def)
next
  case (Cons s ss)
  then obtain b where b: "insert_seg a s = Some b" "invar b" "msg_size b = length m"
    "part_of (known b) (A \<union> {offset s..<offset s + length (body s)}) m"
    by (metis insert_message_segment list.set_intros(1))
  have "\<exists>c. insert_all b ss = Some c \<and> invar c \<and> msg_size c = length m \<and>
      part_of (known c) (A \<union> {offset s..<offset s + length (body s)} \<union> covered ss) m"
    using b Cons.prems by (intro Cons.IH) simp_all
  with b(1) show ?case by (simp add: covered_def Un_assoc)
qed

lemma reassembles:
  assumes "\<forall>s\<in>set ss. segment_of m s" and "n = length m"
  shows "\<exists>b. insert_all (fresh n s0) ss = Some b \<and>
    (is_complete b \<longleftrightarrow> {..<length m} \<subseteq> covered ss) \<and> (is_complete b \<longrightarrow> message b = m)"
proof -
  obtain b where b: "insert_all (fresh n s0) ss = Some b" "invar b" "msg_size b = length m"
    "part_of (known b) (covered ss) m"
    using insert_all_segments [of "fresh n s0" m ss "{}"] assms
    by (auto simp: fresh_invar fresh_size fresh_known part_of_def)
  have p: "\<And>i. known b i = (if i \<in> covered ss then Some (m ! i) else None)"
    using b(4) by (simp add: part_of_def)
  have len: "length (message b) = length m"
    using b message_size by simp
  have known_nth: "\<And>i. i \<in> covered ss \<Longrightarrow> message b ! i = m ! i"
    using message_nth [OF b(2)] p by simp
  have "message b = m" if "is_complete b"
    using that complete_spec [OF b(2)] known_nth b(3) len p
    by (intro nth_equalityI) (auto split: if_splits)
  moreover have "is_complete b \<longleftrightarrow> {..<length m} \<subseteq> covered ss"
    using complete_spec [OF b(2)] b(3) p by auto
  ultimately show ?thesis using b(1) by blast
qed

end

text \<open>The endpoint's buffer keeps the contract. A segment is its offset, its bytes and the
  \<^verbatim>\<open>Incoming\<close> field that came with it.\<close>

type_synonym segment = "nat \<times> bytes \<times> nat"

abbreviation seg_offset :: "segment \<Rightarrow> nat" where "seg_offset s \<equiv> fst s"
abbreviation seg_body :: "segment \<Rightarrow> bytes" where "seg_body s \<equiv> fst (snd s)"
abbreviation seg_incoming :: "segment \<Rightarrow> nat" where "seg_incoming s \<equiv> snd (snd s)"

definition first_segment :: "nat \<Rightarrow> segment \<Rightarrow> assembly" where
  "first_segment n s = new_assembly n (seg_incoming s)"

definition receive_segment :: "assembly \<Rightarrow> segment \<Rightarrow> assembly option" where
  "receive_segment a s = add_segment a (seg_offset s) (seg_body s) (seg_incoming s)"

interpretation asm: reassembler first_segment receive_segment seg_offset seg_body
  "\<lambda>a. length (a_data a)" content complete a_data wf_assembly
proof unfold_locales
  show "\<And>a i x. wf_assembly a \<Longrightarrow> content a i = Some x \<Longrightarrow> a_data a ! i = x"
    by (simp add: content_def split: if_splits)
  show "\<And>a. wf_assembly a \<Longrightarrow> complete a \<longleftrightarrow> (\<forall>i < length (a_data a). content a i \<noteq> None)"
    by (simp add: complete_iff content_def)
qed (auto simp: first_segment_def receive_segment_def new_assembly_wf new_assembly_content
    add_segment_None dest: add_segment_Some)

section \<open>The range to ask for again\<close>

lemma scan_received_spec:
  "at \<le> e \<Longrightarrow> at \<le> scan_received bits at e \<and> scan_received bits at e \<le> e \<and>
   (\<forall>i. at \<le> i \<and> i < scan_received bits at e \<longrightarrow> \<not> bit_received bits i) \<and>
   (scan_received bits at e < e \<longrightarrow> bit_received bits (scan_received bits at e))"
proof (induction bits at e rule: scan_received.induct)
  case (1 bits at e)
  show ?case
  proof (cases "at < e \<and> \<not> bit_received bits at")
    case True
    then have eq: "scan_received bits at e = scan_received bits (Suc at) e"
      by (simp add: scan_received.simps [of bits at e])
    let ?s = "scan_received bits (Suc at) e"
    have IH: "Suc at \<le> ?s \<and> ?s \<le> e \<and> (\<forall>i. Suc at \<le> i \<and> i < ?s \<longrightarrow> \<not> bit_received bits i) \<and>
        (?s < e \<longrightarrow> bit_received bits ?s)"
      using True by (intro "1.IH") auto
    have "\<not> bit_received bits i" if "at \<le> i" "i < ?s" for i
      using that IH True by (cases "i = at") auto
    with IH show ?thesis unfolding eq by auto
  next
    case False
    with "1.prems" show ?thesis by (auto simp: scan_received.simps [of bits at e])
  qed
qed

lemma missing_range_Some:
  assumes "wf_assembly a" and "missing_range a = Some (off, len)"
  shows "off = a_contiguous a" and "0 < len" and "off + len \<le> a_granted a"
    and "off + len \<le> length (a_data a)"
    and "\<And>i. off \<le> i \<Longrightarrow> i < off + len \<Longrightarrow> content a i = None"
    and "\<And>i. i < off \<Longrightarrow> content a i \<noteq> None"
    and "off + len = min (a_granted a) (length (a_data a)) \<or> content a (off + len) \<noteq> None"
proof -
  define e where "e = min (a_granted a) (length (a_data a))"
  define s where "s = scan_received (a_bits a) (a_contiguous a) e"
  from assms(2) have off: "off = a_contiguous a" "off < s" "len = s - off"
    by (auto simp: missing_range_def Let_def e_def s_def split: if_splits)
  have "off \<le> e"
  proof (rule ccontr)
    assume "\<not> off \<le> e"
    with off have "s = e" by (simp add: s_def scan_received.simps [of "a_bits a" "a_contiguous a" e])
    with off(2) \<open>\<not> off \<le> e\<close> show False by simp
  qed
  then have s: "s \<le> e" "\<forall>i. off \<le> i \<and> i < s \<longrightarrow> \<not> bit_received (a_bits a) i" "s < e \<longrightarrow> bit_received (a_bits a) s"
    using scan_received_spec [of "a_contiguous a" e "a_bits a"] off(1) by (auto simp: s_def)
  show "off = a_contiguous a" "0 < len" "off + len \<le> a_granted a" "off + len \<le> length (a_data a)"
    using off s(1) by (auto simp: e_def)
  show "\<And>i. off \<le> i \<Longrightarrow> i < off + len \<Longrightarrow> content a i = None"
    using off s(2) by (simp add: content_def)
  show "\<And>i. i < off \<Longrightarrow> content a i \<noteq> None"
    using assms(1) off(1) by (auto simp: content_def wf_assembly_def wf_store_def)
  show "off + len = min (a_granted a) (length (a_data a)) \<or> content a (off + len) \<noteq> None"
    using off(2,3) s(1,3) by (auto simp: content_def e_def [symmetric]) (simp_all add: e_def)
qed

lemma missing_range_None:
  assumes "wf_assembly a" and "missing_range a = None"
  shows "min (a_granted a) (length (a_data a)) \<le> a_contiguous a"
proof (rule ccontr)
  let ?e = "min (a_granted a) (length (a_data a))"
  assume "\<not> ?e \<le> a_contiguous a"
  then have lt: "a_contiguous a < ?e" by linarith
  then have "\<not> bit_received (a_bits a) (a_contiguous a)"
    using assms(1) by (simp add: wf_assembly_def)
  then have "a_contiguous a < scan_received (a_bits a) (a_contiguous a) ?e"
    using scan_received_spec [of "a_contiguous a" ?e "a_bits a"] lt
    by (metis le_eq_less_or_eq)
  with assms(2) show False by (simp add: missing_range_def Let_def)
qed

section \<open>Properties of reassembly\<close>

text \<open>Feeding a list of DATA segments, each as (offset, bytes, \<^verbatim>\<open>Incoming\<close>).\<close>

fun receive_segments :: "assembly \<Rightarrow> segment list \<Rightarrow> assembly option" where
  "receive_segments a [] = Some a"
| "receive_segments a ((start, payload, incoming) # ss) =
     (case add_segment a start payload incoming of
        None \<Rightarrow> None | Some b \<Rightarrow> receive_segments b ss)"

definition segments_of :: "bytes \<Rightarrow> segment list \<Rightarrow> bool" where
  "segments_of m ss \<longleftrightarrow> (\<forall>(start, payload, incoming) \<in> set ss.
     start + length payload \<le> length m \<and> payload = subslice start (start + length payload) m)"

definition covers :: "nat \<Rightarrow> segment list \<Rightarrow> bool" where
  "covers n ss \<longleftrightarrow>
     (\<forall>i < n. \<exists>(start, payload, incoming) \<in> set ss. start \<le> i \<and> i < start + length payload)"

lemma receive_segments_insert_all: "receive_segments a ss = asm.insert_all a ss"
proof (induction a ss rule: receive_segments.induct)
  case (2 a start payload incoming ss)
  have "receive_segment a (start, payload, incoming) = add_segment a start payload incoming"
    by (simp add: receive_segment_def)
  with "2.IH" show ?case by (simp add: asm.insert_all.simps split: option.splits)
qed (simp add: asm.insert_all.simps)

lemma segments_of_iff: "segments_of m ss \<longleftrightarrow> (\<forall>s\<in>set ss. asm.segment_of m s)"
  by (simp add: segments_of_def asm.segment_of_def split_beta)

lemma covers_iff: "covers n ss \<longleftrightarrow> {..<n} \<subseteq> asm.covered ss"
proof -
  have "i \<in> asm.covered ss \<longleftrightarrow>
      (\<exists>(start, payload, incoming) \<in> set ss. start \<le> i \<and> i < start + length payload)" for i
    by (simp add: asm.covered_def split_beta)
  then show ?thesis by (simp add: covers_def subset_iff)
qed

text \<open>C13. Segments of a message, in any order, with any overlaps, duplicates and boundaries, are
  all accepted; the buffer is complete exactly when they cover the message, and then holds it.\<close>

theorem reassembly_correct:
  assumes "segments_of m ss"
  shows "\<exists>b. receive_segments (new_assembly (length m) g) ss = Some b \<and>
    (complete b \<longleftrightarrow> covers (length m) ss) \<and> (complete b \<longrightarrow> a_data b = m)"
  using asm.reassembles [of ss m "length m" "(0, [], g)"] assms
  by (simp add: receive_segments_insert_all segments_of_iff covers_iff first_segment_def)

theorem reassembly_correct_witness:
  "\<exists>b. receive_segments (new_assembly 5 5)
      [(3, [4, 5], 5), (0, [1, 2], 5), (3, [4, 5], 5), (1, [2, 3], 5)] = Some b \<and> complete b \<and>
      a_data b = [1, 2, 3, 4, 5]"
proof -
  let ?m = "[1, 2, 3, 4, 5] :: bytes"
  let ?ss = "[(3, [4, 5], 5), (0, [1, 2], 5), (3, [4, 5], 5), (1, [2, 3], 5)] :: segment list"
  have "segments_of ?m ?ss" by (simp add: segments_of_def subslice_def)
  moreover have "covers (length ?m) ?ss" unfolding covers_def by code_simp
  moreover have "length ?m = 5" by simp
  ultimately show ?thesis using reassembly_correct [of ?m ?ss 5] by metis
qed

text \<open>C14. Adding a segment to a well-formed buffer refines the extension of a partial message: it is
  refused exactly when it contradicts an accepted byte; otherwise the invariant is kept (bitmap
  length, exact count, exact contiguous prefix), the stored bytes are the old ones and the
  segment's, so no accepted byte changes, and the grant only grows.\<close>

theorem add_segment_refines:
  assumes "wf_assembly a" and "start + length xs \<le> length (a_data a)"
  shows "case add_segment a start xs inc of
      None \<Rightarrow> \<not> agrees (content a) start xs
    | Some b \<Rightarrow> agrees (content a) start xs \<and> wf_assembly b \<and>
        content b = content a ++ segment_map start xs \<and> content a \<subseteq>\<^sub>m content b \<and>
        length (a_data b) = length (a_data a) \<and> a_granted a \<le> a_granted b \<and> inc \<le> a_granted b"
proof (cases "add_segment a start xs inc")
  case None
  with add_segment_None [OF assms(2)] show ?thesis by auto
next
  case (Some b)
  then have ag: "agrees (content a) start xs"
    using add_segment_None [OF assms(2), of inc] by simp
  note facts = add_segment_Some [OF assms Some]
  have "content a i \<in> {None, content b i}" for i
  proof (cases "start \<le> i \<and> i < start + length xs")
    case True
    then have "content a (start + (i - start)) \<in> {None, Some (xs ! (i - start))}"
      using ag [unfolded agrees_def, rule_format, of "i - start"] by auto
    with True show ?thesis by (auto simp: facts(2) map_add_def segment_map_def)
  next
    case False
    then show ?thesis by (auto simp: facts(2) map_add_def segment_map_def)
  qed
  then have "content a \<subseteq>\<^sub>m content b"
    unfolding map_le_def by (metis domIff insert_iff empty_iff)
  with Some ag facts show ?thesis by simp
qed

theorem add_segment_refines_witness:
  "add_segment (new_assembly 4 2) 1 [7, 8] 4 \<noteq> None \<and>
   (case add_segment (new_assembly 4 2) 1 [7, 8] 4 of None \<Rightarrow> False
    | Some b \<Rightarrow> wf_assembly b \<and> content b = [2 \<mapsto> 8, 1 \<mapsto> 7] \<and> a_granted b = 4)"
proof -
  have "wf_assembly (new_assembly 4 2)" by (rule new_assembly_wf)
  moreover have "add_segment (new_assembly 4 2) 1 [7, 8] 4 =
      Some \<lparr>a_data = [0, 7, 8, 0], a_bits = [6], a_count = 2, a_contiguous = 0, a_granted = 4\<rparr>"
    by code_simp
  ultimately show ?thesis
    using add_segment_refines [of "new_assembly 4 2" 1 "[7, 8]" 4]
    by (simp add: new_assembly_content segment_map_Cons numeral_2_eq_2)
qed

text \<open>C15. The range a RESEND asks for starts at the first missing byte, lies within both the message
  and the granted bytes, contains only missing bytes and ends at the next byte that has arrived or
  at the end of what was granted; when none is asked for, everything granted so far has arrived.\<close>

theorem missing_range_correct:
  assumes "wf_assembly a"
  shows "case missing_range a of
      None \<Rightarrow> \<forall>i < min (a_granted a) (length (a_data a)). content a i \<noteq> None
    | Some (off, len) \<Rightarrow> 0 < len \<and> off + len \<le> a_granted a \<and> off + len \<le> length (a_data a) \<and>
        (\<forall>i < off. content a i \<noteq> None) \<and> (\<forall>i. off \<le> i \<and> i < off + len \<longrightarrow> content a i = None) \<and>
        (off + len = min (a_granted a) (length (a_data a)) \<or> content a (off + len) \<noteq> None)"
proof (cases "missing_range a")
  case None
  then show ?thesis
    using missing_range_None [OF assms] assms
    by (auto simp: content_def wf_assembly_def wf_store_def)
next
  case (Some r)
  obtain off len where r: "r = (off, len)" by (cases r)
  with Some missing_range_Some [OF assms, of off len] show ?thesis by auto
qed

theorem missing_range_correct_witness:
  "missing_range (the (add_segment (new_assembly 20 16) 2 [9, 9] 16)) = Some (0, 2) \<and>
   content (the (add_segment (new_assembly 20 16) 2 [9, 9] 16)) 0 = None \<and>
   content (the (add_segment (new_assembly 20 16) 2 [9, 9] 16)) 2 \<noteq> None"
proof -
  let ?a = "the (add_segment (new_assembly 20 16) 2 [9, 9] 16)"
  have some: "add_segment (new_assembly 20 16) 2 [9, 9] 16 = Some ?a" by code_simp
  then have "wf_assembly ?a" by (intro add_segment_Some(1) [OF new_assembly_wf _ some]) simp
  moreover have "missing_range ?a = Some (0, 2)" by code_simp
  moreover have "length (a_data ?a) = 20" "a_granted ?a = 16" by code_simp+
  ultimately show ?thesis using missing_range_correct [of ?a] by simp
qed

end
