(* ===== verification/Outbound.thy ===== *)
theory Outbound
  imports Prelude "HOL-Library.Multiset"
begin

text \<open>
  The transmit queues of an endpoint: eight buffered channels of 32 slots each, one per priority.
  \<open>enqueue\<close> is the non-blocking send of \<^verbatim>\<open>Endpoint.send\<close>, \<open>dequeue\<close> is \<^verbatim>\<open>Endpoint.dequeue\<close>. The locale
  \<open>priority_channels\<close> states what both sides rely on; draining order is proved from it.
\<close>

section \<open>The eight channels\<close>

definition numPriorities :: nat where "numPriorities = 8"
definition queueSlots :: nat where "queueSlots = 32"

type_synonym 'p channels = "'p list list"

definition make_channels :: "'p channels" where
  "make_channels = replicate numPriorities []"

text \<open>The \<^verbatim>\<open>select\<close> with a default: the packet is queued when its channel has a free slot.\<close>

definition enqueue :: "'p channels \<Rightarrow> nat \<Rightarrow> 'p \<Rightarrow> 'p channels option" where
  "enqueue qs priority p =
     (if length (qs ! priority) < queueSlots then Some (qs[priority := qs ! priority @ [p]])
      else None)"

text \<open>The loop from the highest priority down; the argument is one more than the next priority.\<close>

fun dequeue_below :: "'p channels \<Rightarrow> nat \<Rightarrow> ('p \<times> 'p channels) option" where
  "dequeue_below qs 0 = None"
| "dequeue_below qs (Suc priority) =
     (case qs ! priority of
        [] \<Rightarrow> dequeue_below qs priority
      | p # rest \<Rightarrow> Some (p, qs[priority := rest]))"

definition dequeue :: "'p channels \<Rightarrow> ('p \<times> 'p channels) option" where
  "dequeue qs = dequeue_below qs (length qs)"

definition wf_channels :: "'p channels \<Rightarrow> bool" where
  "wf_channels qs \<longleftrightarrow> length qs = numPriorities \<and> (\<forall>q \<in> set qs. length q \<le> queueSlots)"

section \<open>The contract\<close>

text \<open>\<open>level q i\<close> is the content of priority \<open>i\<close>, oldest first.\<close>

locale priority_channels =
  fixes empty :: 'q and enq :: "'q \<Rightarrow> nat \<Rightarrow> 'p \<Rightarrow> 'q option" and deq :: "'q \<Rightarrow> ('p \<times> 'q) option"
    and level :: "'q \<Rightarrow> nat \<Rightarrow> 'p list" and invar :: "'q \<Rightarrow> bool" and levels :: nat and slots :: nat
  assumes invar_empty: "invar empty"
    and level_empty: "i < levels \<Longrightarrow> level empty i = []"
    and level_bound: "invar q \<Longrightarrow> i < levels \<Longrightarrow> length (level q i) \<le> slots"
    and enq_full: "invar q \<Longrightarrow> i < levels \<Longrightarrow> enq q i p = None \<longleftrightarrow> length (level q i) = slots"
    and enq_level: "invar q \<Longrightarrow> i < levels \<Longrightarrow> enq q i p = Some q' \<Longrightarrow> j < levels \<Longrightarrow>
      level q' j = (if j = i then level q i @ [p] else level q j)"
    and enq_invar: "invar q \<Longrightarrow> i < levels \<Longrightarrow> enq q i p = Some q' \<Longrightarrow> invar q'"
    and deq_None: "invar q \<Longrightarrow> deq q = None \<longleftrightarrow> (\<forall>i < levels. level q i = [])"
    and deq_Some: "invar q \<Longrightarrow> deq q = Some (p, q') \<Longrightarrow>
      \<exists>i < levels. level q i \<noteq> [] \<and> (\<forall>j < levels. i < j \<longrightarrow> level q j = []) \<and> p = hd (level q i) \<and>
        (\<forall>j < levels. level q' j = (if j = i then tl (level q i) else level q j))"
    and deq_invar: "invar q \<Longrightarrow> deq q = Some (p, q') \<Longrightarrow> invar q'"
begin

text \<open>All queued packets in the order in which they will leave.\<close>

definition schedule_order :: "'q \<Rightarrow> 'p list" where
  "schedule_order q = concat (map (level q) (rev [0..<levels]))"

definition queued :: "'q \<Rightarrow> nat" where
  "queued q = length (schedule_order q)"

lemma concat_first_nonempty:
  assumes "i < n" and "\<And>j. i < j \<Longrightarrow> j < n \<Longrightarrow> f j = []"
  shows "concat (map f (rev [0..<n])) = concat (map f (rev [0..<Suc i]))"
  using assms
proof (induction n)
  case 0
  then show ?case by simp
next
  case (Suc n)
  show ?case
  proof (cases "i = n")
    case True
    then show ?thesis by simp
  next
    case False
    with Suc have "i < n" and "f n = []" by simp_all
    with Suc show ?thesis by simp
  qed
qed

lemma deq_is_head:
  assumes "invar q" and "deq q = Some (p, q')"
  shows "schedule_order q = p # schedule_order q'"
proof -
  from deq_Some [OF assms] obtain i where i: "i < levels" "level q i \<noteq> []"
    "\<forall>j < levels. i < j \<longrightarrow> level q j = []" "p = hd (level q i)"
    "\<forall>j < levels. level q' j = (if j = i then tl (level q i) else level q j)" by blast
  have "schedule_order q = concat (map (level q) (rev [0..<Suc i]))"
    unfolding schedule_order_def using i by (intro concat_first_nonempty) auto
  also have "\<dots> = p # tl (level q i) @ concat (map (level q) (rev [0..<i]))"
    using i by simp
  also have "map (level q) (rev [0..<i]) = map (level q') (rev [0..<i])"
    using i by auto
  also have "tl (level q i) = level q' i" using i by simp
  also have "p # level q' i @ concat (map (level q') (rev [0..<i])) =
      p # concat (map (level q') (rev [0..<Suc i]))" by simp
  also have "concat (map (level q') (rev [0..<Suc i])) = schedule_order q'"
    unfolding schedule_order_def using i by (intro concat_first_nonempty [symmetric]) auto
  finally show ?thesis .
qed

lemma deq_None_order: "invar q \<Longrightarrow> deq q = None \<longleftrightarrow> schedule_order q = []"
  by (auto simp: deq_None schedule_order_def)

text \<open>A writer that only drains takes the packets in schedule order.\<close>

fun drain :: "nat \<Rightarrow> 'q \<Rightarrow> 'p list \<times> 'q" where
  "drain 0 q = ([], q)"
| "drain (Suc n) q =
     (case deq q of None \<Rightarrow> ([], q) | Some (p, q') \<Rightarrow> let (ps, r) = drain n q' in (p # ps, r))"

lemma drain_order: "invar q \<Longrightarrow> fst (drain n q) = take n (schedule_order q)"
proof (induction n arbitrary: q)
  case 0
  then show ?case by simp
next
  case (Suc n)
  show ?case
  proof (cases "deq q")
    case None
    then have "schedule_order q = []" using Suc.prems by (simp add: deq_None_order [symmetric])
    with None show ?thesis by simp
  next
    case (Some r)
    obtain p q' where "r = (p, q')" by (cases r)
    with Suc Some show ?thesis
      by (simp add: split_beta deq_is_head deq_invar)
  qed
qed

lemma order_bound: "invar q \<Longrightarrow> queued q \<le> levels * slots"
proof -
  assume inv: "invar q"
  have "length (concat (map (level q) (rev [0..<n]))) \<le> n * slots" if "n \<le> levels" for n
    using that level_bound [OF inv] by (induction n) (simp_all add: add_mono)
  then show ?thesis by (simp add: queued_def schedule_order_def)
qed

end

section \<open>The channels keep the contract\<close>

lemma dequeue_below_None: "dequeue_below qs n = None \<longleftrightarrow> (\<forall>i < n. qs ! i = [])"
  by (induction n) (auto simp: less_Suc_eq split: list.splits)

lemma dequeue_below_Some:
  assumes "dequeue_below qs n = Some (p, qs')"
  shows "\<exists>i < n. qs ! i \<noteq> [] \<and> (\<forall>j < n. i < j \<longrightarrow> qs ! j = []) \<and> p = hd (qs ! i) \<and>
    qs' = qs[i := tl (qs ! i)]"
  using assms
proof (induction n)
  case 0
  then show ?case by simp
next
  case (Suc n)
  show ?case
  proof (cases "qs ! n")
    case Nil
    with Suc obtain i where "i < n" "qs ! i \<noteq> []" "\<forall>j < n. i < j \<longrightarrow> qs ! j = []" "p = hd (qs ! i)"
      "qs' = qs[i := tl (qs ! i)]" by auto
    with Nil show ?thesis by (intro exI [of _ i]) (auto simp: less_Suc_eq)
  next
    case (Cons x xs)
    with Suc.prems show ?thesis by (intro exI [of _ n]) auto
  qed
qed

interpretation chan: priority_channels make_channels enqueue dequeue "\<lambda>qs i. qs ! i" wf_channels
  numPriorities queueSlots
proof unfold_locales
  fix qs :: "'p channels" and i p
  assume "wf_channels qs" and "i < numPriorities"
  then have "length (qs ! i) \<le> queueSlots" by (simp add: wf_channels_def)
  then show "enqueue qs i p = None \<longleftrightarrow> length (qs ! i) = queueSlots"
    by (auto simp: enqueue_def)
next
  fix qs qs' :: "'p channels" and p
  assume wf: "wf_channels qs" and some: "dequeue qs = Some (p, qs')"
  from dequeue_below_Some [OF some [unfolded dequeue_def]] obtain i where i: "i < length qs"
    "qs ! i \<noteq> []" "\<forall>j < length qs. i < j \<longrightarrow> qs ! j = []" "p = hd (qs ! i)" "qs' = qs[i := tl (qs ! i)]"
    by blast
  then show "\<exists>i < numPriorities. qs ! i \<noteq> [] \<and> (\<forall>j < numPriorities. i < j \<longrightarrow> qs ! j = []) \<and>
      p = hd (qs ! i) \<and> (\<forall>j < numPriorities. qs' ! j = (if j = i then tl (qs ! i) else qs ! j))"
    using wf by (intro exI [of _ i]) (auto simp: wf_channels_def)
  have "length (qs ! i) \<le> queueSlots" using i(1) wf by (simp add: wf_channels_def)
  then have "length (tl (qs ! i)) \<le> queueSlots" unfolding length_tl by linarith
  then show "wf_channels qs'"
    using wf unfolding i(5) wf_channels_def
    by (auto simp del: length_tl dest!: subsetD [OF set_update_subset_insert])
next
  fix qs qs' :: "'p channels" and i p
  assume "wf_channels qs" and "i < numPriorities" and some: "enqueue qs i p = Some qs'"
  then show "wf_channels qs'"
    by (auto simp: wf_channels_def enqueue_def split: if_splits
        dest!: subsetD [OF set_update_subset_insert])
qed (auto simp: wf_channels_def make_channels_def numPriorities_def dequeue_def dequeue_below_None
    enqueue_def split: if_splits)

section \<open>Properties of the transmit queues\<close>

text \<open>The packets taken by \<open>n\<close> rounds of the writer with nothing queued in between.\<close>

primrec drain_channels :: "nat \<Rightarrow> 'p channels \<Rightarrow> 'p list \<times> 'p channels" where
  "drain_channels 0 qs = ([], qs)"
| "drain_channels (Suc n) qs =
     (case dequeue qs of
        None \<Rightarrow> ([], qs)
      | Some (p, qs') \<Rightarrow> let (ps, r) = drain_channels n qs' in (p # ps, r))"

lemma drain_channels_chan: "drain_channels n qs = chan.drain n qs"
  by (induction n arbitrary: qs) (simp_all add: chan.drain.simps split: option.splits)

lemma schedule_order_chan:
  "wf_channels qs \<Longrightarrow> chan.schedule_order qs = concat (rev qs)"
proof -
  assume "wf_channels qs"
  then have "numPriorities = length qs" by (simp add: wf_channels_def)
  then have "map ((!) qs) (rev [0..<numPriorities]) = rev qs"
    by (metis map_nth rev_map)
  then show ?thesis by (simp add: chan.schedule_order_def)
qed

text \<open>C16. A writer that drains the queues sends the packets by descending priority, first in first
  out within one priority, without losing or duplicating any; it finds nothing exactly when every
  queue is empty.\<close>

theorem drain_order_correct:
  assumes "wf_channels qs"
  shows "fst (drain_channels n qs) = take n (concat (rev qs)) \<and>
    (dequeue qs = None \<longleftrightarrow> concat qs = [])"
proof -
  have "dequeue qs = None \<longleftrightarrow> concat (rev qs) = []"
    using chan.deq_None_order [OF assms] schedule_order_chan [OF assms] by simp
  with chan.drain_order [OF assms, of n] schedule_order_chan [OF assms] show ?thesis
    by (simp add: drain_channels_chan)
qed

theorem drain_order_correct_witness:
  "fst (drain_channels 4 [[''a''], [], [], [], [''b''], [], [], [''c'', ''d'']]) =
     [''c'', ''d'', ''b'', ''a'']"
  using drain_order_correct [of "[[''a''], [], [], [], [''b''], [], [], [''c'', ''d'']]" 4]
  by (simp add: wf_channels_def numPriorities_def queueSlots_def)

text \<open>Queueing a packet fails exactly when its own priority holds 32 packets already, so a
  backlog at one priority never shuts out another; on success the packet is last in its own queue
  and every other queue is untouched, and at most 256 packets are ever queued.\<close>

lemma enqueue_isolated:
  assumes "wf_channels qs" and "i < numPriorities"
  shows "(enqueue qs i p = None \<longleftrightarrow> length (qs ! i) = queueSlots) \<and>
    (\<forall>qs'. enqueue qs i p = Some qs' \<longrightarrow> wf_channels qs' \<and> length (concat qs') \<le> 256 \<and>
      (\<forall>j < numPriorities. qs' ! j = (if j = i then qs ! i @ [p] else qs ! j)))"
proof (intro conjI allI impI)
  show "enqueue qs i p = None \<longleftrightarrow> length (qs ! i) = queueSlots"
    using assms by (rule chan.enq_full)
next
  fix qs' assume some: "enqueue qs i p = Some qs'"
  show wf: "wf_channels qs'" using assms some by (rule chan.enq_invar)
  have "length (concat qs') = length (concat (rev qs'))"
    by (simp add: length_concat sum_list_rev rev_map [symmetric])
  also have "\<dots> \<le> 256"
    using chan.order_bound [OF wf] schedule_order_chan [OF wf]
    unfolding chan.queued_def by (simp add: numPriorities_def queueSlots_def)
  finally show "length (concat qs') \<le> 256" .
next
  fix qs' j assume "enqueue qs i p = Some qs'" and "j < numPriorities"
  with assms show "qs' ! j = (if j = i then qs ! i @ [p] else qs ! j)"
    by (rule chan.enq_level)
qed

end
