(* ===== verification/Endpoint.thy ===== *)
theory Endpoint
  imports Config Assembly Outbound "HOL-Library.AList" "HOL-Library.Product_Lexorder"
begin

unbundle bit_operations_syntax

text \<open>
  The protocol engine, \<^verbatim>\<open>endpoint.go\<close>: the state kept under the endpoint's mutex and one definition
  per method.

  Pointers to \<^verbatim>\<open>rpc\<close> are indices into \<open>heap\<close>, which only grows, so that the code's comparisons of
  pointers (\<^verbatim>\<open>e.rpcs[r.key] != r\<close>) are comparisons of indices. The map \<^verbatim>\<open>rpcs\<close> is an association
  list with distinct keys. A goroutine that runs an application handler is an entry of \<open>handlers\<close>:
  the pointer and the payload its closure holds. Two runtime services are explicit: \<open>clock n\<close> is the
  result of the \<open>n\<close>-th call of \<^verbatim>\<open>time.Now\<close>, and \<open>order n\<close> the order in which the \<open>n\<close>-th \<^verbatim>\<open>range\<close>
  over the map \<^verbatim>\<open>rpcs\<close> visits its keys, which Go leaves open. Times are nanoseconds since the zero
  \<^verbatim>\<open>time.Time\<close>.
\<close>

section \<open>State\<close>

record rpcKey =
  key_peer :: addr
  key_id :: u64

record rpc_result =
  res_data :: bytes
  res_err :: "call_error option"

text \<open>\<open>r_result\<close> is the channel \<^verbatim>\<open>result\<close>: \<open>None\<close> is the nil channel of a server RPC, otherwise the
  buffered values. \<open>r_cancel\<close> is \<^verbatim>\<open>cancel\<close>: \<open>None\<close> is nil, otherwise whether it has been called.\<close>

record rpc =
  r_key :: rpcKey
  r_tx :: bytes
  r_sent :: nat
  r_granted :: nat
  r_priority :: u8
  r_rx :: "assembly option"
  r_received :: bool
  r_handling :: bool
  r_deadline :: int
  r_last :: int
  r_lastCutoff :: int
  r_result :: "rpc_result list option"
  r_cancel :: "bool option"

definition zero_rpc :: "rpcKey \<Rightarrow> rpc" where
  "zero_rpc k = \<lparr>r_key = k, r_tx = [], r_sent = 0, r_granted = 0, r_priority = 0, r_rx = None,
     r_received = False, r_handling = False, r_deadline = 0, r_last = 0, r_lastCutoff = 0,
     r_result = None, r_cancel = None\<rparr>"

definition defaultCutoffs :: "u32 list" where
  "defaultCutoffs = [1000000, 0, 0, 0, 1000000, 15000, 2800, 200]"

record cutoff =
  co_values :: "u32 list"
  co_version :: u16

record outgoingPacket =
  o_data :: bytes
  o_peer :: netip
  o_priority :: u8
  o_origin :: "nat option"
  o_typ :: wtype

text \<open>Where the goroutine \<^verbatim>\<open>writeLoop\<close> stands: about to lock, waiting for a wake-up, inside
  \<^verbatim>\<open>WritePacket\<close>, returned.\<close>

datatype writer = WTop | WSleep | WWriting outgoingPacket | WExit

record endpoint =
  local :: addr
  cfg :: config
  has_handler :: bool
  heap :: "rpc list"
  rpcs :: "(rpcKey \<times> nat) list"
  cutoff_table :: "(netip \<times> cutoff) list"
  nextID :: u64
  st :: stats
  closed :: bool
  io_closed :: bool
  workers :: nat
  handlers :: "(nat \<times> bytes) list"
  outbound :: "outgoingPacket channels"
  wake :: bool
  writer_at :: writer
  clock :: "nat \<Rightarrow> int"
  ticks :: nat
  order :: "nat \<Rightarrow> rpcKey list \<Rightarrow> rpcKey list"
  ranges :: nat

abbreviation seg :: "endpoint \<Rightarrow> nat" where
  "seg e \<equiv> nat (SegmentBytes (cfg e))"

text \<open>\<^verbatim>\<open>e.rpcs[r.key] == r\<close>.\<close>

definition live :: "endpoint \<Rightarrow> nat \<Rightarrow> bool" where
  "live e p \<longleftrightarrow> map_of (rpcs e) (r_key (heap e ! p)) = Some p"

abbreviation is_client :: "rpcKey \<Rightarrow> bool" where
  "is_client k \<equiv> key_id k AND 1 = 0"

abbreviation is_server :: "rpcKey \<Rightarrow> bool" where
  "is_server k \<equiv> key_id k AND 1 = 1"

definition upd_rpc :: "nat \<Rightarrow> (rpc \<Rightarrow> rpc) \<Rightarrow> endpoint \<Rightarrow> endpoint" where
  "upd_rpc p f e = e\<lparr>heap := (heap e)[p := f (heap e ! p)]\<rparr>"

definition upd_st :: "(stats \<Rightarrow> stats) \<Rightarrow> endpoint \<Rightarrow> endpoint" where
  "upd_st f e = e\<lparr>st := f (st e)\<rparr>"

definition add_buffered :: "int \<Rightarrow> endpoint \<Rightarrow> endpoint" where
  "add_buffered n = upd_st (\<lambda>s. s\<lparr>BufferedBytes := BufferedBytes s + n\<rparr>)"

definition count_invalid :: "endpoint \<Rightarrow> endpoint" where
  "count_invalid = upd_st (\<lambda>s. s\<lparr>InvalidPackets := InvalidPackets s + 1\<rparr>)"

definition count_dropped :: "endpoint \<Rightarrow> endpoint" where
  "count_dropped = upd_st (\<lambda>s. s\<lparr>DroppedPackets := DroppedPackets s + 1\<rparr>)"

section \<open>The Go runtime\<close>

definition time_now :: "endpoint \<Rightarrow> int \<times> endpoint" where
  "time_now e = (clock e (ticks e), e\<lparr>ticks := ticks e + 1\<rparr>)"

text \<open>\<^verbatim>\<open>Time.Sub\<close> saturates at the range of a 64-bit duration.\<close>

definition time_sub :: "int \<Rightarrow> int \<Rightarrow> int" where
  "time_sub t u = max (- (2 ^ 63)) (min (2 ^ 63 - 1) (t - u))"

definition range_keys :: "endpoint \<Rightarrow> rpcKey list \<times> endpoint" where
  "range_keys e = (order e (ranges e) (map fst (rpcs e)), e\<lparr>ranges := ranges e + 1\<rparr>)"

text \<open>\<^verbatim>\<open>for _, r := range e.rpcs { body }\<close>, where the body may delete entries: a key that is gone when
  its turn comes is not visited.\<close>

definition visit :: "(nat \<Rightarrow> endpoint \<Rightarrow> endpoint) \<Rightarrow> rpcKey \<Rightarrow> endpoint \<Rightarrow> endpoint" where
  "visit body k e = (case map_of (rpcs e) k of None \<Rightarrow> e | Some p \<Rightarrow> body p e)"

definition for_rpcs :: "(nat \<Rightarrow> endpoint \<Rightarrow> endpoint) \<Rightarrow> endpoint \<Rightarrow> endpoint" where
  "for_rpcs body e = (let (ks, e) = range_keys e in fold (visit body) ks e)"

section \<open>Sending\<close>

definition reserve :: "int \<Rightarrow> endpoint \<Rightarrow> endpoint option" where
  "reserve n e =
     (if n < 0 \<or> n > MaxBufferedBytes (cfg e) - BufferedBytes (st e) then None
      else Some (add_buffered n e))"

definition common_hdr :: "endpoint \<Rightarrow> rpcKey \<Rightarrow> wtype \<Rightarrow> common" where
  "common_hdr e k t = NewCommon t (Port (local e)) (Port (key_peer k)) (key_id k)"

definition send :: "addr \<Rightarrow> packet \<Rightarrow> u8 \<Rightarrow> endpoint \<Rightarrow> error option \<times> endpoint" where
  "send peer p priority e =
     (if unat priority \<ge> length (outbound e) then (Some ErrProtocol, e)
      else case Marshal (Val p) of
        Inl err \<Rightarrow> (Some (WireErr err), e)
      | Inr b \<Rightarrow>
         let h = Header p;
             origin = map_of (rpcs e) \<lparr>key_peer = peer, key_id = SenderID h\<rparr>;
             out = \<lparr>o_data = b, o_peer = IP peer, o_priority = priority, o_origin = origin,
                    o_typ = PacketType h\<rparr>
         in (case enqueue (outbound e) (unat priority) out of
               Some qs \<Rightarrow> (None, e\<lparr>outbound := qs, wake := True\<rparr>)
             | None \<Rightarrow> (None, count_dropped e)))"

definition send_ignore :: "addr \<Rightarrow> packet \<Rightarrow> u8 \<Rightarrow> endpoint \<Rightarrow> endpoint" where
  "send_ignore peer p priority e = snd (send peer p priority e)"

definition control :: "rpcKey \<Rightarrow> wtype \<Rightarrow> endpoint \<Rightarrow> endpoint" where
  "control k t e = send_ignore (key_peer k) (CommonPacket (common_hdr e k t)) 7 e"

text \<open>The loop over the cutoffs from priority 7 down; the argument is one more than the next.\<close>

fun cutoff_scan :: "u32 list \<Rightarrow> u32 \<Rightarrow> nat \<Rightarrow> u8" where
  "cutoff_scan values n 0 = 0"
| "cutoff_scan values n (Suc i) = (if n \<le> values ! i then of_nat i else cutoff_scan values n i)"

definition unsched :: "endpoint \<Rightarrow> netip \<Rightarrow> nat \<Rightarrow> u8" where
  "unsched e ip n =
     cutoff_scan
       (case map_of (cutoff_table e) ip of None \<Rightarrow> defaultCutoffs | Some c \<Rightarrow> co_values c)
       (of_nat n) 8"

definition no_ack :: ack_record where
  "no_ack = \<lparr>ClientID = 0, ServerPort = 0\<rparr>"

definition data_segment :: "endpoint \<Rightarrow> rpc \<Rightarrow> nat \<Rightarrow> bool \<Rightarrow> data" where
  "data_segment e r start retransmit =
     (let end = min (start + seg e) (length (r_tx r));
          incoming = min (length (r_tx r)) (((r_granted r + seg e - 1) div seg e) * seg e)
      in \<lparr>d_common = common_hdr e (r_key r) DataType,
          MessageLength = of_nat (length (r_tx r)), Incoming = of_nat incoming, d_ack = no_ack,
          d_cutoff_version =
            (case map_of (cutoff_table e) (IP (key_peer (r_key r))) of None \<Rightarrow> 0 | Some c \<Rightarrow> co_version c),
          Retransmit = (if retransmit then 1 else 0), Padding = [0, 0, 0],
          SegmentOffset = of_nat start, Payload = subslice start end (r_tx r)\<rparr>)"

definition sendSegment :: "nat \<Rightarrow> nat \<Rightarrow> bool \<Rightarrow> u8 \<Rightarrow> endpoint \<Rightarrow> error option \<times> endpoint" where
  "sendSegment p start retransmit priority e =
     (let r = heap e ! p;
          d = data_segment e r start retransmit;
          e = (if retransmit
               then upd_st (\<lambda>s. s\<lparr>Retransmissions := Retransmissions s + 1\<rparr>) e else e)
      in send (key_peer (r_key r)) (Data d) priority e)"

text \<open>\<^verbatim>\<open>sendNew\<close>: each round sends at least one byte, so a round per byte of the message is enough.\<close>

fun sendNew_loop :: "nat \<Rightarrow> nat \<Rightarrow> endpoint \<Rightarrow> error option \<times> endpoint" where
  "sendNew_loop 0 p e = (None, e)"
| "sendNew_loop (Suc fuel) p e =
     (let r = heap e ! p in
      if r_sent r < min (r_granted r) (length (r_tx r)) then
        (let start = r_sent r;
             e = upd_rpc p (\<lambda>r. r\<lparr>r_sent := min (start + seg e) (length (r_tx r))\<rparr>) e
         in case sendSegment p start False (r_priority r) e of
              (Some err, e) \<Rightarrow> (Some err, e)
            | (None, e) \<Rightarrow> sendNew_loop fuel p e)
      else (None, e))"

definition sendNew :: "nat \<Rightarrow> endpoint \<Rightarrow> error option \<times> endpoint" where
  "sendNew p e = sendNew_loop (length (r_tx (heap e ! p))) p e"

text \<open>\<^verbatim>\<open>resend\<close>: the offset grows by a segment a round, so \<open>end\<close> rounds are enough.\<close>

fun resend_loop :: "nat \<Rightarrow> nat \<Rightarrow> nat \<Rightarrow> nat \<Rightarrow> u8 \<Rightarrow> endpoint \<Rightarrow> endpoint" where
  "resend_loop 0 p at end priority e = e"
| "resend_loop (Suc fuel) p at end priority e =
     (if at < end then
        (let e = (if at < length (r_tx (heap e ! p)) then snd (sendSegment p at True priority e) else e)
         in resend_loop fuel p (at + seg e) end priority e)
      else e)"

definition resend_range :: "nat \<Rightarrow> nat \<Rightarrow> nat \<Rightarrow> u8 \<Rightarrow> endpoint \<Rightarrow> endpoint" where
  "resend_range p start end priority e =
     (let end = min end (r_sent (heap e ! p))
      in resend_loop end p ((start div seg e) * seg e) end priority e)"

section \<open>Removing and finishing an RPC\<close>

definition rx_bytes :: "rpc \<Rightarrow> nat" where
  "rx_bytes r = (case r_rx r of None \<Rightarrow> 0 | Some a \<Rightarrow> length (a_data a) + length (a_bits a))"

definition remove :: "nat \<Rightarrow> endpoint \<Rightarrow> endpoint" where
  "remove p e =
     (let r = heap e ! p in
      if \<not> live e p then e
      else let e = e\<lparr>rpcs := AList.delete (r_key r) (rpcs e)\<rparr>;
               e = add_buffered (- int (length (r_tx r))) e;
               e = upd_rpc p (\<lambda>r. r\<lparr>r_tx := []\<rparr>) e;
               e = (case r_rx r of
                      None \<Rightarrow> e
                    | Some a \<Rightarrow>
                        upd_rpc p (\<lambda>r. r\<lparr>r_rx := None\<rparr>)
                          (add_buffered (- int (length (a_data a) + length (a_bits a))) e))
           in upd_rpc p (\<lambda>r. r\<lparr>r_cancel := map_option (\<lambda>_. True) (r_cancel r)\<rparr>) e)"

definition finish :: "nat \<Rightarrow> bytes \<Rightarrow> error option \<Rightarrow> endpoint \<Rightarrow> endpoint" where
  "finish p data err e =
     (let r = heap e ! p in
      if \<not> live e p then e
      else let sent = (r_sent r > 0 \<or> r_received r);
               e = remove p e;
               err = map_option (\<lambda>x. \<lparr>Err = x, Sent = sent\<rparr>) err
           in upd_rpc p (\<lambda>r. r\<lparr>r_result :=
                map_option (\<lambda>q. q @ [\<lparr>res_data = data, res_err = err\<rparr>]) (r_result r)\<rparr>) e)"

definition shutdown :: "error \<Rightarrow> endpoint \<Rightarrow> endpoint" where
  "shutdown err e =
     (if closed e then e
      else let e = e\<lparr>closed := True\<rparr>;
               e = for_rpcs (\<lambda>p. finish p [] (Some err)) e
           in e\<lparr>io_closed := True\<rparr>)"

section \<open>Asking for data: RESEND and GRANT\<close>

definition requestMissing :: "nat \<Rightarrow> endpoint \<Rightarrow> endpoint" where
  "requestMissing p e =
     (let r = heap e ! p;
          ask = (\<lambda>offset len. send_ignore (key_peer (r_key r))
                   (Resend \<lparr>rs_common = common_hdr e (r_key r) ResendType, rs_offset = of_nat offset,
                      rs_length = len, rs_priority = 7\<rparr>) 7 e)
      in case r_rx r of
           None \<Rightarrow> ask 0 ResendAll
         | Some a \<Rightarrow>
            (case missing_range a of None \<Rightarrow> e | Some (offset, len) \<Rightarrow> ask offset (of_nat len)))"

definition wants_grant :: "rpc \<Rightarrow> bool" where
  "wants_grant r =
     (case r_rx r of
        None \<Rightarrow> False
      | Some a \<Rightarrow> a_count a < length (a_data a) \<and> a_granted a < length (a_data a))"

definition remaining :: "rpc \<Rightarrow> nat" where
  "remaining r = (case r_rx r of None \<Rightarrow> 0 | Some a \<Rightarrow> length (a_data a) - a_count a)"

text \<open>The key by which \<^verbatim>\<open>sort.Slice\<close> compares: bytes left, then RPC id. The sort is not stable, but the
  order in which equal candidates enter it is open already.\<close>

definition grant_key :: "endpoint \<Rightarrow> nat \<Rightarrow> nat \<times> u64" where
  "grant_key e p = (remaining (heap e ! p), key_id (r_key (heap e ! p)))"

fun grant_loop :: "nat \<Rightarrow> nat list \<Rightarrow> endpoint \<Rightarrow> endpoint" where
  "grant_loop rank [] e = e"
| "grant_loop rank (p # ps) e =
     (if int rank \<ge> Overcommit (cfg e) then e
      else case r_rx (heap e ! p) of
        None \<Rightarrow> grant_loop (Suc rank) ps e
      | Some a \<Rightarrow>
         let end = min (length (a_data a)) (a_count a + nat (GrantWindow (cfg e))) in
         if end \<le> a_granted a then grant_loop (Suc rank) ps e
         else let e = upd_rpc p (\<lambda>r. r\<lparr>r_rx := Some (a\<lparr>a_granted := end\<rparr>)\<rparr>) e;
                  k = r_key (heap e ! p);
                  e = send_ignore (key_peer k)
                        (Grant \<lparr>g_common = common_hdr e k GrantType, g_offset = of_nat end,
                           g_priority = of_nat (3 - rank)\<rparr>) 7 e
              in grant_loop (Suc rank) ps e)"

definition schedule :: "endpoint \<Rightarrow> endpoint" where
  "schedule e =
     (let (ks, e) = range_keys e;
          candidates = filter (\<lambda>p. wants_grant (heap e ! p)) (List.map_filter (map_of (rpcs e)) ks)
      in grant_loop 0 (sort_key (grant_key e) candidates) e)"

section \<open>Handlers\<close>

definition startHandler :: "nat \<Rightarrow> endpoint \<Rightarrow> endpoint" where
  "startHandler p e =
     (let r = heap e ! p in
      case r_rx r of
        None \<Rightarrow> e
      | Some a \<Rightarrow>
         if r_handling r then e
         else let (now, e) = time_now e in
           if \<not> now < r_deadline r then finish p [] (Some DeadlineExceeded) e
           else if int (workers e) \<ge> HandlerWorkers (cfg e) then e
           else let e = e\<lparr>workers := workers e + 1\<rparr>;
                    e = add_buffered (- int (length (a_bits a))) e;
                    e = upd_rpc p (\<lambda>r. r\<lparr>r_handling := True, r_rx := None, r_cancel := Some False\<rparr>) e;
                    e = upd_st (\<lambda>s. s\<lparr>HandledRequests := HandledRequests s + 1\<rparr>) e
                in e\<lparr>handlers := handlers e @ [(p, a_data a)]\<rparr>)"

definition start_waiting :: "nat \<Rightarrow> endpoint \<Rightarrow> endpoint" where
  "start_waiting p e =
     (let r = heap e ! p in
      if is_server (r_key r) \<and> r_received r \<and> \<not> r_handling r then startHandler p e else e)"

text \<open>The end of the goroutine of \<^verbatim>\<open>startHandler\<close>, for the \<open>i\<close>-th running handler; a handler that
  panicked leaves the response empty.\<close>

definition handler_reply :: "nat \<Rightarrow> bytes \<Rightarrow> endpoint \<Rightarrow> endpoint" where
  "handler_reply p response e =
     (if closed e \<or> \<not> live e p then e
      else if response = [] \<or> int (length response) > MaxMessageSize (cfg e) then e
      else case reserve (int (length response)) e of
        None \<Rightarrow> e
      | Some e \<Rightarrow>
         let e = upd_rpc p (\<lambda>r. r\<lparr>r_tx := response,
                   r_granted := min (length response) (nat (UnscheduledBytes (cfg e))),
                   r_priority := unsched e (IP (key_peer (r_key r))) (length response)\<rparr>) e;
             (now, e) = time_now e;
             e = upd_rpc p (\<lambda>r. r\<lparr>r_last := now\<rparr>) e;
             e = (case sendNew p e of (None, e) \<Rightarrow> e | (Some err, e) \<Rightarrow> remove p e)
         in for_rpcs start_waiting e)"

definition handler_done :: "nat \<Rightarrow> bytes \<Rightarrow> endpoint \<Rightarrow> endpoint" where
  "handler_done i response e =
     (let (p, payload) = handlers e ! i;
          e = e\<lparr>handlers := take i (handlers e) @ drop (Suc i) (handlers e), workers := workers e - 1\<rparr>;
          e = add_buffered (- int (length payload)) e;
          e = handler_reply p response e
      in upd_rpc p (\<lambda>r. r\<lparr>r_cancel := map_option (\<lambda>_. True) (r_cancel r)\<rparr>) e)"

section \<open>Receiving\<close>

definition ack_rpc :: "netip \<Rightarrow> ack_record \<Rightarrow> endpoint \<Rightarrow> endpoint" where
  "ack_rpc ip a e =
     (if ClientID a = 0 \<or> ClientID a AND 1 \<noteq> 0 \<or> ServerPort a \<noteq> Port (local e) then e
      else let (ks, e) = range_keys e in
        case find (\<lambda>k. IP (key_peer k) = ip \<and> key_id k = ClientID a XOR 1) ks of
          None \<Rightarrow> e
        | Some k \<Rightarrow> visit remove k e)"

text \<open>The RPC a DATA packet belongs to; a new one for the first packet of a request.\<close>

definition data_rpc :: "rpcKey \<Rightarrow> endpoint \<Rightarrow> (nat option) \<times> endpoint" where
  "data_rpc key e =
     (case map_of (rpcs e) key of
        Some p \<Rightarrow> (Some p, e)
      | None \<Rightarrow>
         if is_client key \<or> \<not> has_handler e \<or> int (length (rpcs e)) \<ge> MaxRPCs (cfg e) then (None, e)
         else let (t1, e) = time_now e;
                  (t2, e) = time_now e;
                  r = (zero_rpc key)\<lparr>r_deadline := t1 + Timeout (cfg e), r_last := t2\<rparr>;
                  p = length (heap e)
              in (Some p, e\<lparr>heap := heap e @ [r], rpcs := AList.update key p (rpcs e)\<rparr>))"

definition data_cutoffs :: "nat \<Rightarrow> addr \<Rightarrow> data \<Rightarrow> endpoint \<Rightarrow> endpoint" where
  "data_cutoffs p peer d e =
     (if d_cutoff_version d = 1 then e
      else let (now, e) = time_now e in
        if time_sub now (r_lastCutoff (heap e ! p)) < RetryInterval (cfg e) then e
        else let (now, e) = time_now e;
                 e = upd_rpc p (\<lambda>r. r\<lparr>r_lastCutoff := now\<rparr>) e
             in send_ignore peer
                  (Cutoffs \<lparr>c_common = common_hdr e (r_key (heap e ! p)) CutoffsType,
                     UnscheduledCutoffs = defaultCutoffs, c_cutoff_version = 1\<rparr>) 7 e)"

text \<open>The receive buffer of the RPC, allocated at its first segment; \<open>False\<close> when there is no room.\<close>

definition data_buffer :: "nat \<Rightarrow> rpcKey \<Rightarrow> data \<Rightarrow> endpoint \<Rightarrow> bool \<times> endpoint" where
  "data_buffer p key d e =
     (case r_rx (heap e ! p) of
        Some a \<Rightarrow> (True, e)
      | None \<Rightarrow>
         let n = unat (MessageLength d); cost = n + (n + 7) div 8 in
         (case reserve (int cost) e of
           None \<Rightarrow> (False, if is_server key then remove p e else e)
         | Some e \<Rightarrow>
            let e = upd_rpc p (\<lambda>r. r\<lparr>r_rx := Some (new_assembly n (unat (Incoming d)))\<rparr>) e
            in (True,
                if is_client key
                then upd_rpc p (\<lambda>r. r\<lparr>r_tx := []\<rparr>)
                       (add_buffered (- int (length (r_tx (heap e ! p)))) e)
                else e)))"

text \<open>A message whose last byte has arrived.\<close>

definition data_complete :: "nat \<Rightarrow> addr \<Rightarrow> rpcKey \<Rightarrow> assembly \<Rightarrow> endpoint \<Rightarrow> endpoint" where
  "data_complete p peer key a e =
     (let e = upd_rpc p (\<lambda>r. r\<lparr>r_received := True\<rparr>) e in
      if is_client key then
        let e = send_ignore peer
                  (Ack \<lparr>a_common = common_hdr e (r_key (heap e ! p)) AckType, NumAcks = 0,
                     Acks = replicate 5 no_ack\<rparr>) 7 e;
            data = a_data a;
            e = upd_rpc p (\<lambda>r. r\<lparr>r_rx := Some (a\<lparr>a_data := []\<rparr>)\<rparr>) e;
            e = add_buffered (- int (length data)) e;
            e = upd_st (\<lambda>s. s\<lparr>CompletedCalls := CompletedCalls s + 1\<rparr>) e
        in finish p data None e
      else schedule (startHandler p e))"

definition data_store :: "nat \<Rightarrow> addr \<Rightarrow> rpcKey \<Rightarrow> data \<Rightarrow> endpoint \<Rightarrow> endpoint" where
  "data_store p peer key d e =
     (case r_rx (heap e ! p) of
        None \<Rightarrow> e
      | Some a \<Rightarrow>
         if length (a_data a) \<noteq> unat (MessageLength d) then count_invalid e
         else (case add_segment a (unat (EffectiveOffset d)) (Payload d) (unat (Incoming d)) of
           None \<Rightarrow> count_invalid e
         | Some a \<Rightarrow>
            let e = upd_rpc p (\<lambda>r. r\<lparr>r_rx := Some a\<rparr>) e in
            if complete a then data_complete p peer key a e else schedule e))"

definition data_handler :: "addr \<Rightarrow> rpcKey \<Rightarrow> data \<Rightarrow> endpoint \<Rightarrow> endpoint" where
  "data_handler peer key d e =
     (if ValidateBounds d (of_int (MaxMessageSize (cfg e))) \<noteq> None \<or> Payload d = [] \<or>
         Incoming d > MessageLength d
      then count_invalid e
      else let e = ack_rpc (IP peer) (d_ack d) e in
        case data_rpc key e of
          (None, e) \<Rightarrow> e
        | (Some p, e) \<Rightarrow>
           let e = data_cutoffs p peer d e in
           if r_received (heap e ! p) then e
           else (case data_buffer p key d e of
                   (False, e) \<Rightarrow> e
                 | (True, e) \<Rightarrow> data_store p peer key d e))"

text \<open>\<^verbatim>\<open>receive\<close>, one definition per kind of packet; \<open>r\<close> is the RPC the packet's key names, if any.\<close>

definition receive_grant :: "nat option \<Rightarrow> grant \<Rightarrow> endpoint \<Rightarrow> endpoint" where
  "receive_grant r v e =
     (case r of
        None \<Rightarrow> e
      | Some p \<Rightarrow>
         if unat (g_priority v) > 7 \<or> r_tx (heap e ! p) = [] then e
         else if unat (g_offset v) > r_granted (heap e ! p) then
           let e = upd_rpc p (\<lambda>r. r\<lparr>r_granted := min (unat (g_offset v)) (length (r_tx r)),
                     r_priority := g_priority v\<rparr>) e
           in (case sendNew p e of
                 (None, e) \<Rightarrow> e
               | (Some err, e) \<Rightarrow> finish p [] (Some err) e)
         else e)"

definition receive_resend :: "rpcKey \<Rightarrow> nat option \<Rightarrow> resend \<Rightarrow> endpoint \<Rightarrow> endpoint" where
  "receive_resend key r v e =
     (if unat (rs_priority v) > 7 then e
      else case r of
        None \<Rightarrow> control key RPCUnknownType e
      | Some p \<Rightarrow>
         let tx = r_tx (heap e ! p) in
         if tx = [] then control (r_key (heap e ! p)) BusyType e
         else if unat (rs_offset v) \<ge> length tx then control (r_key (heap e ! p)) BusyType e
         else let end = (if rs_length v \<noteq> ResendAll
                         then min (length tx) (unat (rs_offset v) + unat (rs_length v))
                         else r_sent (heap e ! p));
                  e = resend_range p (unat (rs_offset v)) end (rs_priority v) e;
                  e = (if end > r_granted (heap e ! p)
                       then snd (sendNew p (upd_rpc p (\<lambda>r. r\<lparr>r_granted := end,
                              r_priority := rs_priority v\<rparr>) e))
                       else e)
              in if unat (rs_offset v) \<ge> r_sent (heap e ! p)
                 then control (r_key (heap e ! p)) BusyType e else e)"

definition receive_unknown :: "netip \<Rightarrow> nat option \<Rightarrow> endpoint \<Rightarrow> endpoint" where
  "receive_unknown ip r e =
     (case r of
        None \<Rightarrow> e
      | Some p \<Rightarrow>
         let x = heap e ! p in
         if is_server (r_key x) then remove p e
         else if r_rx x = None \<and> \<not> r_received x
         then resend_range p 0 (r_sent x) (unsched e ip (length (r_tx x))) e
         else e)"

definition receive_need_ack :: "addr \<Rightarrow> rpcKey \<Rightarrow> nat option \<Rightarrow> endpoint \<Rightarrow> endpoint" where
  "receive_need_ack peer key r e =
     (if \<not> is_client key then e
      else let reply = (\<lambda>e. send_ignore peer (Ack \<lparr>a_common = common_hdr e key AckType, NumAcks = 0,
                 Acks = replicate 5 no_ack\<rparr>) 7 e) in
        (case r of
           None \<Rightarrow> reply e
         | Some p \<Rightarrow> if r_received (heap e ! p) then reply e else requestMissing p e))"

definition receive_ack :: "netip \<Rightarrow> rpcKey \<Rightarrow> nat option \<Rightarrow> ack \<Rightarrow> endpoint \<Rightarrow> endpoint" where
  "receive_ack ip key r v e =
     (if \<not> is_server key then e
      else let e = (case r of None \<Rightarrow> e | Some p \<Rightarrow> remove p e)
           in fold (ack_rpc ip) (take (unat (NumAcks v)) (Acks v)) e)"

definition receive_cutoffs :: "netip \<Rightarrow> cutoffs \<Rightarrow> endpoint \<Rightarrow> endpoint" where
  "receive_cutoffs ip v e =
     (if map_of (cutoff_table e) ip \<noteq> None \<or> int (length (cutoff_table e)) < MaxRPCs (cfg e)
      then e\<lparr>cutoff_table := AList.update ip
               \<lparr>co_values = UnscheduledCutoffs v, co_version = c_cutoff_version v\<rparr> (cutoff_table e)\<rparr>
      else e)"

definition touch :: "common \<Rightarrow> nat option \<Rightarrow> endpoint \<Rightarrow> endpoint" where
  "touch h r e =
     (case r of
        None \<Rightarrow> e
      | Some p \<Rightarrow>
         if PacketType h = DataType \<or> PacketType h = GrantType \<or> PacketType h = BusyType
         then let (now, e) = time_now e in upd_rpc p (\<lambda>r. r\<lparr>r_last := now\<rparr>) e
         else e)"

definition receive :: "netip \<Rightarrow> packet \<Rightarrow> endpoint \<Rightarrow> endpoint" where
  "receive ip p e =
     (let h = Header p in
      if \<not> Is4 ip \<or> IsUnspecified ip \<or> IsMulticast ip \<or> DestinationPort h \<noteq> Port (local e) \<or>
         SourcePort h = 0 \<or> SenderID h = 0
      then e
      else let peer = \<lparr>IP = ip, Port = SourcePort h\<rparr>;
               key = \<lparr>key_peer = peer, key_id = LocalID h\<rparr>;
               r = map_of (rpcs e) key;
               e = touch h r e
           in (case p of
                 Data v \<Rightarrow> data_handler peer key v e
               | Grant v \<Rightarrow> receive_grant r v e
               | Resend v \<Rightarrow> receive_resend key r v e
               | RPCUnknown _ \<Rightarrow> receive_unknown ip r e
               | Busy _ \<Rightarrow> e
               | NeedAck _ \<Rightarrow> receive_need_ack peer key r e
               | Ack v \<Rightarrow> receive_ack ip key r v e
               | Cutoffs v \<Rightarrow> receive_cutoffs ip v e
               | Freeze _ \<Rightarrow> e
               | CommonPacket _ \<Rightarrow> e))"

section \<open>The goroutines\<close>

text \<open>One round of \<^verbatim>\<open>readLoop\<close>, for a datagram and for an error of \<^verbatim>\<open>ReadPacket\<close>.\<close>

definition read_packet :: "netip \<Rightarrow> bytes \<Rightarrow> endpoint \<Rightarrow> endpoint" where
  "read_packet ip b e =
     (if closed e then e
      else case Parse b of
        Inl _ \<Rightarrow> count_invalid e
      | Inr p \<Rightarrow> receive ip p (upd_st (\<lambda>s. s\<lparr>ReceivedPackets := ReceivedPackets s + 1\<rparr>) e))"

definition read_error :: "error \<Rightarrow> endpoint \<Rightarrow> endpoint" where
  "read_error err e = shutdown err e"

text \<open>One tick of \<^verbatim>\<open>timerLoop\<close>.\<close>

definition timer_rpc :: "int \<Rightarrow> nat \<Rightarrow> endpoint \<Rightarrow> endpoint" where
  "timer_rpc now p e =
     (if \<not> now < r_deadline (heap e ! p) then finish p [] (Some DeadlineExceeded) e
      else let e = start_waiting p e in
        if time_sub now (r_last (heap e ! p)) < RetryInterval (cfg e) then e
        else let e = upd_rpc p (\<lambda>r. r\<lparr>r_last := now\<rparr>) e; r = heap e ! p in
          if is_server (r_key r) \<and> r_tx r \<noteq> [] \<and> r_sent r = length (r_tx r)
          then control (r_key r) NeedAckType e
          else if r_rx r \<noteq> None then requestMissing p e
          else if is_client (r_key r) \<and> \<not> r_received r then requestMissing p e
          else e)"

definition timer_tick :: "int \<Rightarrow> endpoint \<Rightarrow> endpoint" where
  "timer_tick now e = (if closed e then e else schedule (for_rpcs (timer_rpc now) e))"

text \<open>\<^verbatim>\<open>writeLoop\<close>: the locked section that picks a packet, the return of \<^verbatim>\<open>WritePacket\<close>, the
  wake-up.\<close>

definition stale :: "outgoingPacket \<Rightarrow> endpoint \<Rightarrow> bool \<times> endpoint" where
  "stale out e =
     (if o_typ out \<noteq> DataType then (False, e)
      else case o_origin out of
        None \<Rightarrow> (True, e)
      | Some p \<Rightarrow>
         if \<not> live e p then (True, e)
         else let (now, e) = time_now e in (\<not> now < r_deadline (heap e ! p), e))"

definition writer_pick :: "endpoint \<Rightarrow> endpoint" where
  "writer_pick e =
     (if closed e then e\<lparr>writer_at := WExit\<rparr>
      else case dequeue (outbound e) of
        None \<Rightarrow> e\<lparr>writer_at := WSleep\<rparr>
      | Some (out, qs) \<Rightarrow>
         let (drop, e) = stale out (e\<lparr>outbound := qs\<rparr>)
         in if drop then count_dropped e else e\<lparr>writer_at := WWriting out\<rparr>)"

definition writer_wrote :: "error option \<Rightarrow> endpoint \<Rightarrow> endpoint" where
  "writer_wrote err e =
     (case writer_at e of
        WWriting out \<Rightarrow>
         let e = (case err of
                    None \<Rightarrow> upd_st (\<lambda>s. s\<lparr>SentPackets := SentPackets s + 1\<rparr>) e
                  | Some x \<Rightarrow>
                     let e = upd_st (\<lambda>s. s\<lparr>WriteErrors := WriteErrors s + 1\<rparr>) e
                     in (case o_origin out of
                           None \<Rightarrow> e
                         | Some p \<Rightarrow> if live e p then finish p [] (Some x) e else e))
         in e\<lparr>writer_at := WTop\<rparr>
      | _ \<Rightarrow> e)"

definition writer_wakeup :: "endpoint \<Rightarrow> endpoint" where
  "writer_wakeup e =
     (if wake e then e\<lparr>wake := False, writer_at := WTop\<rparr> else e)"

definition writer_done :: "endpoint \<Rightarrow> endpoint" where
  "writer_done e = (if closed e then e\<lparr>writer_at := WExit\<rparr> else e)"

section \<open>The API\<close>

definition valid_peer :: "addr \<Rightarrow> bool" where
  "valid_peer a \<longleftrightarrow> Is4 (IP a) \<and> \<not> IsUnspecified (IP a) \<and> \<not> IsMulticast (IP a) \<and>
     IP a \<noteq> limitedBroadcast \<and> Port a \<noteq> 0"

text \<open>\<^verbatim>\<open>Call\<close> up to its \<^verbatim>\<open>select\<close>: the error it returns at once, or the RPC it waits for. \<open>ctx_err\<close> and
  \<open>ctx_deadline\<close> are \<^verbatim>\<open>ctx.Err()\<close> and \<^verbatim>\<open>ctx.Deadline()\<close>.\<close>

definition next_id :: "u64 \<Rightarrow> u64" where
  "next_id n = (let n = n + 2 in if n = 0 then 2 else n)"

definition call_start ::
  "error option \<Rightarrow> int option \<Rightarrow> addr \<Rightarrow> bytes \<Rightarrow> endpoint \<Rightarrow> (call_error + nat) \<times> endpoint" where
  "call_start ctx_err ctx_deadline peer request e =
     (case ctx_err of
        Some err \<Rightarrow> (Inl \<lparr>Err = err, Sent = False\<rparr>, e)
      | None \<Rightarrow>
         if \<not> valid_peer peer then (Inl \<lparr>Err = ErrProtocol, Sent = False\<rparr>, e)
         else if request = [] \<or> int (length request) > MaxMessageSize (cfg e)
         then (Inl \<lparr>Err = ErrTooLarge, Sent = False\<rparr>, e)
         else if closed e then (Inl \<lparr>Err = ErrClosed, Sent = False\<rparr>, e)
         else if int (length (rpcs e)) \<ge> MaxRPCs (cfg e)
         then (Inl \<lparr>Err = ErrBusy, Sent = False\<rparr>, e)
         else (case reserve (int (length request)) e of
           None \<Rightarrow> (Inl \<lparr>Err = ErrBusy, Sent = False\<rparr>, e)
         | Some e \<Rightarrow>
            let e = e\<lparr>nextID := next_id (nextID e)\<rparr>;
                (now, e) = time_now e;
                limit = now + Timeout (cfg e);
                deadline = (case ctx_deadline of
                              None \<Rightarrow> limit | Some d \<Rightarrow> if d < limit then d else limit);
                key = \<lparr>key_peer = peer, key_id = nextID e\<rparr>;
                r = (zero_rpc key)\<lparr>r_tx := request,
                      r_granted := min (length request) (nat (UnscheduledBytes (cfg e))),
                      r_deadline := deadline, r_last := now, r_result := Some [],
                      r_priority := unsched e (IP peer) (length request)\<rparr>;
                p = length (heap e);
                e = e\<lparr>heap := heap e @ [r], rpcs := AList.update key p (rpcs e)\<rparr>
            in (Inr p,
                case sendNew p e of
                  (None, e) \<Rightarrow> e
                | (Some err, e) \<Rightarrow> finish p [] (Some err) e)))"

text \<open>The branch of \<^verbatim>\<open>Call\<close> for a context that ends first.\<close>

definition call_cancelled :: "nat \<Rightarrow> error \<Rightarrow> endpoint \<Rightarrow> endpoint" where
  "call_cancelled p err e = (if live e p then finish p [] (Some err) e else e)"

definition Stats :: "endpoint \<Rightarrow> stats" where
  "Stats e = (st e)\<lparr>ActiveRPCs := length (rpcs e), ActiveHandlers := workers e\<rparr>"

definition zero_stats :: stats where
  "zero_stats = \<lparr>SentPackets = 0, ReceivedPackets = 0, Retransmissions = 0, InvalidPackets = 0,
     DroppedPackets = 0, WriteErrors = 0, CompletedCalls = 0, HandledRequests = 0, ActiveRPCs = 0,
     ActiveHandlers = 0, BufferedBytes = 0\<rparr>"

datatype new_error = InvalidConfiguration | InvalidLocal | InvalidServerPort

text \<open>\<^verbatim>\<open>New\<close>, given packet I/O and a random seed.\<close>

definition New :: "addr \<Rightarrow> config \<Rightarrow> bool \<Rightarrow> u64 \<Rightarrow> (nat \<Rightarrow> int) \<Rightarrow> (nat \<Rightarrow> rpcKey list \<Rightarrow> rpcKey list) \<Rightarrow>
    new_error + endpoint" where
  "New l c handler seed clk ord =
     (case defaults c of
        None \<Rightarrow> Inl InvalidConfiguration
      | Some c \<Rightarrow>
         if \<not> Is4 (IP l) \<or> Port l = 0 then Inl InvalidLocal
         else if handler \<and> Port l \<ge> 32768 then Inl InvalidServerPort
         else Inr \<lparr>local = l, cfg = c, has_handler = handler, heap = [], rpcs = [], cutoff_table = [],
           nextID = seed AND NOT 1, st = zero_stats, closed = False, io_closed = False, workers = 0,
           handlers = [], outbound = make_channels, wake = False, writer_at = WTop, clock = clk,
           ticks = 0, order = ord, ranges = 0\<rparr>)"

end
