(* ===== verification/Endpoint_Static.thy ===== *)
theory Endpoint_Static
  imports Endpoint
begin

unbundle bit_operations_syntax

text \<open>
  The part of an endpoint no operation changes but \<^verbatim>\<open>shutdown\<close>: its address, configuration and handler,
  the two runtime services of the model, and whether it is closed. The lemmas are collected in
  \<open>static_simps\<close>.
\<close>

named_theorems static_simps "operations keep the static part"

definition static :: "endpoint \<Rightarrow> _" where
  "static e = (local e, cfg e, has_handler e, clock e, order e, closed e, io_closed e)"

lemma static_fields:
  assumes "static e' = static e"
  shows "local e' = local e" and "cfg e' = cfg e" and "has_handler e' = has_handler e"
    and "clock e' = clock e" and "order e' = order e" and "closed e' = closed e" and "io_closed e' = io_closed e"
  using assms by (simp_all add: static_def)

lemma static_update [simp]:
  "static (e\<lparr>heap := h\<rparr>) = static e" "static (e\<lparr>rpcs := t\<rparr>) = static e"
  "static (e\<lparr>cutoff_table := c\<rparr>) = static e" "static (e\<lparr>nextID := n\<rparr>) = static e"
  "static (e\<lparr>st := s\<rparr>) = static e" "static (e\<lparr>workers := w\<rparr>) = static e"
  "static (e\<lparr>handlers := hs\<rparr>) = static e" "static (e\<lparr>outbound := q\<rparr>) = static e"
  "static (e\<lparr>wake := b\<rparr>) = static e" "static (e\<lparr>writer_at := w'\<rparr>) = static e"
  "static (e\<lparr>ticks := n'\<rparr>) = static e" "static (e\<lparr>ranges := n'\<rparr>) = static e"
  by (simp_all add: static_def)

section \<open>Updating one RPC, and the byte account\<close>

lemma upd_rpc_fields [simp]:
  "local (upd_rpc p f e) = local e" "cfg (upd_rpc p f e) = cfg e"
  "has_handler (upd_rpc p f e) = has_handler e" "rpcs (upd_rpc p f e) = rpcs e"
  "cutoff_table (upd_rpc p f e) = cutoff_table e" "closed (upd_rpc p f e) = closed e"
  "workers (upd_rpc p f e) = workers e" "handlers (upd_rpc p f e) = handlers e"
  "st (upd_rpc p f e) = st e" "outbound (upd_rpc p f e) = outbound e"
  "length (heap (upd_rpc p f e)) = length (heap e)" "nextID (upd_rpc p f e) = nextID e"
  "wake (upd_rpc p f e) = wake e" "writer_at (upd_rpc p f e) = writer_at e"
  by (simp_all add: upd_rpc_def)

lemma heap_upd_rpc:
  "heap (upd_rpc p f e) ! q = (if q = p \<and> p < length (heap e) then f (heap e ! p) else heap e ! q)"
  by (cases "p < length (heap e)") (auto simp: upd_rpc_def nth_list_update list_update_beyond)

lemma heap_upd_rpc_same [simp]: "p < length (heap e) \<Longrightarrow> heap (upd_rpc p f e) ! p = f (heap e ! p)"
  by (simp add: heap_upd_rpc)

lemma live_upd_rpc:
  assumes "r_key (f (heap e ! p)) = r_key (heap e ! p)"
  shows "live (upd_rpc p f e) q = live e q"
  using assms by (simp add: live_def heap_upd_rpc)

lemma add_buffered_fields [simp]:
  "local (add_buffered n e) = local e" "cfg (add_buffered n e) = cfg e"
  "has_handler (add_buffered n e) = has_handler e" "heap (add_buffered n e) = heap e"
  "rpcs (add_buffered n e) = rpcs e" "cutoff_table (add_buffered n e) = cutoff_table e"
  "closed (add_buffered n e) = closed e" "workers (add_buffered n e) = workers e"
  "handlers (add_buffered n e) = handlers e" "outbound (add_buffered n e) = outbound e"
  "BufferedBytes (st (add_buffered n e)) = BufferedBytes (st e) + n"
  "live (add_buffered n e) q = live e q" "nextID (add_buffered n e) = nextID e"
  "ticks (add_buffered n e) = ticks e" "clock (add_buffered n e) = clock e" "wake (add_buffered n e) = wake e"
  "writer_at (add_buffered n e) = writer_at e"
  by (simp_all add: add_buffered_def upd_st_def live_def)

section \<open>Building blocks\<close>

lemma static_upd [static_simps]:
  "static (upd_rpc p f e) = static e" "static (upd_st g e) = static e"
  "static (add_buffered n e) = static e" "static (count_invalid e) = static e"
  "static (count_dropped e) = static e" "static (snd (time_now e)) = static e"
  "static (snd (range_keys e)) = static e"
  by (simp_all add: upd_rpc_def upd_st_def add_buffered_def count_invalid_def count_dropped_def
      time_now_def range_keys_def)

lemma static_reserve: "reserve n e = Some e' \<Longrightarrow> static e' = static e"
  by (auto simp: reserve_def static_simps split: if_splits)

lemma static_send [static_simps]: "static (snd (send peer p pr e)) = static e"
  by (auto simp: send_def Let_def static_simps split: sum.split option.split)

lemma static_send_ignore [static_simps]: "static (send_ignore peer p pr e) = static e"
  by (simp add: send_ignore_def static_simps)

lemma static_control [static_simps]: "static (control k t e) = static e"
  by (simp add: control_def static_simps)

lemma static_segment [static_simps]: "static (snd (sendSegment p s b pr e)) = static e"
  by (simp add: sendSegment_def Let_def static_simps)

lemma static_sendNew_loop: "static (snd (sendNew_loop n p e)) = static e"
proof (induction n arbitrary: e)
  case (Suc n)
  have "static (snd (case sendSegment p s b pr e' of (Some err, e) \<Rightarrow> (Some err, e)
      | (None, e) \<Rightarrow> sendNew_loop n p e)) = static e'" for s b pr e'
    using Suc static_segment [of p s b pr e']
    by (cases "sendSegment p s b pr e'") (auto split: option.split)
  then show ?case by (simp add: Let_def static_simps)
qed simp

lemma static_sendNew [static_simps]: "static (snd (sendNew p e)) = static e"
  by (simp add: sendNew_def static_sendNew_loop)

lemma static_resend_loop [static_simps]: "static (resend_loop n p a b pr e) = static e"
  by (induction n arbitrary: a e) (simp_all add: Let_def static_simps)

lemma static_resend [static_simps]: "static (resend_range p a b pr e) = static e"
  by (simp add: resend_range_def Let_def static_simps)

lemma static_remove [static_simps]: "static (remove p e) = static e"
  by (simp add: remove_def Let_def static_simps split: option.split)

lemma static_finish [static_simps]: "static (finish p d x e) = static e"
  by (simp add: finish_def Let_def static_simps)

lemma static_visit: "(\<And>p e. static (f p e) = static e) \<Longrightarrow> static (visit f k e) = static e"
  by (simp add: visit_def split: option.split)

lemma static_for_rpcs:
  assumes "\<And>p e. static (f p e) = static e"
  shows "static (for_rpcs f e) = static e"
proof -
  have "static (fold (visit f) ks e) = static e" for ks e
    by (induction ks arbitrary: e) (simp_all add: static_visit [OF assms])
  then show ?thesis by (simp add: for_rpcs_def split_beta static_simps)
qed

lemma static_shutdown:
  "static (shutdown err e) = (if closed e then static e else static (e\<lparr>closed := True, io_closed := True\<rparr>))"
proof -
  have "static (for_rpcs (\<lambda>p. finish p [] (Some err)) e') = static e'" for e'
    by (rule static_for_rpcs) (simp add: static_simps)
  then show ?thesis by (simp add: shutdown_def Let_def) (simp add: static_def)
qed

lemma static_missing [static_simps]: "static (requestMissing p e) = static e"
  by (simp add: requestMissing_def Let_def static_simps split: option.split)

lemma static_grant_loop [static_simps]: "static (grant_loop rank ps e) = static e"
  by (induction rank ps e rule: grant_loop.induct) (auto simp: Let_def static_simps split: option.split)

lemma static_schedule [static_simps]: "static (schedule e) = static e"
  by (simp add: schedule_def split_beta Let_def static_simps)

section \<open>Handlers and receiving\<close>

lemma static_startHandler [static_simps]: "static (startHandler p e) = static e"
  by (simp add: startHandler_def Let_def split_beta static_simps split: option.split)

lemma static_start_waiting [static_simps]: "static (start_waiting p e) = static e"
  by (simp add: start_waiting_def Let_def static_simps)

lemma static_handler_reply [static_simps]: "static (handler_reply p response e) = static e"
  by (auto simp: handler_reply_def Let_def split_beta static_simps static_for_rpcs
      dest: static_reserve split: option.split)

lemma static_handler_done [static_simps]: "static (handler_done i response e) = static e"
  by (simp add: handler_done_def Let_def split_beta static_simps)

lemma static_ack_rpc [static_simps]: "static (ack_rpc ip a e) = static e"
  by (simp add: ack_rpc_def Let_def split_beta static_simps static_visit split: option.split)

lemma static_acks [static_simps]: "static (fold (ack_rpc ip) as e) = static e"
  by (induction as arbitrary: e) (simp_all add: static_simps)

lemma static_data_rpc [static_simps]: "static (snd (data_rpc key e)) = static e"
  by (simp add: data_rpc_def Let_def split_beta static_simps split: option.split)

lemma static_data_cutoffs [static_simps]: "static (data_cutoffs p peer d e) = static e"
  by (simp add: data_cutoffs_def Let_def split_beta static_simps)

lemma static_data_buffer [static_simps]: "static (snd (data_buffer p key d e)) = static e"
  by (auto simp: data_buffer_def Let_def static_simps dest: static_reserve split: option.split)

lemma static_data_complete [static_simps]: "static (data_complete p peer key a e) = static e"
  by (simp add: data_complete_def Let_def static_simps)

lemma static_data_store [static_simps]: "static (data_store p peer key d e) = static e"
  by (simp add: data_store_def Let_def static_simps split: option.split)

lemma static_data_handler [static_simps]: "static (data_handler peer key d e) = static e"
  by (simp add: data_handler_def Let_def static_simps split_beta split: option.split bool.split)

lemma static_receive_kinds [static_simps]:
  "static (receive_grant r g e) = static e" "static (receive_unknown ip r e) = static e"
  "static (receive_need_ack peer key r e) = static e" "static (receive_ack ip key r v e) = static e"
  "static (receive_cutoffs ip c e) = static e" "static (receive_resend key r w e) = static e"
  by (cases r; simp add: receive_grant_def receive_unknown_def receive_need_ack_def receive_ack_def
      receive_cutoffs_def receive_resend_def Let_def split_beta static_simps split: option.split)+

lemma static_touch [static_simps]: "static (touch h r e) = static e"
  by (simp add: touch_def split_beta Let_def static_simps split: option.split)

lemma static_receive [static_simps]: "static (receive ip p e) = static e"
  by (cases p) (simp_all add: receive_def Let_def static_simps)

section \<open>Goroutines and the API\<close>

lemma static_timer_rpc [static_simps]: "static (timer_rpc now p e) = static e"
  by (simp add: timer_rpc_def Let_def static_simps)

lemma static_stale: "static (snd (stale out e)) = static e"
  by (simp add: stale_def split_beta Let_def static_simps split: option.split)

lemma static_read_packet [static_simps]: "static (read_packet ip b e) = static e"
  by (simp add: read_packet_def static_simps split: sum.split)

lemma static_timer_tick [static_simps]: "static (timer_tick now e) = static e"
  by (simp add: timer_tick_def static_simps static_for_rpcs)

lemma static_writer [static_simps]:
  "static (writer_pick e) = static e" "static (writer_wakeup e) = static e" "static (writer_done e) = static e"
  by (auto simp: writer_pick_def writer_wakeup_def writer_done_def Let_def split_beta static_simps static_stale
      split: option.split)

lemma static_writer_wrote [static_simps]: "static (writer_wrote x e) = static e"
  by (cases "writer_at e") (auto simp: writer_wrote_def Let_def static_simps split: option.split)

lemma static_call_start [static_simps]: "static (snd (call_start x d peer request e)) = static e"
  by (auto simp: call_start_def Let_def split_beta static_simps dest: static_reserve split: option.split)

lemma static_call_cancelled [static_simps]: "static (call_cancelled p err e) = static e"
  by (simp add: call_cancelled_def static_simps)

end
