(* ===== verification/Endpoint_Inv.thy ===== *)
theory Endpoint_Inv
  imports Endpoint_Static
begin

unbundle bit_operations_syntax

text \<open>
  The invariant of the endpoint's state between two critical sections, and its preservation by the
  operations that are used inside one: the table of RPCs and the heap agree, a dead RPC owns no
  buffer, every client RPC has delivered exactly one result once it is dead and none before, receive
  buffers are well formed, transmissions stay within message, grant and segment boundaries, running
  handlers and worker slots match, and the byte account is exact.
\<close>

section \<open>The invariant\<close>

definition cost :: "rpc \<Rightarrow> nat" where
  "cost r = length (r_tx r) + rx_bytes r"

definition owned :: "endpoint \<Rightarrow> int" where
  "owned e = int (sum_list (map cost (heap e))) + int (sum_list (map (length \<circ> snd) (handlers e)))"

definition rx_ok :: "config \<Rightarrow> rpc \<Rightarrow> bool" where
  "rx_ok c r \<longleftrightarrow> (case r_rx r of
      None \<Rightarrow> True
    | Some a \<Rightarrow> wf_assembly a \<and> 0 < length (a_data a) \<and> int (length (a_data a)) \<le> MaxMessageSize c \<and>
        a_granted a \<le> length (a_data a) \<and> (r_received r \<longrightarrow> complete a) \<and> \<not> r_handling r)"

text \<open>What has been handed to the transmit queues is always exactly the granted prefix, extended to the
  end of its last segment.\<close>

definition round_up :: "nat \<Rightarrow> nat \<Rightarrow> nat" where
  "round_up g n = ((n + g - 1) div g) * g"

definition tx_ok :: "config \<Rightarrow> rpc \<Rightarrow> bool" where
  "tx_ok c r \<longleftrightarrow> (r_tx r \<noteq> [] \<longrightarrow>
      int (length (r_tx r)) \<le> MaxMessageSize c \<and> 0 < r_granted r \<and> r_granted r \<le> length (r_tx r) \<and>
      r_sent r = min (length (r_tx r)) (round_up (nat (SegmentBytes c)) (r_granted r)) \<and>
      unat (r_priority r) < 8)"

definition result_ok :: "bool \<Rightarrow> rpc \<Rightarrow> bool" where
  "result_ok alive r \<longleftrightarrow> (case r_result r of
      None \<Rightarrow> is_server (r_key r)
    | Some q \<Rightarrow> is_client (r_key r) \<and> length q = (if alive then 0 else 1))"

definition rpc_ok :: "config \<Rightarrow> bool \<Rightarrow> rpc \<Rightarrow> bool" where
  "rpc_ok c alive r \<longleftrightarrow> rx_ok c r \<and> tx_ok c r \<and> result_ok alive r \<and>
     (\<not> alive \<longrightarrow> cost r = 0) \<and>
     (alive \<and> r_received r \<longrightarrow> is_server (r_key r)) \<and>
     (alive \<and> is_server (r_key r) \<and> r_tx r = [] \<longrightarrow> r_sent r = 0) \<and>
     (r_tx r \<noteq> [] \<longrightarrow> r_rx r = None) \<and>
     (alive \<and> is_server (r_key r) \<and> r_tx r \<noteq> [] \<longrightarrow> r_handling r) \<and>
     (r_handling r \<longrightarrow> r_received r)"

definition table_ok :: "endpoint \<Rightarrow> bool" where
  "table_ok e \<longleftrightarrow> distinct (map fst (rpcs e)) \<and> int (length (rpcs e)) \<le> MaxRPCs (cfg e) \<and>
     (\<forall>(k, p) \<in> set (rpcs e). p < length (heap e) \<and> r_key (heap e ! p) = k)"

definition heap_ok :: "endpoint \<Rightarrow> bool" where
  "heap_ok e \<longleftrightarrow> (\<forall>p < length (heap e). rpc_ok (cfg e) (live e p) (heap e ! p))"

definition handlers_ok :: "endpoint \<Rightarrow> bool" where
  "handlers_ok e \<longleftrightarrow> workers e = length (handlers e) \<and> int (workers e) \<le> HandlerWorkers (cfg e) \<and>
     distinct (map fst (handlers e)) \<and>
     (\<forall>p \<in> fst ` set (handlers e). p < length (heap e) \<and> r_handling (heap e ! p) \<and> r_tx (heap e ! p) = [])"

definition cutoffs_ok :: "endpoint \<Rightarrow> bool" where
  "cutoffs_ok e \<longleftrightarrow> distinct (map fst (cutoff_table e)) \<and>
     int (length (cutoff_table e)) \<le> MaxRPCs (cfg e) \<and>
     (\<forall>(ip, c) \<in> set (cutoff_table e). length (co_values c) = 8)"

text \<open>Within a critical section the account may be ahead of the buffers by \<open>s\<close> reserved bytes.\<close>

definition inv_with :: "int \<Rightarrow> endpoint \<Rightarrow> bool" where
  "inv_with s e \<longleftrightarrow> valid_config (cfg e) \<and> wf_channels (outbound e) \<and> table_ok e \<and> heap_ok e \<and>
     handlers_ok e \<and> cutoffs_ok e \<and>
     BufferedBytes (st e) = owned e + s \<and> BufferedBytes (st e) \<le> MaxBufferedBytes (cfg e)"

abbreviation inv :: "endpoint \<Rightarrow> bool" where
  "inv \<equiv> inv_with 0"

lemmas inv_parts = inv_with_def table_ok_def handlers_ok_def cutoffs_ok_def

lemma inv_withI:
  assumes "valid_config (cfg e)" "wf_channels (outbound e)" "table_ok e" "heap_ok e"
    "handlers_ok e" "cutoffs_ok e" "BufferedBytes (st e) = owned e + s"
    "BufferedBytes (st e) \<le> MaxBufferedBytes (cfg e)"
  shows "inv_with s e"
  using assms by (simp add: inv_with_def)

lemma inv_same:
  assumes "inv_with s e" and "cfg e' = cfg e" "heap e' = heap e" "rpcs e' = rpcs e"
    "cutoff_table e' = cutoff_table e" "workers e' = workers e" "handlers e' = handlers e"
    "BufferedBytes (st e') = BufferedBytes (st e)" "wf_channels (outbound e')"
  shows "inv_with s e'"
proof -
  have "live e' p = live e p" for p using assms by (simp add: live_def)
  with assms show ?thesis by (simp add: inv_parts heap_ok_def owned_def)
qed

lemma inv_channels: "inv_with s e \<Longrightarrow> wf_channels (outbound e)"
  by (simp add: inv_with_def)

section \<open>Steps that leave the protocol state alone\<close>

text \<open>Queueing a packet, reading the clock, fixing an iteration order and counting leave the
  following part of the state unchanged.\<close>

definition core :: "endpoint \<Rightarrow> _" where
  "core e = (local e, cfg e, has_handler e, heap e, rpcs e, cutoff_table e, closed e, workers e, handlers e,
     BufferedBytes (st e))"

lemma core_fields:
  assumes "core e' = core e"
  shows "local e' = local e" "cfg e' = cfg e" "has_handler e' = has_handler e" "heap e' = heap e"
    "rpcs e' = rpcs e" "cutoff_table e' = cutoff_table e" "closed e' = closed e" "workers e' = workers e"
    "handlers e' = handlers e" "BufferedBytes (st e') = BufferedBytes (st e)"
  using assms by (simp_all add: core_def)

locale bookkeeping =
  fixes f :: "endpoint \<Rightarrow> endpoint"
  assumes core: "core (f e) = core e"
    and channels: "wf_channels (outbound e) \<Longrightarrow> wf_channels (outbound (f e))"
begin

lemmas fields = core_fields [OF core]

lemma live_kept: "live (f e) p = live e p"
  by (simp add: live_def fields)

lemma inv_kept: "inv_with s e \<Longrightarrow> inv_with s (f e)"
  by (rule inv_same [of s e]) (simp_all add: fields channels inv_channels)

end

interpretation bk_invalid: bookkeeping count_invalid
  by unfold_locales (simp_all add: core_def count_invalid_def upd_st_def)

interpretation bk_dropped: bookkeeping count_dropped
  by unfold_locales (simp_all add: core_def count_dropped_def upd_st_def)

interpretation bk_time: bookkeeping "\<lambda>e. snd (time_now e)"
  by unfold_locales (simp_all add: core_def time_now_def)

interpretation bk_range: bookkeeping "\<lambda>e. snd (range_keys e)"
  by unfold_locales (simp_all add: core_def range_keys_def)

lemma send_core: "core (snd (send peer p priority e)) = core e"
  by (auto simp: send_def Let_def core_def count_dropped_def upd_st_def split: sum.splits option.splits)

lemma send_channels:
  assumes "wf_channels (outbound e)"
  shows "wf_channels (outbound (snd (send peer p priority e)))"
proof -
  have "unat priority < length (outbound e) \<Longrightarrow> unat priority < numPriorities"
    using assms by (simp add: wf_channels_def)
  then show ?thesis
    using assms chan.enq_invar [OF assms, of "unat priority"]
    by (auto simp: send_def Let_def count_dropped_def upd_st_def not_le split: sum.splits option.splits)
qed

interpretation bk_send: bookkeeping "\<lambda>e. snd (send peer p priority e)" for peer p priority
  by unfold_locales (simp_all add: send_core send_channels)

interpretation bk_send_ignore: bookkeeping "send_ignore peer p priority" for peer p priority
  by unfold_locales (simp_all add: send_ignore_def send_core send_channels)

interpretation bk_control: bookkeeping "control k t" for k t
  by unfold_locales (simp_all add: control_def bk_send_ignore.core bk_send_ignore.channels)

interpretation bk_missing: bookkeeping "requestMissing p" for p
  by unfold_locales
    (auto simp: requestMissing_def Let_def bk_send_ignore.core bk_send_ignore.channels split: option.splits)

interpretation bk_segment: bookkeeping "\<lambda>e. snd (sendSegment p start retransmit priority e)"
  for p start retransmit priority
proof unfold_locales
  let ?f = "\<lambda>e. upd_st (\<lambda>s. s\<lparr>Retransmissions := Retransmissions s + 1\<rparr>) e"
  fix e
  have "core (?f e) = core e" by (simp add: core_def upd_st_def)
  then show "core (snd (sendSegment p start retransmit priority e)) = core e"
    by (simp add: sendSegment_def Let_def send_core)
  show "wf_channels (outbound e) \<Longrightarrow>
      wf_channels (outbound (snd (sendSegment p start retransmit priority e)))"
    by (simp add: sendSegment_def Let_def send_channels upd_st_def)
qed

section \<open>Updating one RPC\<close>

lemma sum_cost_upd:
  assumes "p < length h"
  shows "int (sum_list (map cost (h[p := r]))) =
    int (sum_list (map cost h)) - int (cost (h ! p)) + int (cost r)"
proof -
  have "cost (h ! p) \<le> sum_list (map cost h)"
    using assms by (intro member_le_sum_list) simp_all
  then show ?thesis using assms by (simp add: map_update sum_list_update)
qed

lemma inv_upd_rpc:
  assumes inv: "inv_with s e" and p: "p < length (heap e)"
    and key: "r_key (f (heap e ! p)) = r_key (heap e ! p)"
    and ok: "rpc_ok (cfg e) (live e p) (f (heap e ! p))"
    and hd: "p \<in> fst ` set (handlers e) \<Longrightarrow>
      r_handling (f (heap e ! p)) \<and> r_tx (f (heap e ! p)) = []"
    and s: "s' = s + int (cost (heap e ! p)) - int (cost (f (heap e ! p)))"
  shows "inv_with s' (upd_rpc p f e)"
proof (rule inv_withI)
  show "table_ok (upd_rpc p f e)"
    using inv key by (auto simp: inv_with_def table_ok_def heap_upd_rpc)
  show "heap_ok (upd_rpc p f e)"
    using inv ok live_upd_rpc [where f = f and p = p and e = e, OF key]
    by (auto simp: inv_with_def heap_ok_def heap_upd_rpc)
  show "handlers_ok (upd_rpc p f e)"
    using inv hd by (auto simp: inv_with_def handlers_ok_def heap_upd_rpc)
  show "cutoffs_ok (upd_rpc p f e)"
    using inv by (simp add: inv_with_def cutoffs_ok_def)
  show "BufferedBytes (st (upd_rpc p f e)) = owned (upd_rpc p f e) + s'"
    using inv s sum_cost_upd [OF p, of "f (heap e ! p)"]
    by (simp add: inv_with_def owned_def upd_rpc_def)
qed (use inv in \<open>simp_all add: inv_with_def\<close>)

text \<open>Fields the invariant does not mention.\<close>

lemma cost_untouched [simp]:
  "cost (r\<lparr>r_last := t\<rparr>) = cost r" "cost (r\<lparr>r_lastCutoff := t\<rparr>) = cost r"
  "cost (r\<lparr>r_cancel := x\<rparr>) = cost r" "cost (r\<lparr>r_sent := n\<rparr>) = cost r"
  "cost (r\<lparr>r_granted := n\<rparr>) = cost r" "cost (r\<lparr>r_priority := u\<rparr>) = cost r"
  "cost (r\<lparr>r_received := b\<rparr>) = cost r" "cost (r\<lparr>r_handling := b\<rparr>) = cost r"
  "cost (r\<lparr>r_result := q\<rparr>) = cost r"
  by (simp_all add: cost_def rx_bytes_def)

lemma rpc_ok_untouched [simp]:
  "rpc_ok c l (r\<lparr>r_last := t\<rparr>) = rpc_ok c l r" "rpc_ok c l (r\<lparr>r_lastCutoff := t\<rparr>) = rpc_ok c l r"
  "rpc_ok c l (r\<lparr>r_cancel := x\<rparr>) = rpc_ok c l r"
  by (cases "r_rx r"; cases "r_result r"; simp add: rpc_ok_def rx_ok_def tx_ok_def result_ok_def)+

lemma inv_rpc_ok: "inv_with s e \<Longrightarrow> p < length (heap e) \<Longrightarrow> rpc_ok (cfg e) (live e p) (heap e ! p)"
  by (simp add: inv_with_def heap_ok_def)

lemma inv_handlers:
  "inv_with s e \<Longrightarrow> p \<in> fst ` set (handlers e) \<Longrightarrow>
   p < length (heap e) \<and> r_handling (heap e ! p) \<and> r_tx (heap e ! p) = []"
  by (auto simp: inv_with_def handlers_ok_def)

lemma inv_upd_untouched:
  assumes "inv_with s e" and "p < length (heap e)"
  shows "inv_with s (upd_rpc p (\<lambda>r. r\<lparr>r_last := t\<rparr>) e)"
    and "inv_with s (upd_rpc p (\<lambda>r. r\<lparr>r_lastCutoff := t\<rparr>) e)"
    and "inv_with s (upd_rpc p (\<lambda>r. r\<lparr>r_cancel := g r\<rparr>) e)"
  using inv_rpc_ok [OF assms] inv_handlers [OF assms(1), of p]
  by (rule_tac inv_upd_rpc [OF assms]; simp)+

lemma inv_cancel:
  assumes "inv_with s e"
  shows "inv_with s (upd_rpc p (\<lambda>r. r\<lparr>r_cancel := g r\<rparr>) e)"
proof (cases "p < length (heap e)")
  case True
  with assms show ?thesis by (rule inv_upd_untouched(3))
next
  case False
  then have "upd_rpc p f e = e" for f by (simp add: upd_rpc_def list_update_beyond)
  with assms show ?thesis by simp
qed

section \<open>Retiring an RPC\<close>

text \<open>The common effect of \<open>remove\<close> and \<open>finish\<close> on a live RPC: its key leaves the table, its buffers
  are released, and \<open>r'\<close> is what is left of it.\<close>

definition retire :: "nat \<Rightarrow> rpc \<Rightarrow> endpoint \<Rightarrow> endpoint" where
  "retire p r' e =
     e\<lparr>rpcs := AList.delete (r_key r') (rpcs e), heap := (heap e)[p := r'],
       st := (st e)\<lparr>BufferedBytes := BufferedBytes (st e) - int (cost (heap e ! p))\<rparr>\<rparr>"

definition killed :: "rpc \<Rightarrow> rpc" where
  "killed r = r\<lparr>r_tx := [], r_rx := None, r_cancel := map_option (\<lambda>_. True) (r_cancel r)\<rparr>"

definition delivered :: "bytes \<Rightarrow> error option \<Rightarrow> rpc \<Rightarrow> rpc" where
  "delivered data err r =
     (killed r)\<lparr>r_result := map_option (\<lambda>q. q @ [\<lparr>res_data = data, res_err =
        map_option (\<lambda>x. \<lparr>Err = x, Sent = (r_sent r > 0 \<or> r_received r)\<rparr>) err\<rparr>]) (r_result r)\<rparr>"

lemma remove_eq:
  assumes "p < length (heap e)"
  shows "remove p e = (if live e p then retire p (killed (heap e ! p)) e else e)"
proof -
  have none: "killed r = r\<lparr>r_tx := [], r_cancel := map_option (\<lambda>_. True) (r_cancel r)\<rparr>"
    if "r_rx r = None" for r
    using that by (cases r) (simp add: killed_def)
  show ?thesis
  proof (cases "r_rx (heap e ! p)")
    case None
    then show ?thesis using assms none [OF None]
      by (simp add: remove_def retire_def Let_def upd_rpc_def add_buffered_def upd_st_def
        cost_def rx_bytes_def)
  next
    case (Some a)
    then show ?thesis using assms
      by (simp add: remove_def retire_def killed_def Let_def upd_rpc_def add_buffered_def upd_st_def
        cost_def rx_bytes_def)
  qed
qed

lemma finish_eq:
  assumes "p < length (heap e)"
  shows "finish p data err e = (if live e p then retire p (delivered data err (heap e ! p)) e else e)"
  using assms
  by (auto simp: finish_def Let_def remove_eq retire_def killed_def delivered_def upd_rpc_def)

lemma killed_fields [simp]:
  "r_key (killed r) = r_key r" "r_result (killed r) = r_result r" "r_tx (killed r) = []"
  "r_rx (killed r) = None" "r_handling (killed r) = r_handling r" "r_received (killed r) = r_received r"
  "cost (killed r) = 0"
  by (simp_all add: killed_def cost_def rx_bytes_def)

lemma delivered_fields [simp]:
  "r_key (delivered d x r) = r_key r" "r_tx (delivered d x r) = []" "r_rx (delivered d x r) = None"
  "r_handling (delivered d x r) = r_handling r" "r_received (delivered d x r) = r_received r"
  "cost (delivered d x r) = 0"
  by (simp_all add: delivered_def)

lemma killed_ok: "rpc_ok c True r \<Longrightarrow> is_server (r_key r) \<Longrightarrow> rpc_ok c False (killed r)"
  by (auto simp: rpc_ok_def rx_ok_def tx_ok_def result_ok_def split: option.splits)

lemma delivered_ok: "rpc_ok c True r \<Longrightarrow> rpc_ok c False (delivered d x r)"
  by (auto simp: rpc_ok_def rx_ok_def tx_ok_def result_ok_def delivered_def split: option.splits)

lemma live_retire:
  assumes "live e p" and "p < length (heap e)" and "r_key r' = r_key (heap e ! p)"
  shows "live (retire p r' e) q \<longleftrightarrow> q \<noteq> p \<and> live e q"
  using assms by (auto simp: live_def retire_def delete_conv nth_list_update)

lemma retire_fields [simp]:
  "local (retire p r e) = local e" "cfg (retire p r e) = cfg e" "has_handler (retire p r e) = has_handler e"
  "cutoff_table (retire p r e) = cutoff_table e" "closed (retire p r e) = closed e"
  "workers (retire p r e) = workers e" "handlers (retire p r e) = handlers e"
  "outbound (retire p r e) = outbound e" "length (heap (retire p r e)) = length (heap e)"
  by (simp_all add: retire_def)

lemma inv_retire:
  assumes inv: "inv_with s e" and p: "p < length (heap e)" and live: "live e p"
    and key: "r_key r' = r_key (heap e ! p)" and ok: "rpc_ok (cfg e) False r'"
    and hd: "p \<in> fst ` set (handlers e) \<Longrightarrow> r_handling r' \<and> r_tx r' = []"
  shows "inv_with s (retire p r' e)"
proof (rule inv_withI)
  let ?d = "AList.delete (r_key r') (rpcs e)"
  have sub: "set ?d \<subseteq> set (rpcs e)" "length ?d \<le> length (rpcs e)"
    by (auto simp: AList.delete_eq)
  have keys: "r_key ((heap e)[p := r'] ! q) = r_key (heap e ! q)" for q
    using key p by (cases "q = p") simp_all
  have "table_ok e" using inv by (simp add: inv_with_def)
  with sub show "table_ok (retire p r' e)"
    unfolding table_ok_def by (auto simp: retire_def keys distinct_delete)
  show "heap_ok (retire p r' e)"
    using inv ok live_retire [OF live p key] p
    by (auto simp: inv_with_def heap_ok_def retire_def nth_list_update)
  show "handlers_ok (retire p r' e)"
    using inv hd p by (auto simp: inv_with_def handlers_ok_def retire_def nth_list_update)
  show "cutoffs_ok (retire p r' e)"
    using inv by (simp add: inv_with_def cutoffs_ok_def)
  have "cost r' = 0" using ok by (simp add: rpc_ok_def)
  then show "BufferedBytes (st (retire p r' e)) = owned (retire p r' e) + s"
    using inv sum_cost_upd [OF p, of r'] by (simp add: inv_with_def owned_def retire_def)
  show "BufferedBytes (st (retire p r' e)) \<le> MaxBufferedBytes (cfg (retire p r' e))"
    using inv by (simp add: inv_with_def retire_def)
qed (use inv in \<open>simp_all add: inv_with_def\<close>)

lemma inv_remove:
  assumes "inv_with s e" and "p < length (heap e)" and "is_server (r_key (heap e ! p))"
  shows "inv_with s (remove p e)"
proof (cases "live e p")
  case True
  have "inv_with s (retire p (killed (heap e ! p)) e)"
    using True assms inv_rpc_ok [OF assms(1,2)] inv_handlers [OF assms(1), of p]
    by (intro inv_retire killed_ok; simp)
  with True assms(2) show ?thesis by (simp add: remove_eq)
qed (use assms in \<open>simp add: remove_eq\<close>)

lemma inv_finish:
  assumes "inv_with s e" and "p < length (heap e)"
  shows "inv_with s (finish p d x e)"
proof (cases "live e p")
  case True
  have "inv_with s (retire p (delivered d x (heap e ! p)) e)"
    using True assms inv_rpc_ok [OF assms(1,2)] inv_handlers [OF assms(1), of p]
    by (intro inv_retire delivered_ok; simp)
  with True assms(2) show ?thesis by (simp add: finish_eq)
qed (use assms in \<open>simp add: finish_eq\<close>)

section \<open>Creating an RPC and reserving bytes\<close>

lemma update_fresh: "map_of xs k = None \<Longrightarrow> AList.update k v xs = xs @ [(k, v)]"
  by (induction xs) auto

lemma live_alloc:
  assumes tab: "table_ok e" and fresh: "map_of (rpcs e) (r_key r) = None" and q: "q \<le> length (heap e)"
  shows "live (e\<lparr>heap := heap e @ [r], rpcs := AList.update (r_key r) (length (heap e)) (rpcs e)\<rparr>) q
     \<longleftrightarrow> q = length (heap e) \<or> q < length (heap e) \<and> live e q"
proof -
  have "map_of (rpcs e) k = Some (length (heap e)) \<Longrightarrow> False" for k
    using tab by (auto simp: table_ok_def dest!: map_of_SomeD)
  then show ?thesis using q fresh by (auto simp: live_def nth_append update_conv')
qed

lemma inv_alloc:
  assumes inv: "inv_with s e" and fresh: "map_of (rpcs e) (r_key r) = None"
    and room: "int (length (rpcs e)) < MaxRPCs (cfg e)" and ok: "rpc_ok (cfg e) True r"
    and s: "s' = s - int (cost r)"
  shows "inv_with s' (e\<lparr>heap := heap e @ [r], rpcs := AList.update (r_key r) (length (heap e)) (rpcs e)\<rparr>)"
    (is "inv_with _ ?e")
proof (rule inv_withI)
  have tab: "table_ok e" using inv by (simp add: inv_with_def)
  have "r_key r \<notin> fst ` set (rpcs e)" using fresh by (simp add: map_of_eq_None_iff)
  then show "table_ok ?e"
    using tab room fresh by (auto simp: table_ok_def update_fresh nth_append)
  have "rpc_ok (cfg e) (live ?e q) ((heap e @ [r]) ! q)" if "q \<le> length (heap e)" for q
    using live_alloc [OF tab fresh that] inv_rpc_ok [OF inv, of q] ok that
    by (cases "q = length (heap e)") (auto simp: nth_append)
  then show "heap_ok ?e" by (auto simp: heap_ok_def)
  show "handlers_ok ?e"
    using inv by (auto simp: inv_with_def handlers_ok_def nth_append)
  show "cutoffs_ok ?e"
    using inv by (simp add: inv_with_def cutoffs_ok_def)
  show "BufferedBytes (st ?e) = owned ?e + s'"
    using inv s by (simp add: inv_with_def owned_def)
qed (use inv in \<open>simp_all add: inv_with_def\<close>)

lemma inv_add_buffered:
  assumes "inv_with s e" and "BufferedBytes (st e) + n \<le> MaxBufferedBytes (cfg e)" and "s' = s + n"
  shows "inv_with s' (add_buffered n e)"
  using assms by (simp add: inv_parts heap_ok_def owned_def)

lemma reserve_Some:
  "reserve n e = Some e' \<longleftrightarrow>
   0 \<le> n \<and> BufferedBytes (st e) + n \<le> MaxBufferedBytes (cfg e) \<and> e' = add_buffered n e"
  by (auto simp: reserve_def)

lemma reserve_None:
  "reserve n e = None \<longleftrightarrow> n < 0 \<or> BufferedBytes (st e) + n > MaxBufferedBytes (cfg e)"
  by (auto simp: reserve_def)

lemma server_iff: "(x AND 1 = 1) = (x AND 1 \<noteq> 0)" for x :: u64
  by (simp add: and_one_eq not_mod_2_eq_0_eq_1)

section \<open>Ranging over the table\<close>

lemma inv_lookup:
  assumes "inv_with s e" and "map_of (rpcs e) k = Some p"
  shows "p < length (heap e)" and "r_key (heap e ! p) = k" and "live e p"
  using assms by (auto simp: inv_with_def table_ok_def live_def dest!: map_of_SomeD)

locale rpc_body =
  fixes body :: "nat \<Rightarrow> endpoint \<Rightarrow> endpoint"
  assumes body_inv: "inv e \<Longrightarrow> live e p \<Longrightarrow> p < length (heap e) \<Longrightarrow> inv (body p e)"
begin

lemma visit_inv: "inv e \<Longrightarrow> inv (visit body k e)"
  by (auto simp: visit_def intro: body_inv inv_lookup split: option.split)

lemma fold_inv: "inv e \<Longrightarrow> inv (fold (visit body) ks e)"
  by (induction ks arbitrary: e) (simp_all add: visit_inv)

lemma for_inv: "inv e \<Longrightarrow> inv (for_rpcs body e)"
  using fold_inv [OF bk_range.inv_kept] by (simp add: for_rpcs_def split_beta)

end

interpretation ranging_finish: rpc_body "\<lambda>p. finish p d x" for d x
  by unfold_locales (rule inv_finish)

lemma inv_shutdown: "inv e \<Longrightarrow> inv (shutdown err e)"
proof -
  have upd: "inv (e\<lparr>closed := True\<rparr>)" "inv (e\<lparr>io_closed := True\<rparr>)" if "inv e" for e
    using that inv_channels [OF that] by (simp_all add: inv_same [OF that])
  show "inv e \<Longrightarrow> inv (shutdown err e)"
    by (simp add: shutdown_def upd ranging_finish.for_inv)
qed

end
