(* ===== verification/Transmit.thy ===== *)
theory Transmit
  imports Endpoint_Inv
begin

unbundle bit_operations_syntax

text \<open>
  The sending side: \<^verbatim>\<open>sendSegment\<close>, \<^verbatim>\<open>sendNew\<close> and \<^verbatim>\<open>resend\<close> never fail on the packets an endpoint
  builds, both loops are equal to a run over the list of segment starts \<open>seg_starts\<close>, and the
  segments of one message partition it.
\<close>

section \<open>Segment boundaries\<close>

function seg_starts :: "nat \<Rightarrow> nat \<Rightarrow> nat \<Rightarrow> nat list" where
  "seg_starts g a b = (if g = 0 \<or> b \<le> a then [] else a # seg_starts g (a + g) b)"
  by pat_completeness auto
termination by (relation "measure (\<lambda>(g, a, b). b - a)") auto

declare seg_starts.simps [simp del]

lemma seg_starts_Nil [simp]: "b \<le> a \<Longrightarrow> seg_starts g a b = []"
  by (simp add: seg_starts.simps)

lemma seg_starts_Cons: "0 < g \<Longrightarrow> a < b \<Longrightarrow> seg_starts g a b = a # seg_starts g (a + g) b"
  by (subst seg_starts.simps) simp

lemma seg_starts_bounds: "s \<in> set (seg_starts g a b) \<Longrightarrow> a \<le> s \<and> s < b"
  by (induction g a b rule: seg_starts.induct) (subst (asm) (2) seg_starts.simps, auto split: if_splits)

lemma seg_starts_dvd: "s \<in> set (seg_starts g a b) \<Longrightarrow> g dvd a \<Longrightarrow> g dvd s"
  by (induction g a b rule: seg_starts.induct) (subst (asm) (2) seg_starts.simps, auto split: if_splits)

lemma round_up_nat:
  assumes "0 < g"
  shows "n \<le> round_up g n" and "round_up g n < n + g" and "g dvd round_up g n"
proof -
  have "(n + g - 1) div g * g + (n + g - 1) mod g = n + g - 1" by simp
  moreover have "(n + g - 1) mod g < g" using assms by simp
  ultimately show "n \<le> round_up g n" and "round_up g n < n + g"
    using assms unfolding round_up_def by linarith+
  show "g dvd round_up g n" by (simp add: round_up_def)
qed

lemma round_up_le:
  assumes "0 < g" and "g dvd m" and "n \<le> m"
  shows "round_up g n \<le> m"
proof (rule ccontr)
  assume less: "\<not> round_up g n \<le> m"
  have "g dvd round_up g n - m"
    using assms round_up_nat(3) [OF assms(1), of n] by (simp add: dvd_diff_nat)
  with less have "g \<le> round_up g n - m" by (intro dvd_imp_le) simp_all
  then show False using round_up_nat(2) [OF assms(1), of n] assms(3) less by linarith
qed

lemma seg_starts_min: "b \<le> n \<Longrightarrow> seg_starts g (min (a + g) n) b = seg_starts g (a + g) b"
  by (cases "a + g \<le> n") (simp_all add: min_def)

text \<open>The segments that start below \<open>b\<close> cover the message up to \<open>b\<close> rounded up.\<close>

lemma segments_cover:
  assumes "0 < g" and "g dvd a" and "b \<le> length tx"
  shows "concat (map (\<lambda>s. subslice s (min (s + g) (length tx)) tx) (seg_starts g a b)) =
    subslice a (min (length tx) (round_up g b)) tx"
  using assms
proof (induction g a b rule: seg_starts.induct)
  case (1 g a b)
  show ?case
  proof (cases "b \<le> a")
    case True
    with 1 have "round_up g b \<le> a" by (intro round_up_le) simp_all
    with True show ?thesis by (simp add: subslice_def)
  next
    case False
    with 1 have "concat (map (\<lambda>s. subslice s (min (s + g) (length tx)) tx) (seg_starts g (a + g) b)) =
        subslice (a + g) (min (length tx) (round_up g b)) tx" by simp
    moreover have "a + g \<le> round_up g b"
    proof -
      have "g dvd round_up g b - a" using 1 round_up_nat(3) [of g b] by (simp add: dvd_diff_nat)
      moreover have "a < round_up g b" using False 1 round_up_nat(1) [of g b] by simp
      ultimately have "g \<le> round_up g b - a" by (intro dvd_imp_le) simp_all
      with \<open>a < round_up g b\<close> show ?thesis by linarith
    qed
    ultimately have split: "concat (map (\<lambda>s. subslice s (min (s + g) (length tx)) tx) (seg_starts g a b)) =
        subslice a (min (a + g) (length tx)) tx @ subslice (a + g) (min (length tx) (round_up g b)) tx"
      and up: "a + g \<le> round_up g b"
      using False 1(2) by (simp_all add: seg_starts_Cons)
    show ?thesis
    proof (cases "a + g \<le> length tx")
      case True
      then show ?thesis unfolding split using up by (simp add: min_absorb1 subslice_append)
    next
      case False
      then show ?thesis unfolding split using up by (simp add: subslice_def min_def)
    qed
  qed
qed

section \<open>Segments are always sendable\<close>

lemma seg_bounds:
  assumes "valid_config (cfg e)"
  shows "256 \<le> seg e" and "seg e \<le> 1424" and "0 < seg e"
  using assms unfolding valid_config_def by linarith+

lemma NewCommon_simps [simp]:
  "PacketType (NewCommon t s d i) = t" "SenderID (NewCommon t s d i) = i"
  "SourcePort (NewCommon t s d i) = s" "DestinationPort (NewCommon t s d i) = d"
  "length (AckBytes (NewCommon t s d i)) = 3"
  by (simp_all add: NewCommon_def)

definition sendable :: "packet \<Rightarrow> bool" where
  "sendable p \<longleftrightarrow> wf_packet p \<and> type_matches p \<and> \<not> ack_overflow p \<and>
     length (payload_of p) \<le> maxInt - own_size p"

lemma sendable_Marshal: "sendable p \<Longrightarrow> Marshal (Val p) = Inr (layout p)"
  unfolding sendable_def by (meson Marshal_Inr_iff)

lemma data_segment_sendable:
  assumes "valid_config (cfg e)"
  shows "sendable (Data (data_segment e r start b))"
  using seg_bounds [OF assms]
  by (simp add: sendable_def wf_packet_def data_segment_def Let_def common_hdr_def maxInt_def size_defs)

text \<open>What \<^verbatim>\<open>send\<close> does with a packet the endpoint built: it is queued, or counted as dropped.\<close>

definition packet_out :: "endpoint \<Rightarrow> addr \<Rightarrow> packet \<Rightarrow> u8 \<Rightarrow> outgoingPacket" where
  "packet_out e peer p priority =
     \<lparr>o_data = layout p, o_peer = IP peer, o_priority = priority,
      o_origin = map_of (rpcs e) \<lparr>key_peer = peer, key_id = SenderID (Header p)\<rparr>,
      o_typ = PacketType (Header p)\<rparr>"

lemma send_sendable:
  assumes "sendable p" and "unat priority < 8" and "wf_channels (outbound e)"
  shows "send peer p priority e =
    (None, case enqueue (outbound e) (unat priority) (packet_out e peer p priority) of
             Some qs \<Rightarrow> e\<lparr>outbound := qs, wake := True\<rparr> | None \<Rightarrow> count_dropped e)"
  using assms sendable_Marshal [OF assms(1)]
  by (simp add: send_def Let_def packet_out_def wf_channels_def numPriorities_def split: option.split)

lemma sendSegment_None:
  assumes "valid_config (cfg e)" and "wf_channels (outbound e)" and "unat priority < 8"
  shows "fst (sendSegment p start b priority e) = None"
  using assms by (simp add: sendSegment_def Let_def send_sendable data_segment_sendable upd_st_def)

section \<open>sendNew and resend run over the segment starts\<close>

definition send_segments :: "nat \<Rightarrow> bool \<Rightarrow> u8 \<Rightarrow> nat list \<Rightarrow> endpoint \<Rightarrow> endpoint" where
  "send_segments p retransmit priority starts e =
     fold (\<lambda>s e. snd (sendSegment p s retransmit priority e)) starts e"

interpretation bk_segments: bookkeeping "send_segments p retransmit priority starts"
  for p retransmit priority starts
proof unfold_locales
  show "core (send_segments p retransmit priority starts e) = core e" for e
    by (induction starts arbitrary: e) (simp_all add: send_segments_def bk_segment.core)
  show "wf_channels (outbound e) \<Longrightarrow>
      wf_channels (outbound (send_segments p retransmit priority starts e))" for e
    by (induction starts arbitrary: e) (simp_all add: send_segments_def bk_segment.channels)
qed

text \<open>A segment does not depend on how much is marked as sent.\<close>

lemma sendSegment_upd_sent:
  "sendSegment p s b pr (upd_rpc p (\<lambda>r. r\<lparr>r_sent := n\<rparr>) e) =
   apsnd (upd_rpc p (\<lambda>r. r\<lparr>r_sent := n\<rparr>)) (sendSegment p s b pr e)"
proof (cases "p < length (heap e)")
  case True
  then show ?thesis
    by (auto simp: sendSegment_def Let_def data_segment_def common_hdr_def send_def upd_rpc_def upd_st_def
        count_dropped_def split: sum.split option.split)
next
  case False
  then have "upd_rpc p f e' = e'" if "heap e' = heap e" for f e'
    using that by (simp add: upd_rpc_def list_update_beyond)
  then show ?thesis using bk_segment.fields(4) [of p s b pr e] by (cases "sendSegment p s b pr e") simp
qed

lemma upd_sent_sent [simp]:
  "upd_rpc p (\<lambda>r. r\<lparr>r_sent := n\<rparr>) (upd_rpc p (\<lambda>r. r\<lparr>r_sent := m\<rparr>) e) = upd_rpc p (\<lambda>r. r\<lparr>r_sent := n\<rparr>) e"
  by (cases "p < length (heap e)") (simp_all add: upd_rpc_def list_update_beyond)

definition sent_after :: "nat \<Rightarrow> rpc \<Rightarrow> nat" where
  "sent_after g r = (if r_granted r \<le> r_sent r then r_sent r
     else min (length (r_tx r)) (round_up g (r_granted r)))"

lemma sent_after_step:
  assumes "0 < g" and "g dvd r_sent r" and "r_sent r < r_granted r" and "r_granted r \<le> length (r_tx r)"
  shows "sent_after g (r\<lparr>r_sent := min (r_sent r + g) (length (r_tx r))\<rparr>) = sent_after g r"
proof (cases "r_granted r \<le> min (r_sent r + g) (length (r_tx r))")
  case True
  with assms have "round_up g (r_granted r) \<le> r_sent r + g" by (intro round_up_le) simp_all
  moreover have "r_sent r + g \<le> round_up g (r_granted r)"
  proof -
    have "g dvd round_up g (r_granted r) - r_sent r"
      using assms round_up_nat(3) [of g "r_granted r"] by (simp add: dvd_diff_nat)
    moreover have less: "r_sent r < round_up g (r_granted r)"
      using assms round_up_nat(1) [of g "r_granted r"] by simp
    ultimately have "g \<le> round_up g (r_granted r) - r_sent r" by (intro dvd_imp_le) simp_all
    with less show ?thesis by linarith
  qed
  ultimately show ?thesis using True assms by (simp add: sent_after_def)
next
  case False
  then show ?thesis using assms by (auto simp: sent_after_def)
qed

lemma upd_rpc_cong: "f (heap e ! p) = g (heap e ! p) \<Longrightarrow> upd_rpc p f e = upd_rpc p g e"
  by (simp add: upd_rpc_def)

lemma upd_sent_same: "heap e ! p = r \<Longrightarrow> upd_rpc p (\<lambda>x. x\<lparr>r_sent := r_sent r\<rparr>) e = e"
  by (auto simp: upd_rpc_def)

lemma sendNew_loop_eq:
  assumes "valid_config (cfg e)" and "wf_channels (outbound e)" and "p < length (heap e)"
    and "heap e ! p = r" and "unat (r_priority r) < 8" and "r_granted r \<le> length (r_tx r)"
    and "seg e dvd r_sent r \<or> r_sent r = length (r_tx r)" and "r_granted r - r_sent r \<le> fuel"
  shows "sendNew_loop fuel p e =
    (None, send_segments p False (r_priority r) (seg_starts (seg e) (r_sent r) (r_granted r))
      (upd_rpc p (\<lambda>x. x\<lparr>r_sent := sent_after (seg e) r\<rparr>) e))"
  using assms
proof (induction fuel arbitrary: e r)
  case 0
  then show ?case by (simp add: send_segments_def sent_after_def upd_sent_same)
next
  case (Suc fuel)
  show ?case
  proof (cases "r_sent r < r_granted r")
    case False
    then show ?thesis using Suc.prems by (simp add: send_segments_def sent_after_def upd_sent_same)
  next
    case True
    let ?a = "min (r_sent r + seg e) (length (r_tx r))"
    let ?r = "r\<lparr>r_sent := ?a\<rparr>" and ?e1 = "upd_rpc p (\<lambda>r. r\<lparr>r_sent := ?a\<rparr>) e"
    let ?e2 = "snd (sendSegment p (r_sent r) False (r_priority r) ?e1)"
    note g = seg_bounds(3) [OF Suc.prems(1)]
    have dvd: "seg e dvd r_sent r" using True Suc.prems by auto
    have cfg: "cfg ?e2 = cfg e" "heap ?e2 ! p = ?r" "length (heap ?e2) = length (heap e)"
      using Suc.prems by (simp_all add: bk_segment.fields)
    have "wf_channels (outbound ?e2)"
      using Suc.prems by (simp add: bk_segment.channels)
    moreover have "seg e dvd ?a \<or> ?a = length (r_tx r)" using dvd by (simp add: min_def)
    moreover have "r_granted r - ?a \<le> fuel" using True g Suc.prems by auto
    ultimately have rest: "sendNew_loop fuel p ?e2 =
      (None, send_segments p False (r_priority r) (seg_starts (seg e) ?a (r_granted r))
        (upd_rpc p (\<lambda>x. x\<lparr>r_sent := sent_after (seg e) ?r\<rparr>) ?e2))"
      using Suc.IH [of ?e2 ?r] Suc.prems cfg by simp
    have "fst (sendSegment p (r_sent r) False (r_priority r) ?e1) = None"
      using Suc.prems by (simp add: sendSegment_None)
    moreover have "upd_rpc p (\<lambda>x. x\<lparr>r_sent := min (r_sent r + seg e) (length (r_tx x))\<rparr>) e = ?e1"
      using Suc.prems by (intro upd_rpc_cong) simp
    ultimately have "sendNew_loop (Suc fuel) p e = sendNew_loop fuel p ?e2"
      using True Suc.prems
      by (cases "sendSegment p (r_sent r) False (r_priority r) ?e1") (simp add: Let_def)
    also note rest
    also have "sent_after (seg e) ?r = sent_after (seg e) r"
      using g dvd True Suc.prems by (simp add: sent_after_step)
    also have "seg_starts (seg e) ?a (r_granted r) = seg_starts (seg e) (r_sent r + seg e) (r_granted r)"
      using Suc.prems by (simp add: seg_starts_min)
    finally show ?thesis
      using g True by (simp add: seg_starts_Cons send_segments_def sendSegment_upd_sent)
  qed
qed

lemma sendNew_eq:
  assumes "valid_config (cfg e)" and "wf_channels (outbound e)" and "p < length (heap e)"
    and "heap e ! p = r" and "unat (r_priority r) < 8" and "r_granted r \<le> length (r_tx r)"
    and "seg e dvd r_sent r \<or> r_sent r = length (r_tx r)"
  shows "sendNew p e =
    (None, send_segments p False (r_priority r) (seg_starts (seg e) (r_sent r) (r_granted r))
      (upd_rpc p (\<lambda>x. x\<lparr>r_sent := sent_after (seg e) r\<rparr>) e))"
  using assms by (simp add: sendNew_def sendNew_loop_eq)

lemma resend_loop_eq:
  assumes "valid_config (cfg e)" and "end \<le> length (r_tx (heap e ! p))" and "end - at \<le> fuel"
  shows "resend_loop fuel p at end priority e =
    send_segments p True priority (seg_starts (seg e) at end) e"
  using assms
proof (induction fuel arbitrary: at e)
  case 0
  then show ?case by (simp add: send_segments_def)
next
  case (Suc fuel)
  let ?e = "snd (sendSegment p at True priority e)"
  show ?case
  proof (cases "at < end")
    case True
    have "resend_loop fuel p (at + seg e) end priority ?e =
        send_segments p True priority (seg_starts (seg e) (at + seg e) end) ?e"
      using Suc True seg_bounds(3) [of e] by (subst Suc.IH) (auto simp: bk_segment.fields)
    then show ?thesis
      using True Suc.prems seg_bounds(3) [of e]
      by (simp add: seg_starts_Cons send_segments_def bk_segment.fields)
  qed (simp add: send_segments_def)
qed

lemma resend_range_eq:
  assumes "valid_config (cfg e)" and "r_sent (heap e ! p) \<le> length (r_tx (heap e ! p))"
  shows "resend_range p start end priority e =
    send_segments p True priority
      (seg_starts (seg e) ((start div seg e) * seg e) (min end (r_sent (heap e ! p)))) e"
  unfolding resend_range_def Let_def using assms by (intro resend_loop_eq diff_le_self) simp_all

section \<open>sendNew and the invariant\<close>

text \<open>What holds of an RPC when \<^verbatim>\<open>sendNew\<close> is called on it.\<close>

definition tx_ready :: "config \<Rightarrow> rpc \<Rightarrow> bool" where
  "tx_ready c r \<longleftrightarrow> r_tx r \<noteq> [] \<and> int (length (r_tx r)) \<le> MaxMessageSize c \<and> 0 < r_granted r \<and>
     r_granted r \<le> length (r_tx r) \<and> unat (r_priority r) < 8 \<and>
     (nat (SegmentBytes c) dvd r_sent r \<or> r_sent r = length (r_tx r)) \<and>
     r_sent r \<le> min (length (r_tx r)) (round_up (nat (SegmentBytes c)) (r_granted r))"

definition mark_sent :: "nat \<Rightarrow> endpoint \<Rightarrow> endpoint" where
  "mark_sent p e = upd_rpc p (\<lambda>r. r\<lparr>r_sent := sent_after (seg e) r\<rparr>) e"

lemma sent_after_all:
  assumes "tx_ready c r" and "0 < nat (SegmentBytes c)"
  shows "sent_after (nat (SegmentBytes c)) r =
    min (length (r_tx r)) (round_up (nat (SegmentBytes c)) (r_granted r))"
proof (cases "r_granted r \<le> r_sent r \<and> r_sent r \<noteq> length (r_tx r)")
  case True
  then have "round_up (nat (SegmentBytes c)) (r_granted r) \<le> r_sent r"
    using assms by (intro round_up_le) (auto simp: tx_ready_def)
  with True assms show ?thesis by (simp add: sent_after_def tx_ready_def)
qed (use assms in \<open>auto simp: sent_after_def tx_ready_def\<close>)

lemma tx_ready_ok:
  assumes "tx_ready c r" and "0 < nat (SegmentBytes c)"
  shows "tx_ok c (r\<lparr>r_sent := sent_after (nat (SegmentBytes c)) r\<rparr>)"
  using assms sent_after_all [OF assms] by (simp add: tx_ok_def tx_ready_def)

lemma sendNew_ready:
  assumes "valid_config (cfg e)" and "wf_channels (outbound e)" and "p < length (heap e)"
    and "tx_ready (cfg e) (heap e ! p)"
  shows "sendNew p e = (None, send_segments p False (r_priority (heap e ! p))
    (seg_starts (seg e) (r_sent (heap e ! p)) (r_granted (heap e ! p))) (mark_sent p e))"
proof -
  have "mark_sent p e = upd_rpc p (\<lambda>x. x\<lparr>r_sent := sent_after (seg e) (heap e ! p)\<rparr>) e"
    unfolding mark_sent_def by (rule upd_rpc_cong) simp
  then show ?thesis using assms by (subst sendNew_eq) (auto simp: tx_ready_def)
qed

lemma mark_sent_fields [simp]: "cfg (mark_sent p e) = cfg e" "outbound (mark_sent p e) = outbound e"
  "length (heap (mark_sent p e)) = length (heap e)"
  by (simp_all add: mark_sent_def)

lemma inv_sendNew:
  assumes "inv_with s (mark_sent p e)" and "p < length (heap e)" and "tx_ready (cfg e) (heap e ! p)"
  shows "fst (sendNew p e) = None" and "inv_with s (snd (sendNew p e))"
  using assms(1) by (simp_all add: sendNew_ready [OF _ _ assms(2,3)] inv_with_def [of s "mark_sent p e"]
      bk_segments.inv_kept [OF assms(1)])

end
