(* ===== verification/Endpoint_Ops.thy ===== *)
theory Endpoint_Ops
  imports Transmit
begin

unbundle bit_operations_syntax

text \<open>
  Preservation of the endpoint's invariant by every critical section of \<^verbatim>\<open>endpoint.go\<close>: granting,
  starting and ending handlers, receiving each kind of packet, the timer, the writer and the API.
\<close>

section \<open>Granting\<close>

lemma inv_rx_Some:
  assumes "inv_with s e" and "p < length (heap e)" and "r_rx (heap e ! p) = Some a"
  shows "live e p" and "r_tx (heap e ! p) = []" and "\<not> r_handling (heap e ! p)" and "wf_assembly a"
    and "0 < length (a_data a)" and "int (length (a_data a)) \<le> MaxMessageSize (cfg e)"
    and "a_granted a \<le> length (a_data a)" and "p \<notin> fst ` set (handlers e)"
    and "r_received (heap e ! p) \<Longrightarrow> complete a"
proof -
  have ok: "rpc_ok (cfg e) (live e p) (heap e ! p)" by (rule inv_rpc_ok) fact+
  with assms(3) show "wf_assembly a" "0 < length (a_data a)" "\<not> r_handling (heap e ! p)"
    "int (length (a_data a)) \<le> MaxMessageSize (cfg e)" "a_granted a \<le> length (a_data a)"
    "r_tx (heap e ! p) = []" "r_received (heap e ! p) \<Longrightarrow> complete a"
    by (auto simp: rpc_ok_def rx_ok_def)
  then show "live e p" "p \<notin> fst ` set (handlers e)"
    using ok assms(3) inv_handlers [OF assms(1), of p] by (auto simp: rpc_ok_def cost_def rx_bytes_def)
qed

lemma inv_set_rx:
  assumes inv: "inv_with s e" and p: "p < length (heap e)" and rx: "r_rx (heap e ! p) = Some a"
    and wf: "wf_assembly b" and data: "length (a_data b) = length (a_data a)"
    and bits: "length (a_bits b) = length (a_bits a)" and gr: "a_granted b \<le> length (a_data b)"
    and c: "r_received (heap e ! p) \<Longrightarrow> complete b"
  shows "inv_with s (upd_rpc p (\<lambda>r. r\<lparr>r_rx := Some b\<rparr>) e)"
proof (rule inv_upd_rpc [OF inv p])
  note facts = inv_rx_Some [OF inv p rx]
  show "rpc_ok (cfg e) (live e p) ((heap e ! p)\<lparr>r_rx := Some b\<rparr>)"
    using inv_rpc_ok [OF inv p] facts wf data gr c
    by (auto simp: rpc_ok_def rx_ok_def tx_ok_def result_ok_def split: option.splits)
  show "s = s + int (cost (heap e ! p)) - int (cost ((heap e ! p)\<lparr>r_rx := Some b\<rparr>))"
    using rx data bits by (simp add: cost_def rx_bytes_def)
  show "p \<in> fst ` set (handlers e) \<Longrightarrow> r_handling ((heap e ! p)\<lparr>r_rx := Some b\<rparr>) \<and>
      r_tx ((heap e ! p)\<lparr>r_rx := Some b\<rparr>) = []"
    using facts by simp
qed simp

lemma complete_granted [simp]: "complete (a\<lparr>a_granted := g\<rparr>) = complete a"
  by (simp add: complete_def)

lemma inv_grant_loop:
  "inv e \<Longrightarrow> \<forall>p \<in> set ps. p < length (heap e) \<Longrightarrow> inv (grant_loop rank ps e)"
proof (induction rank ps e rule: grant_loop.induct)
  case (2 rank p ps e)
  show ?case
  proof (cases "int rank \<ge> Overcommit (cfg e)")
    case False
    show ?thesis
    proof (cases "r_rx (heap e ! p)")
      case None
      then show ?thesis using 2 False by simp
    next
      case (Some a)
      let ?fin = "min (length (a_data a)) (a_count a + nat (GrantWindow (cfg e)))"
      let ?e = "upd_rpc p (\<lambda>r. r\<lparr>r_rx := Some (a\<lparr>a_granted := ?fin\<rparr>)\<rparr>) e"
      have "inv ?e"
        using 2 inv_rx_Some [OF "2.prems"(1) _ Some]
        by (intro inv_set_rx [OF _ _ Some]) (simp_all add: wf_assembly_granted)
      then show ?thesis
        using 2(2,3) Some False "2.prems"
        by (auto simp: Let_def bk_send_ignore.inv_kept bk_send_ignore.fields)
    qed
  qed (use 2 in simp)
qed simp

lemma map_filter_lookup: "p \<in> set (List.map_filter (map_of xs) ks) \<Longrightarrow> \<exists>k. map_of xs k = Some p"
  by (auto simp: List.map_filter_def)

lemma inv_schedule: "inv e \<Longrightarrow> inv (schedule e)"
proof -
  assume "inv e"
  then have inv: "inv (snd (range_keys e))" by (rule bk_range.inv_kept)
  have "p < length (heap e)" if "p \<in> set (List.map_filter (map_of (rpcs e)) ks)" for p ks
    using map_filter_lookup [OF that] inv_lookup [OF \<open>inv e\<close>] by blast
  then show ?thesis
    unfolding schedule_def Let_def split_beta
    by (intro inv_grant_loop [OF inv]) (auto simp: bk_range.fields)
qed

section \<open>Handlers\<close>

text \<open>Handing the request of \<open>p\<close> to a worker.\<close>

definition started :: "nat \<Rightarrow> assembly \<Rightarrow> endpoint \<Rightarrow> endpoint" where
  "started p a e =
     e\<lparr>workers := workers e + 1, handlers := handlers e @ [(p, a_data a)],
       heap := (heap e)[p := (heap e ! p)\<lparr>r_handling := True, r_rx := None, r_cancel := Some False\<rparr>],
       st := (st e)\<lparr>BufferedBytes := BufferedBytes (st e) - int (length (a_bits a)),
                   HandledRequests := HandledRequests (st e) + 1\<rparr>\<rparr>"

lemma startHandler_eq:
  "startHandler p e =
     (case r_rx (heap e ! p) of
        None \<Rightarrow> e
      | Some a \<Rightarrow>
         if r_handling (heap e ! p) then e
         else let (now, e) = time_now e in
           if \<not> now < r_deadline (heap e ! p) then finish p [] (Some DeadlineExceeded) e
           else if int (workers e) \<ge> HandlerWorkers (cfg e) then e
           else started p a e)"
  by (auto simp: startHandler_def Let_def started_def time_now_def add_buffered_def upd_rpc_def upd_st_def
      split: option.splits)

lemma inv_started:
  assumes inv: "inv_with s e" and p: "p < length (heap e)" and rx: "r_rx (heap e ! p) = Some a"
    and rec: "r_received (heap e ! p)" and room: "int (workers e) < HandlerWorkers (cfg e)"
  shows "inv_with s (started p a e)"
proof (rule inv_withI)
  note facts = inv_rx_Some [OF inv p rx]
  let ?r = "(heap e ! p)\<lparr>r_handling := True, r_rx := None, r_cancel := Some False\<rparr>"
  have keys: "r_key ((heap e)[p := ?r] ! q) = r_key (heap e ! q)" for q
    using p by (cases "q = p") simp_all
  have live: "live (started p a e) q = live e q" for q
    by (simp add: live_def started_def keys)
  show "table_ok (started p a e)"
    using inv by (auto simp: inv_with_def table_ok_def started_def keys)
  have "rpc_ok (cfg e) (live e p) ?r"
    using inv_rpc_ok [OF inv p] facts rec
    by (auto simp: rpc_ok_def rx_ok_def tx_ok_def result_ok_def split: option.splits)
  then show "heap_ok (started p a e)"
    unfolding heap_ok_def live using inv_rpc_ok [OF inv] p by (auto simp: started_def nth_list_update)
  show "handlers_ok (started p a e)"
    using inv facts room p
    by (auto simp: inv_with_def handlers_ok_def started_def nth_list_update)
  show "cutoffs_ok (started p a e)"
    using inv by (simp add: inv_with_def cutoffs_ok_def started_def)
  have "cost ?r = 0" "cost (heap e ! p) = length (a_data a) + length (a_bits a)"
    using facts rx by (simp_all add: cost_def rx_bytes_def)
  then show "BufferedBytes (st (started p a e)) = owned (started p a e) + s"
    using inv sum_cost_upd [OF p, of ?r] by (simp add: inv_with_def owned_def started_def)
  show "BufferedBytes (st (started p a e)) \<le> MaxBufferedBytes (cfg (started p a e))"
    using inv by (simp add: inv_with_def started_def)
qed (use inv in \<open>simp_all add: inv_with_def started_def\<close>)

lemma inv_startHandler:
  assumes "inv e" and "p < length (heap e)" and "r_received (heap e ! p)"
  shows "inv (startHandler p e)"
proof -
  have "inv (snd (time_now e))" using assms(1) by (rule bk_time.inv_kept)
  then show ?thesis
    using assms
    by (auto simp: startHandler_eq Let_def split_beta bk_time.fields not_le
        intro!: inv_finish inv_started split: option.split)
qed

interpretation waiting: rpc_body start_waiting
  by unfold_locales (simp add: start_waiting_def Let_def inv_startHandler)

text \<open>The response of a handler: the account shrinks by the request, then grows by the response.\<close>

lemma unsched_bound:
  shows "unat (unsched e ip n) < 8"
proof -
  have "unat (cutoff_scan vs m i) < 8" if "i \<le> 8" for vs m i
    using that by (induction vs m i rule: cutoff_scan.induct) (auto simp: unat_of_nat)
  then show ?thesis by (simp add: unsched_def)
qed

lemma inv_handler_left:
  assumes inv: "inv e" and i: "i < length (handlers e)" and h: "handlers e ! i = (p, payload)"
  defines "e' \<equiv> add_buffered (- int (length payload))
    (e\<lparr>handlers := take i (handlers e) @ drop (Suc i) (handlers e), workers := workers e - 1\<rparr>)"
  shows "inv e'" and "p < length (heap e)" and "r_handling (heap e ! p)" and "r_tx (heap e ! p) = []"
    and "p \<notin> fst ` set (handlers e')"
proof -
  have split: "handlers e = take i (handlers e) @ (p, payload) # drop (Suc i) (handlers e)"
    using i h id_take_nth_drop [OF i] by simp
  have "(p, payload) \<in> set (handlers e)" using i h by (metis nth_mem)
  then show facts: "p < length (heap e)" "r_handling (heap e ! p)" "r_tx (heap e ! p) = []"
    using inv_handlers [OF inv, of p] by force+
  have dist: "distinct (map fst (handlers e))" using inv by (simp add: inv_parts)
  then show "p \<notin> fst ` set (handlers e')"
    by (subst (asm) split) (auto simp: e'_def)
  have live: "live e' q = live e q" for q by (simp add: live_def e'_def)
  have sum: "sum_list (map (length \<circ> snd) (handlers e)) =
      sum_list (map (length \<circ> snd) (handlers e')) + length payload"
    by (subst split) (simp add: e'_def)
  have "handlers_ok e'"
  proof -
    have sub: "set (handlers e') \<subseteq> set (handlers e)" by (auto simp: e'_def dest: in_set_takeD in_set_dropD)
    have "distinct (map fst (handlers e'))" using dist by (subst (asm) split) (auto simp: e'_def)
    with sub i inv show ?thesis by (fastforce simp: inv_with_def handlers_ok_def e'_def)
  qed
  moreover have "BufferedBytes (st e') = owned e'"
    using inv sum by (simp add: inv_with_def owned_def e'_def)
  ultimately show "inv e'"
    using inv by (simp add: inv_with_def table_ok_def heap_ok_def cutoffs_ok_def live) (simp add: e'_def)
qed

lemma upd_upd [simp]: "upd_rpc p f (upd_rpc p g e) = upd_rpc p (\<lambda>r. f (g r)) e"
  by (cases "p < length (heap e)") (simp_all add: upd_rpc_def list_update_beyond)

lemma time_upd: "snd (time_now (upd_rpc p f e)) = upd_rpc p f (snd (time_now e))"
  by (simp add: time_now_def upd_rpc_def)

lemma mark_sent_upd: "mark_sent p (upd_rpc p f e) =
    upd_rpc p (\<lambda>r. (f r)\<lparr>r_sent := sent_after (seg e) (f r)\<rparr>) e"
  by (simp add: mark_sent_def)

lemma granted_prefix:
  assumes "valid_config c" and "xs \<noteq> []"
  shows "0 < min (length xs) (nat (UnscheduledBytes c))"
  using assms by (simp add: valid_config_def)

definition with_response :: "config \<Rightarrow> bytes \<Rightarrow> u8 \<Rightarrow> int \<Rightarrow> rpc \<Rightarrow> rpc" where
  "with_response c response pr now r =
     r\<lparr>r_tx := response, r_granted := min (length response) (nat (UnscheduledBytes c)),
       r_priority := pr, r_last := now\<rparr>"

lemma inv_response:
  fixes now :: int
  assumes inv: "inv e" and p: "p < length (heap e)" and live: "live e p"
    and hd: "r_handling (heap e ! p)" and tx: "r_tx (heap e ! p) = []"
    and free: "p \<notin> fst ` set (handlers e)" and nonempty: "response \<noteq> []"
    and room: "BufferedBytes (st e) + int (length response) \<le> MaxBufferedBytes (cfg e)"
    and len: "int (length response) \<le> MaxMessageSize (cfg e)" and pr: "unat pr < 8"
  defines "e' \<equiv> upd_rpc p (with_response (cfg e) response pr now) (add_buffered (int (length response)) e)"
  shows "fst (sendNew p e') = None" and "inv (snd (sendNew p e'))"
proof -
  let ?f = "with_response (cfg e) response pr now"
  have ok: "rpc_ok (cfg e) True (heap e ! p)" using inv_rpc_ok [OF inv p] live by simp
  then have sent: "r_sent (heap e ! p) = 0" and rx: "r_rx (heap e ! p) = None"
    using hd tx by (auto simp: rpc_ok_def rx_ok_def split: option.splits)
  have vc: "valid_config (cfg e)" using inv by (simp add: inv_with_def)
  have ready: "tx_ready (cfg e) (?f (heap e ! p))"
    using nonempty len sent pr granted_prefix [OF vc nonempty] by (simp add: tx_ready_def with_response_def)
  let ?g = "\<lambda>r. (?f r)\<lparr>r_sent := sent_after (seg e) (?f r)\<rparr>"
  have "inv (upd_rpc p ?g (add_buffered (int (length response)) e))"
  proof (rule inv_upd_rpc)
    show "inv_with (int (length response)) (add_buffered (int (length response)) e)"
      using inv room by (simp add: inv_add_buffered)
    have "tx_ok (cfg e) (?g (heap e ! p))"
      using tx_ready_ok [OF ready] seg_bounds(3) [OF vc] by simp
    then show "rpc_ok (cfg (add_buffered (int (length response)) e))
        (live (add_buffered (int (length response)) e) p) (?g (heap (add_buffered (int (length response)) e) ! p))"
      using ok rx hd nonempty live
      by (auto simp: with_response_def rpc_ok_def rx_ok_def result_ok_def split: option.splits)
  qed (use p free tx rx in \<open>simp_all add: with_response_def cost_def rx_bytes_def\<close>)
  then have "inv (mark_sent p e')" by (simp add: e'_def mark_sent_upd)
  with ready p show "fst (sendNew p e') = None" and "inv (snd (sendNew p e'))"
    by (simp_all add: inv_sendNew e'_def)
qed

lemma handler_reply_eq:
  "handler_reply p response e =
     (if closed e \<or> \<not> live e p \<or> response = [] \<or> int (length response) > MaxMessageSize (cfg e) then e
      else if BufferedBytes (st e) + int (length response) > MaxBufferedBytes (cfg e) then e
      else for_rpcs start_waiting
        (case sendNew p (upd_rpc p (with_response (cfg e) response
                (unsched e (IP (key_peer (r_key (heap e ! p)))) (length response)) (clock e (ticks e)))
              (add_buffered (int (length response)) (snd (time_now e)))) of
           (None, e) \<Rightarrow> e | (Some err, e) \<Rightarrow> remove p e))"
proof -
  let ?n = "int (length response)"
  let ?f = "\<lambda>r. r\<lparr>r_tx := response,
      r_granted := min (length response) (nat (UnscheduledBytes (cfg (add_buffered ?n e)))),
      r_priority := unsched (add_buffered ?n e) (IP (key_peer (r_key r))) (length response)\<rparr>"
  let ?t = "time_now (upd_rpc p ?f (add_buffered ?n e))"
  have "snd ?t = upd_rpc p ?f (add_buffered ?n (snd (time_now e)))" "fst ?t = clock e (ticks e)"
    by (simp_all add: time_now_def upd_rpc_def add_buffered_def upd_st_def)
  moreover have "unsched (add_buffered ?n e) ip m = unsched e ip m" for ip m by (simp add: unsched_def)
  ultimately have "upd_rpc p (\<lambda>r. r\<lparr>r_last := fst ?t\<rparr>) (snd ?t) =
      upd_rpc p (with_response (cfg e) response
        (unsched e (IP (key_peer (r_key (heap e ! p)))) (length response)) (clock e (ticks e)))
        (add_buffered ?n (snd (time_now e)))"
    by (simp, intro upd_rpc_cong) (simp add: with_response_def bk_time.fields)
  then show ?thesis
    by (simp add: handler_reply_def Let_def split_beta reserve_def not_less cong: option.case_cong)
qed

lemma inv_handler_reply:
  assumes inv: "inv e" and p: "p < length (heap e)" and hd: "r_handling (heap e ! p)"
    and tx: "r_tx (heap e ! p) = []" and free: "p \<notin> fst ` set (handlers e)"
  shows "inv (handler_reply p response e)"
proof (cases "closed e \<or> \<not> live e p \<or> response = [] \<or> int (length response) > MaxMessageSize (cfg e) \<or>
    BufferedBytes (st e) + int (length response) > MaxBufferedBytes (cfg e)")
  case True
  then show ?thesis using inv by (auto simp: handler_reply_eq)
next
  case False
  have "inv (snd (time_now e))" by (rule bk_time.inv_kept [OF inv])
  from inv_response [OF this, of p response "unsched e (IP (key_peer (r_key (heap e ! p)))) (length response)"
      "clock e (ticks e)"] False p hd tx free
  show ?thesis
    by (simp add: handler_reply_eq bk_time.fields bk_time.live_kept unsched_bound split_beta waiting.for_inv)
qed

lemma inv_handler_done:
  assumes "inv e" and "i < length (handlers e)"
  shows "inv (handler_done i response e)"
proof -
  obtain p payload where h: "handlers e ! i = (p, payload)" by force
  note left = inv_handler_left [OF assms h]
  have "inv (handler_reply p response (add_buffered (- int (length payload))
      (e\<lparr>handlers := take i (handlers e) @ drop (Suc i) (handlers e), workers := workers e - 1\<rparr>)))"
    using left by (intro inv_handler_reply) simp_all
  then show ?thesis by (simp add: handler_done_def h Let_def inv_cancel)
qed

end
