(* ===== verification/Endpoint_Recv.thy ===== *)
theory Endpoint_Recv
  imports Endpoint_Ops
begin

unbundle bit_operations_syntax

text \<open>
  Preservation of the endpoint's invariant by the receive path: acknowledgements, DATA up to the
  delivery of a complete message, and every other kind of packet.
\<close>

section \<open>Acknowledgements\<close>

lemma ack_target_server: "x AND 1 = 0 \<Longrightarrow> (x XOR 1) AND 1 = (1 :: u64)"
proof -
  have "(x XOR 1) AND 1 = (x AND 1) XOR 1" by (rule bit_eqI) (auto simp: bit_simps)
  then show "x AND 1 = 0 \<Longrightarrow> (x XOR 1) AND 1 = 1" by simp
qed

lemma inv_visit_remove:
  assumes "inv e" and "is_server k"
  shows "inv (visit remove k e)"
  using assms inv_lookup [OF assms(1), of k]
  by (auto simp: visit_def intro!: inv_remove split: option.split)

lemma inv_ack_rpc:
  assumes "inv e"
  shows "inv (ack_rpc ip a e)"
proof -
  have "inv (snd (range_keys e))" using assms by (rule bk_range.inv_kept)
  then show ?thesis
    using assms
    by (auto simp: ack_rpc_def Let_def split_beta find_Some_iff ack_target_server
        intro!: inv_visit_remove split: option.split)
qed

lemma inv_acks: "inv e \<Longrightarrow> inv (fold (ack_rpc ip) as e)"
  by (induction as arbitrary: e) (simp_all add: inv_ack_rpc)

section \<open>DATA\<close>

lemma zero_rpc_ok:
  assumes "is_server k"
  shows "rpc_ok c True ((zero_rpc k)\<lparr>r_deadline := d, r_last := t\<rparr>)"
    and "cost ((zero_rpc k)\<lparr>r_deadline := d, r_last := t\<rparr>) = 0" and "r_key (zero_rpc k) = k"
  using assms by (simp_all add: zero_rpc_def rpc_ok_def rx_ok_def tx_ok_def result_ok_def cost_def rx_bytes_def)

lemma data_rpc_inv:
  assumes inv: "inv e" and res: "data_rpc key e = (r, e')"
  shows "inv e'" and "cfg e' = cfg e"
    and "r = Some p \<Longrightarrow> p < length (heap e') \<and> live e' p \<and> r_key (heap e' ! p) = key"
proof -
  let ?e = "snd (time_now (snd (time_now e)))"
  have tm: "inv ?e" by (rule bk_time.inv_kept [OF bk_time.inv_kept [OF inv]])
  show "inv e'"
  proof (cases "map_of (rpcs e) key = None \<and> \<not> (is_client key \<or> \<not> has_handler e \<or> int (length (rpcs e)) \<ge> MaxRPCs (cfg e))")
    case True
    then have "is_server key" by (simp add: server_iff)
    note z = zero_rpc_ok [OF this]
    let ?r = "\<lambda>d t. (zero_rpc key)\<lparr>r_deadline := d, r_last := t\<rparr>"
    have "inv (?e\<lparr>heap := heap ?e @ [?r d t], rpcs := AList.update (r_key (?r d t)) (length (heap ?e)) (rpcs ?e)\<rparr>)"
      for d t
      using True by (intro inv_alloc [OF tm] z(1)) (simp_all add: z(2,3) bk_time.fields del: cost_untouched)
    then show ?thesis using True res by (auto simp: data_rpc_def Let_def split_beta z(3))
  next
    case False
    then show ?thesis using inv res by (auto simp: data_rpc_def split: option.splits)
  qed
  show "cfg e' = cfg e"
    using res by (auto simp: data_rpc_def Let_def split_beta bk_time.fields split: option.splits if_splits)
  show "r = Some p \<Longrightarrow> p < length (heap e') \<and> live e' p \<and> r_key (heap e' ! p) = key"
    using res inv_lookup [OF inv, of key]
    by (auto simp: data_rpc_def Let_def split_beta bk_time.fields live_def update_conv' zero_rpc_def
        split: option.splits if_splits)
qed

lemma data_cutoffs_inv: "inv e \<Longrightarrow> p < length (heap e) \<Longrightarrow> inv (data_cutoffs p peer d e)"
  by (simp add: data_cutoffs_def Let_def split_beta bk_time.inv_kept bk_send_ignore.inv_kept
      inv_upd_untouched bk_time.fields)

lemma data_cutoffs_rpc:
  fixes e p peer d
  defines "e' \<equiv> data_cutoffs p peer d e"
  assumes "p < length (heap e)"
  shows "length (heap e') = length (heap e)" and "cfg e' = cfg e" and "live e' q = live e q"
    and "r_key (heap e' ! p) = r_key (heap e ! p)" and "r_received (heap e' ! p) = r_received (heap e ! p)"
  using assms(2)
  by (simp_all add: e'_def data_cutoffs_def Let_def split_beta bk_time.fields bk_send_ignore.fields
      bk_send_ignore.live_kept bk_time.live_kept live_upd_rpc)

lemma data_buffer_new:
  assumes inv: "inv e" and p: "p < length (heap e)" and live: "live e p" and key: "r_key (heap e ! p) = key"
    and rec: "\<not> r_received (heap e ! p)" and rx: "r_rx (heap e ! p) = None"
    and n: "n = unat (MessageLength d)"
    and room: "BufferedBytes (st e) + int (n + (n + 7) div 8) \<le> MaxBufferedBytes (cfg e)"
  shows "data_buffer p key d e = (True,
    upd_rpc p (\<lambda>r. r\<lparr>r_rx := Some (new_assembly n (unat (Incoming d))), r_tx := []\<rparr>)
      (add_buffered (int (n + (n + 7) div 8) - int (length (r_tx (heap e ! p)))) e))"
proof -
  have add: "add_buffered a (upd_rpc p f (add_buffered b e)) = upd_rpc p f (add_buffered (b + a) e)" for a b f
    by (simp add: add_buffered_def upd_st_def upd_rpc_def algebra_simps)
  show ?thesis
  proof (cases "is_client key")
    case True
    then show ?thesis using rx room p n
      by (simp add: data_buffer_def Let_def reserve_def add)
  next
    case False
    then have "r_tx (heap e ! p) = []"
      using inv_rpc_ok [OF inv p] live key rec by (auto simp: rpc_ok_def server_iff)
    with False rx room p n show ?thesis
      by (simp add: data_buffer_def Let_def reserve_def, intro upd_rpc_cong) (cases "heap e ! p", simp)
  qed
qed

lemma data_buffer_inv:
  assumes inv: "inv e" and p: "p < length (heap e)" and live: "live e p" and key: "r_key (heap e ! p) = key"
    and rec: "\<not> r_received (heap e ! p)"
    and len: "0 < unat (MessageLength d)" "int (unat (MessageLength d)) \<le> MaxMessageSize (cfg e)"
    and inc: "unat (Incoming d) \<le> unat (MessageLength d)" and res: "data_buffer p key d e = (ok, e')"
  shows "inv e'" and "cfg e' = cfg e"
    and "ok \<Longrightarrow> p < length (heap e') \<and> live e' p \<and> r_key (heap e' ! p) = key \<and> \<not> r_received (heap e' ! p)"
proof -
  let ?n = "unat (MessageLength d)"
  have ok0: "rpc_ok (cfg e) True (heap e ! p)" using inv_rpc_ok [OF inv p] live by simp
  consider (old) a where "r_rx (heap e ! p) = Some a"
    | (full) "r_rx (heap e ! p) = None" "reserve (int (?n + (?n + 7) div 8)) e = None"
    | (new) "r_rx (heap e ! p) = None"
        "BufferedBytes (st e) + int (?n + (?n + 7) div 8) \<le> MaxBufferedBytes (cfg e)"
    by (cases "r_rx (heap e ! p)"; force simp: reserve_def)
  then have "inv e' \<and> cfg e' = cfg e \<and>
    (ok \<longrightarrow> p < length (heap e') \<and> live e' p \<and> r_key (heap e' ! p) = key \<and> \<not> r_received (heap e' ! p))"
  proof cases
    case old
    then show ?thesis using assms by (simp add: data_buffer_def)
  next
    case full
    then show ?thesis using res inv p key
      by (auto simp: data_buffer_def Let_def inv_remove split: if_splits) (simp_all add: remove_eq)
  next
    case new
    let ?b = "add_buffered (int (?n + (?n + 7) div 8) - int (length (r_tx (heap e ! p)))) e"
    let ?f = "\<lambda>r. r\<lparr>r_rx := Some (new_assembly ?n (unat (Incoming d))), r_tx := []\<rparr>"
    have e': "e' = upd_rpc p ?f ?b" using data_buffer_new [OF inv p live key rec new(1) refl new(2)] res by simp
    have nh: "\<not> r_handling (heap e ! p)" "p \<notin> fst ` set (handlers e)"
      using ok0 rec inv_handlers [OF inv, of p] by (auto simp: rpc_ok_def)
    have "inv e'" unfolding e'
    proof (rule inv_upd_rpc)
      show "inv_with (int (?n + (?n + 7) div 8) - int (length (r_tx (heap e ! p)))) ?b"
        using inv new(2) by (intro inv_add_buffered) simp_all
      show "rpc_ok (cfg ?b) (live ?b p) (?f (heap ?b ! p))"
        using ok0 live key rec nh len inc new_assembly_wf [of ?n "unat (Incoming d)"]
        by (auto simp: rpc_ok_def rx_ok_def tx_ok_def result_ok_def new_assembly_def server_iff split: option.splits)
    qed (use p nh new(1) in \<open>simp_all add: cost_def rx_bytes_def new_assembly_def\<close>)
    then show ?thesis using e' p live key rec by (simp add: live_upd_rpc)
  qed
  then show "inv e'" and "cfg e' = cfg e"
    and "ok \<Longrightarrow> p < length (heap e') \<and> live e' p \<and> r_key (heap e' ! p) = key \<and> \<not> r_received (heap e' ! p)"
    by simp_all
qed

lemma data_complete_client:
  assumes inv: "inv e" and p: "p < length (heap e)" and rx: "r_rx (heap e ! p) = Some a"
    and client: "is_client key"
  shows "inv (data_complete p peer key a e)"
proof -
  note facts = inv_rx_Some [OF inv p rx]
  define pkt where "pkt = Ack \<lparr>a_common = common_hdr (upd_rpc p (\<lambda>r. r\<lparr>r_received := True\<rparr>) e)
      (r_key (heap (upd_rpc p (\<lambda>r. r\<lparr>r_received := True\<rparr>) e) ! p)) AckType, NumAcks = 0, Acks = replicate 5 no_ack\<rparr>"
  define e1 where "e1 = send_ignore peer pkt 7 (upd_rpc p (\<lambda>r. r\<lparr>r_received := True\<rparr>) e)"
  define e2 where "e2 = upd_st (\<lambda>s. s\<lparr>CompletedCalls := CompletedCalls s + 1\<rparr>)
      (add_buffered (- int (length (a_data a))) (upd_rpc p (\<lambda>r. r\<lparr>r_rx := Some (a\<lparr>a_data := []\<rparr>)\<rparr>) e1))"
  let ?r = "delivered (a_data a) None ((heap e ! p)\<lparr>r_received := True\<rparr>)"
  have dc: "data_complete p peer key a e = finish p (a_data a) None e2"
    using client by (simp add: data_complete_def Let_def e2_def e1_def pkt_def)
  have heap1: "heap e1 = (heap e)[p := (heap e ! p)\<lparr>r_received := True\<rparr>]"
    by (simp add: e1_def bk_send_ignore.fields upd_rpc_def)
  have heap2: "heap e2 = (heap e)[p := (heap e ! p)\<lparr>r_received := True, r_rx := Some (a\<lparr>a_data := []\<rparr>)\<rparr>]"
    using p by (simp add: e2_def upd_st_def upd_rpc_def heap1)
  have rest: "rpcs e2 = rpcs e" "cfg e2 = cfg e" "cutoff_table e2 = cutoff_table e" "workers e2 = workers e"
    "handlers e2 = handlers e" "BufferedBytes (st e2) = BufferedBytes (st e) - int (length (a_data a))"
    "wf_channels (outbound e2)"
    using bk_send_ignore.channels [OF inv_channels [OF inv]]
    by (simp_all add: e2_def upd_st_def e1_def bk_send_ignore.fields bk_send_ignore.channels inv_channels [OF inv])
  have live2: "live e2 p" using facts(1) p by (simp add: live_def heap2 rest)
  have ret: "finish p (a_data a) None e2 = retire p ?r e2"
    using p live2 finish_eq [of p e2 "a_data a" None]
    by (simp add: heap2 delivered_def killed_def)
  have "inv (retire p ?r e)"
    using inv p facts inv_rpc_ok [OF inv p] 
    by (intro inv_retire) (auto simp: rpc_ok_def rx_ok_def tx_ok_def result_ok_def delivered_def split: option.splits)
  then have "inv (retire p ?r e2)"
    by (rule inv_same) (use p rx facts in \<open>simp_all add: retire_def heap2 rest cost_def rx_bytes_def\<close>)
  then show ?thesis by (simp add: dc ret)
qed

lemma data_complete_inv:
  assumes inv: "inv e" and p: "p < length (heap e)" and rx: "r_rx (heap e ! p) = Some a"
    and key: "r_key (heap e ! p) = key" and c: "complete a"
  shows "inv (data_complete p peer key a e)"
proof (cases "is_client key")
  case True
  then show ?thesis by (rule data_complete_client [OF inv p rx])
next
  case False
  let ?e = "upd_rpc p (\<lambda>r. r\<lparr>r_received := True\<rparr>) e"
  note facts = inv_rx_Some [OF inv p rx]
  have "inv ?e"
  proof (rule inv_upd_rpc [OF inv p])
    show "rpc_ok (cfg e) (live e p) ((heap e ! p)\<lparr>r_received := True\<rparr>)"
      using inv_rpc_ok [OF inv p] rx c False key
      by (auto simp: rpc_ok_def rx_ok_def tx_ok_def result_ok_def server_iff split: option.splits)
  qed (use facts in simp_all)
  then have "inv (startHandler p ?e)" using p by (intro inv_startHandler) simp_all
  then show ?thesis using False by (simp add: data_complete_def Let_def inv_schedule)
qed

lemma add_segment_bits: "add_segment a start xs inc = Some b \<Longrightarrow> length (a_bits b) = length (a_bits a)"
  by (auto simp: add_segment_def Let_def split: if_splits)

lemma data_store_inv:
  assumes inv: "inv e" and p: "p < length (heap e)" and key: "r_key (heap e ! p) = key"
    and rec: "\<not> r_received (heap e ! p)" and inc: "unat (Incoming d) \<le> unat (MessageLength d)"
    and off: "unat (EffectiveOffset d) + length (Payload d) \<le> unat (MessageLength d)"
  shows "inv (data_store p peer key d e)"
proof (cases "r_rx (heap e ! p)")
  case None
  then show ?thesis using inv by (simp add: data_store_def)
next
  case (Some a)
  note facts = inv_rx_Some [OF inv p Some]
  show ?thesis
  proof (cases "length (a_data a) = unat (MessageLength d)")
    case False
    then show ?thesis using inv Some by (simp add: data_store_def bk_invalid.inv_kept)
  next
    case True
    show ?thesis
    proof (cases "add_segment a (unat (EffectiveOffset d)) (Payload d) (unat (Incoming d))")
      case None
      then show ?thesis using inv Some True by (simp add: data_store_def bk_invalid.inv_kept)
    next
      case (Some b)
      have "unat (EffectiveOffset d) + length (Payload d) \<le> length (a_data a)" using off True by simp
      note b = add_segment_Some [OF facts(4) this Some]
      have upd: "inv (upd_rpc p (\<lambda>r. r\<lparr>r_rx := Some b\<rparr>) e)"
        using b facts rec inc True
        by (intro inv_set_rx [OF inv p \<open>r_rx (heap e ! p) = Some a\<close>]) (simp_all add: add_segment_bits [OF Some])
      moreover have "complete b \<Longrightarrow> inv (data_complete p peer key b (upd_rpc p (\<lambda>r. r\<lparr>r_rx := Some b\<rparr>) e))"
        using p key by (intro data_complete_inv [OF upd]) simp_all
      ultimately show ?thesis
        using Some \<open>r_rx (heap e ! p) = Some a\<close> True by (simp add: data_store_def Let_def inv_schedule)
    qed
  qed
qed

lemma unat_max_message:
  assumes "valid_config c"
  shows "uint (of_int (MaxMessageSize c) :: u32) = MaxMessageSize c"
  using assms by (simp add: valid_config_def maxMessage_def uint_word_of_int take_bit_int_eq_self)

lemma data_bounds:
  assumes "valid_config c" and "length (Payload d) < 2 ^ 63"
    and "ValidateBounds d (of_int (MaxMessageSize c)) = None"
  shows "0 < unat (MessageLength d)" and "int (unat (MessageLength d)) \<le> MaxMessageSize c"
    and "unat (EffectiveOffset d) + length (Payload d) \<le> unat (MessageLength d)"
proof -
  have b: "0 < unat (MessageLength d)" "MessageLength d \<le> of_int (MaxMessageSize c)"
    "unat (EffectiveOffset d) + length (Payload d) \<le> unat (MessageLength d)"
    using assms(3) ValidateBounds_iff [OF assms(2), of "of_int (MaxMessageSize c)"] by simp_all
  then show "0 < unat (MessageLength d)"
    and "unat (EffectiveOffset d) + length (Payload d) \<le> unat (MessageLength d)" by simp_all
  show "int (unat (MessageLength d)) \<le> MaxMessageSize c"
    using b(2) unat_max_message [OF assms(1)] by (simp add: word_le_def)
qed

lemma inv_data_handler:
  assumes inv: "inv e" and short: "length (Payload d) < 2 ^ 63"
  shows "inv (data_handler peer key d e)"
proof (cases "ValidateBounds d (of_int (MaxMessageSize (cfg e))) \<noteq> None \<or> Payload d = [] \<or>
    Incoming d > MessageLength d")
  case True
  then show ?thesis using inv by (simp add: data_handler_def bk_invalid.inv_kept)
next
  case False
  have vc: "valid_config (cfg e)" using inv by (simp add: inv_with_def)
  have "ValidateBounds d (of_int (MaxMessageSize (cfg e))) = None" using False by simp
  note b = data_bounds [OF vc short this]
  have inc: "unat (Incoming d) \<le> unat (MessageLength d)" using False by (simp add: word_le_nat_alt not_less)
  let ?e = "ack_rpc (IP peer) (d_ack d) e"
  have inv1: "inv ?e" by (rule inv_ack_rpc [OF inv])
  have cfg: "cfg ?e = cfg e" by (rule static_fields(2)) (simp add: static_simps)
  obtain r e2 where rpc: "data_rpc key ?e = (r, e2)" by force
  note new = data_rpc_inv [OF inv1 rpc]
  show ?thesis
  proof (cases r)
    case None
    then show ?thesis using False rpc new(1) by (simp add: data_handler_def)
  next
    case (Some p)
    let ?e3 = "data_cutoffs p peer d e2"
    from new(3) [OF Some] have p: "p < length (heap e2)" "live e2 p" "r_key (heap e2 ! p) = key" by simp_all
    note keep = data_cutoffs_rpc [OF p(1), of peer d]
    have inv3: "inv ?e3" using data_cutoffs_inv [OF new(1) p(1)] .
    obtain ok e4 where buf: "data_buffer p key d ?e3 = (ok, e4)" by force
    have dh: "data_handler peer key d e = (if r_received (heap ?e3 ! p) then ?e3
        else if ok then data_store p peer key d e4 else e4)"
      using False rpc Some buf by (simp add: data_handler_def Let_def)
    show ?thesis
    proof (cases "r_received (heap ?e3 ! p)")
      case rec: False
      have "int (unat (MessageLength d)) \<le> MaxMessageSize (cfg ?e3)" using b(2) keep(2) new(2) cfg by simp
      note step = data_buffer_inv [OF inv3 _ _ _ rec b(1) this inc buf]
      have "inv e4" "ok \<Longrightarrow> p < length (heap e4) \<and> live e4 p \<and> r_key (heap e4 ! p) = key \<and> \<not> r_received (heap e4 ! p)"
        using step(1,3) p keep by simp_all
      then show ?thesis using inc b(3) by (simp add: dh rec data_store_inv)
    qed (use inv3 dh in simp)
  qed
qed

section \<open>The other packets\<close>

lemma inv_cutoffs_table:
  assumes "inv e" and "length vs = 8"
    and "map_of (cutoff_table e) ip \<noteq> None \<or> int (length (cutoff_table e)) < MaxRPCs (cfg e)"
  shows "inv (e\<lparr>cutoff_table := AList.update ip \<lparr>co_values = vs, co_version = v\<rparr> (cutoff_table e)\<rparr>)"
    (is "inv ?e")
proof -
  let ?t = "AList.update ip \<lparr>co_values = vs, co_version = v\<rparr> (cutoff_table e)"
  have "length (AList.update k x xs) = (if map_of xs k = None then Suc (length xs) else length xs)"
    for k x and xs :: "(netip \<times> cutoff) list" by (induction xs) auto
  moreover have "set (AList.update k x xs) \<subseteq> insert (k, x) (set xs)" for k x and xs :: "(netip \<times> cutoff) list"
    by (induction xs) auto
  then have "\<forall>(i, c) \<in> set ?t. length (co_values c) = 8"
    using assms(1,2) by (fastforce simp: inv_with_def cutoffs_ok_def)
  ultimately have "cutoffs_ok ?e"
    using assms by (auto simp: inv_with_def cutoffs_ok_def distinct_update)
  moreover have "live ?e q = live e q" for q by (simp add: live_def)
  ultimately show ?thesis
    using assms(1) by (simp add: inv_with_def table_ok_def heap_ok_def handlers_ok_def owned_def)
qed

interpretation bk_resend: bookkeeping "resend_range p a b priority" for p a b priority
proof unfold_locales
  have "core (resend_loop n p at end priority e) = core e" for n at "end" e
    by (induction n arbitrary: at e) (simp_all add: Let_def bk_segment.core)
  then show "core (resend_range p a b priority e) = core e" for e
    by (simp add: resend_range_def Let_def)
  have "wf_channels (outbound e) \<Longrightarrow> wf_channels (outbound (resend_loop n p at end priority e))" for n at "end" e
    by (induction n arbitrary: at e) (simp_all add: Let_def bk_segment.channels)
  then show "wf_channels (outbound e) \<Longrightarrow> wf_channels (outbound (resend_range p a b priority e))" for e
    by (simp add: resend_range_def Let_def)
qed

lemma round_up_mono: "0 < g \<Longrightarrow> n \<le> m \<Longrightarrow> round_up g n \<le> round_up g m"
  by (rule round_up_le) (use round_up_nat [of g m] in auto)

text \<open>A larger grant, whether from GRANT or implied by RESEND.\<close>

lemma inv_regrant:
  assumes inv: "inv e" and p: "p < length (heap e)" and tx: "r_tx (heap e ! p) \<noteq> []"
    and g: "r_granted (heap e ! p) \<le> g" "g \<le> length (r_tx (heap e ! p))" and pr: "unat pr < 8"
  defines "e' \<equiv> upd_rpc p (\<lambda>r. r\<lparr>r_granted := g, r_priority := pr\<rparr>) e"
  shows "fst (sendNew p e') = None" and "inv (snd (sendNew p e'))"
proof -
  let ?f = "\<lambda>r. r\<lparr>r_granted := g, r_priority := pr\<rparr>"
  have ok: "rpc_ok (cfg e) (live e p) (heap e ! p)" by (rule inv_rpc_ok [OF inv p])
  have seg: "0 < seg e" using inv seg_bounds(3) [of e] by (simp add: inv_with_def)
  have old: "int (length (r_tx (heap e ! p))) \<le> MaxMessageSize (cfg e)" "0 < r_granted (heap e ! p)"
    "r_sent (heap e ! p) = min (length (r_tx (heap e ! p))) (round_up (seg e) (r_granted (heap e ! p)))"
    using ok tx by (simp_all add: rpc_ok_def tx_ok_def)
  have ready: "tx_ready (cfg e) (?f (heap e ! p))"
    using tx old g pr round_up_mono [OF seg g(1)] round_up_nat(3) [OF seg]
    by (auto simp: tx_ready_def min_def)
  let ?g = "\<lambda>r. (?f r)\<lparr>r_sent := sent_after (seg e) (?f r)\<rparr>"
  have "inv (upd_rpc p ?g e)"
  proof (rule inv_upd_rpc [OF inv p])
    have "tx_ok (cfg e) (?g (heap e ! p))" using tx_ready_ok [OF ready] seg by simp
    then show "rpc_ok (cfg e) (live e p) (?g (heap e ! p))"
      using ok tx by (auto simp: rpc_ok_def rx_ok_def result_ok_def split: option.splits)
    show "p \<in> fst ` set (handlers e) \<Longrightarrow> r_handling (?g (heap e ! p)) \<and> r_tx (?g (heap e ! p)) = []"
      using inv_handlers [OF inv, of p] tx by simp
  qed simp_all
  then have "inv (mark_sent p e')" by (simp add: e'_def mark_sent_upd)
  with ready p show "fst (sendNew p e') = None" and "inv (snd (sendNew p e'))"
    by (simp_all add: inv_sendNew e'_def)
qed

lemma inv_receive_grant:
  assumes inv: "inv e" and r: "\<And>p. r = Some p \<Longrightarrow> p < length (heap e)"
  shows "inv (receive_grant r v e)"
proof (cases r)
  case (Some p)
  let ?g = "min (unat (g_offset v)) (length (r_tx (heap e ! p)))"
  show ?thesis
  proof (cases "unat (g_priority v) > 7 \<or> r_tx (heap e ! p) = [] \<or> unat (g_offset v) \<le> r_granted (heap e ! p)")
    case False
    have "r_granted (heap e ! p) \<le> length (r_tx (heap e ! p))"
      using False inv_rpc_ok [OF inv r [OF Some]] by (simp add: rpc_ok_def tx_ok_def)
    with False have "inv (snd (sendNew p (upd_rpc p (\<lambda>r. r\<lparr>r_granted := ?g, r_priority := g_priority v\<rparr>) e)))"
      "fst (sendNew p (upd_rpc p (\<lambda>r. r\<lparr>r_granted := ?g, r_priority := g_priority v\<rparr>) e)) = None"
      by (auto intro!: inv_regrant inv r [OF Some])
    moreover have "upd_rpc p (\<lambda>r. r\<lparr>r_granted := min (unat (g_offset v)) (length (r_tx r)), r_priority := g_priority v\<rparr>) e
        = upd_rpc p (\<lambda>r. r\<lparr>r_granted := ?g, r_priority := g_priority v\<rparr>) e"
      by (rule upd_rpc_cong) simp
    ultimately show ?thesis
      using Some False by (simp add: receive_grant_def Let_def split_beta)
  qed (use inv Some in \<open>auto simp: receive_grant_def\<close>)
qed (use inv in \<open>simp add: receive_grant_def\<close>)

lemma inv_receive_resend:
  assumes inv: "inv e" and r: "\<And>p. r = Some p \<Longrightarrow> p < length (heap e)"
  shows "inv (receive_resend key r v e)"
proof (cases r)
  case None
  then show ?thesis using inv by (simp add: receive_resend_def bk_control.inv_kept)
next
  case (Some p)
  let ?tx = "r_tx (heap e ! p)"
  show ?thesis
  proof (cases "unat (rs_priority v) > 7 \<or> ?tx = [] \<or> unat (rs_offset v) \<ge> length ?tx")
    case True
    then show ?thesis using inv Some by (auto simp: receive_resend_def Let_def bk_control.inv_kept)
  next
    case False
    define fin where "fin = (if rs_length v \<noteq> ResendAll then min (length ?tx) (unat (rs_offset v) + unat (rs_length v))
        else r_sent (heap e ! p))"
    let ?e = "resend_range p (unat (rs_offset v)) fin (rs_priority v) e"
    have inv1: "inv ?e" by (rule bk_resend.inv_kept [OF inv])
    have fin: "fin \<le> length ?tx"
      using False inv_rpc_ok [OF inv r [OF Some]] by (simp add: fin_def rpc_ok_def tx_ok_def)
    have "fin > r_granted (heap ?e ! p) \<Longrightarrow>
        inv (snd (sendNew p (upd_rpc p (\<lambda>r. r\<lparr>r_granted := fin, r_priority := rs_priority v\<rparr>) ?e)))"
      using False r [OF Some] fin by (intro inv_regrant [OF inv1]) (simp_all add: bk_resend.fields)
    then show ?thesis
      using Some False inv1
      by (simp add: receive_resend_def Let_def fin_def [symmetric] bk_control.inv_kept bk_resend.fields)
  qed
qed

lemma inv_receive_unknown:
  assumes "inv e" and "\<And>p. r = Some p \<Longrightarrow> p < length (heap e)"
  shows "inv (receive_unknown ip r e)"
  using assms by (auto simp: receive_unknown_def Let_def bk_resend.inv_kept inv_remove split: option.split)

lemma inv_receive_need_ack: "inv e \<Longrightarrow> inv (receive_need_ack peer key r e)"
  by (simp add: receive_need_ack_def Let_def bk_send_ignore.inv_kept bk_missing.inv_kept split: option.split)

lemma inv_receive_ack:
  assumes "inv e" and "\<And>p. r = Some p \<Longrightarrow> p < length (heap e) \<and> r_key (heap e ! p) = key"
  shows "inv (receive_ack ip key r v e)"
  using assms by (auto simp: receive_ack_def inv_acks inv_remove split: option.split)

lemma inv_receive_cutoffs:
  "inv e \<Longrightarrow> length (UnscheduledCutoffs v) = 8 \<Longrightarrow> inv (receive_cutoffs ip v e)"
  by (simp add: receive_cutoffs_def inv_cutoffs_table)

section \<open>A datagram\<close>

definition receivable :: "packet \<Rightarrow> bool" where
  "receivable p \<longleftrightarrow> wf_packet p \<and> length (payload_of p) < 2 ^ 63"

lemma inv_touch:
  assumes "inv e" and "\<And>q. r = Some q \<Longrightarrow> q < length (heap e)"
  shows "inv (touch h r e)"
  using assms by (auto simp: touch_def split_beta Let_def bk_time.fields
      intro!: inv_upd_untouched(1) bk_time.inv_kept split: option.split)

lemma touch_rpc [simp]:
  "length (heap (touch h r e)) = length (heap e)" "r_key (heap (touch h r e) ! q) = r_key (heap e ! q)"
  by (simp_all add: touch_def split_beta Let_def bk_time.fields heap_upd_rpc split: option.split)

lemma inv_receive:
  assumes inv: "inv e" and p: "receivable p"
  shows "inv (receive ip p e)"
proof -
  let ?key = "\<lparr>key_peer = \<lparr>IP = ip, Port = SourcePort (Header p)\<rparr>, key_id = LocalID (Header p)\<rparr>"
  let ?r = "map_of (rpcs e) ?key"
  have r: "q < length (heap e) \<and> r_key (heap e ! q) = ?key" if "?r = Some q" for q
    using inv_lookup [OF inv that] by simp
  define e1 where "e1 = touch (Header p) ?r e"
  have inv1: "inv e1" unfolding e1_def by (rule inv_touch [OF inv]) (simp add: r)
  have r1: "q < length (heap e1) \<and> r_key (heap e1 ! q) = ?key" if "?r = Some q" for q
    using r [OF that] by (simp add: e1_def)
  show ?thesis
  proof (cases p)
    case (Data d)
    then show ?thesis using inv inv1 p unfolding e1_def
      by (simp add: receive_def Let_def receivable_def inv_data_handler)
  next
    case (Grant v)
    have "inv (receive_grant ?r v e1)" by (rule inv_receive_grant [OF inv1]) (simp add: r1)
    with Grant inv show ?thesis by (simp add: receive_def Let_def e1_def)
  next
    case (Resend v)
    have "inv (receive_resend ?key ?r v e1)" by (rule inv_receive_resend [OF inv1]) (simp add: r1)
    with Resend inv show ?thesis by (simp add: receive_def Let_def e1_def)
  next
    case (RPCUnknown h)
    have "inv (receive_unknown ip ?r e1)" by (rule inv_receive_unknown [OF inv1]) (simp add: r1)
    with RPCUnknown inv show ?thesis by (simp add: receive_def Let_def e1_def)
  next
    case (Ack v)
    have "inv (receive_ack ip ?key ?r v e1)" by (rule inv_receive_ack [OF inv1]) (simp add: r1)
    with Ack inv show ?thesis by (simp add: receive_def Let_def e1_def)
  next
    case (Cutoffs c)
    have "inv (receive_cutoffs ip c e1)"
      using p Cutoffs by (intro inv_receive_cutoffs [OF inv1]) (simp add: receivable_def wf_packet_def MaxPriorities_def)
    with Cutoffs inv show ?thesis by (simp add: receive_def Let_def e1_def)
  qed (use inv inv1 in \<open>simp_all add: receive_def Let_def e1_def inv_receive_need_ack\<close>)
qed

lemma Parse_receivable: "Parse b = Inr p \<Longrightarrow> length b < 2 ^ 63 \<Longrightarrow> receivable p"
  using Parse_cases [of b p] Parse_payload [of b p] by (simp add: receivable_def less_imp_diff_less)

lemma inv_upd_st:
  assumes "inv_with s e" and "BufferedBytes (f (st e)) = BufferedBytes (st e)"
  shows "inv_with s (upd_st f e)"
  by (rule inv_same [OF assms(1)]) (use assms inv_channels [OF assms(1)] in \<open>simp_all add: upd_st_def\<close>)

lemma inv_read_packet:
  assumes "inv e" and "length b < 2 ^ 63"
  shows "inv (read_packet ip b e)"
  using assms
  by (auto simp: read_packet_def bk_invalid.inv_kept intro!: inv_receive inv_upd_st Parse_receivable split: sum.split)

section \<open>Timer and writer\<close>

lemma start_waiting_rpc:
  assumes "inv e" and "p < length (heap e)"
  shows "inv (start_waiting p e)" and "p < length (heap (start_waiting p e))"
  using assms
  by (simp_all add: start_waiting_def Let_def inv_startHandler)
    (simp add: startHandler_eq Let_def split_beta finish_eq bk_time.fields started_def split: option.split)

interpretation ranging_timer: rpc_body "timer_rpc now" for now
proof unfold_locales
  fix e p
  assume inv: "inv e" and p: "p < length (heap e)"
  note w = start_waiting_rpc [OF this]
  let ?e = "upd_rpc p (\<lambda>r. r\<lparr>r_last := now\<rparr>) (start_waiting p e)"
  have "inv ?e" by (rule inv_upd_untouched(1) [OF w])
  then show "inv (timer_rpc now p e)"
    using inv p w by (simp add: timer_rpc_def Let_def inv_finish bk_control.inv_kept bk_missing.inv_kept)
qed

lemma inv_timer_tick: "inv e \<Longrightarrow> inv (timer_tick now e)"
  by (simp add: timer_tick_def inv_schedule ranging_timer.for_inv)

lemma inv_stale: "inv e \<Longrightarrow> inv (snd (stale out e))"
  by (simp add: stale_def split_beta Let_def bk_time.inv_kept split: option.split)

lemma inv_writer_at: "inv_with s e \<Longrightarrow> inv_with s (e\<lparr>writer_at := w\<rparr>)"
  by (rule inv_same [of s e]) (simp_all add: inv_channels)

lemma inv_writer_pick: "inv e \<Longrightarrow> inv (writer_pick e)"
proof -
  assume inv: "inv e"
  have "inv (e\<lparr>outbound := qs\<rparr>)" if "dequeue (outbound e) = Some (out, qs)" for out qs
    using chan.deq_invar [OF inv_channels [OF inv] that] by (intro inv_same [OF inv]) simp_all
  then show ?thesis
    using inv by (auto simp: writer_pick_def Let_def split_beta
        intro!: inv_writer_at inv_stale bk_dropped.inv_kept split: option.split)
qed

lemma live_bound: "inv_with s e \<Longrightarrow> live e p \<Longrightarrow> p < length (heap e)"
  using inv_lookup(1) [of s e] by (simp add: live_def)

lemma inv_finish_live: "inv_with s e \<Longrightarrow> live e p \<Longrightarrow> inv_with s (finish p d x e)"
  by (simp add: inv_finish live_bound)

lemma inv_writer_wrote: "inv e \<Longrightarrow> inv (writer_wrote err e)"
  by (auto simp: writer_wrote_def Let_def intro!: inv_writer_at inv_upd_st inv_finish_live
      split: writer.split option.split)

lemma inv_writer_wakeup: "inv e \<Longrightarrow> inv (writer_wakeup e)"
  by (rule inv_same [of 0 e]) (simp_all add: writer_wakeup_def inv_channels)

lemma inv_writer_done: "inv e \<Longrightarrow> inv (writer_done e)"
  by (simp add: writer_done_def inv_writer_at)

end
