(* ===== verification/Endpoint_Progress.thy ===== *)
theory Endpoint_Progress
  imports Endpoint_Static
begin

unbundle bit_operations_syntax

text \<open>
  What one critical section can never undo. \<open>advances e e'\<close> relates the states before and after:
  RPC objects keep their key and deadline, a dead RPC stays dead and its delivered result is final,
  handler and receive flags are never reset, client keys appear in the table only through \<^verbatim>\<open>Call\<close>,
  packets are only appended to the transmit queues, and appending leaves a wake-up pending. The rules
  for the operations are collected in \<open>advance_intros\<close>; each adds one operation to a run.
\<close>

named_theorems advance_intros "operations advance the endpoint"

section \<open>The relation\<close>

definition rpc_progress :: "bool \<Rightarrow> bool \<Rightarrow> rpc \<Rightarrow> rpc \<Rightarrow> bool" where
  "rpc_progress l l' r r' \<longleftrightarrow> r_key r' = r_key r \<and> r_deadline r' = r_deadline r \<and> (l' \<longrightarrow> l) \<and>
     (r_handling r \<longrightarrow> r_handling r') \<and> (r_received r \<longrightarrow> r_received r') \<and>
     (r_result r' = r_result r \<or> l \<and> \<not> l')"

definition progress :: "endpoint \<Rightarrow> endpoint \<Rightarrow> bool" where
  "progress e e' \<longleftrightarrow> length (heap e) \<le> length (heap e') \<and> (closed e \<longrightarrow> closed e') \<and>
     (\<forall>p < length (heap e). rpc_progress (live e p) (live e' p) (heap e ! p) (heap e' ! p)) \<and>
     (\<forall>p \<in> fst ` set (handlers e'). p \<in> fst ` set (handlers e) \<or>
        (p < length (heap e) \<longrightarrow> \<not> r_handling (heap e ! p)))"

definition clients_kept :: "endpoint \<Rightarrow> endpoint \<Rightarrow> bool" where
  "clients_kept e e' \<longleftrightarrow> nextID e' = nextID e \<and>
     (\<forall>k. is_client k \<and> map_of (rpcs e) k = None \<longrightarrow> map_of (rpcs e') k = None)"

definition queues_grow :: "endpoint \<Rightarrow> endpoint \<Rightarrow> bool" where
  "queues_grow e e' \<longleftrightarrow> writer_at e' = writer_at e \<and> length (outbound e') = length (outbound e) \<and>
     (\<forall>i. \<exists>ys. outbound e' ! i = outbound e ! i @ ys) \<and>
     (wake e' \<or> wake e' = wake e \<and> outbound e' = outbound e)"

definition advances :: "endpoint \<Rightarrow> endpoint \<Rightarrow> bool" where
  "advances e e' \<longleftrightarrow> progress e e' \<and> clients_kept e e' \<and> queues_grow e e'"

lemma progress_refl [simp]: "progress e e"
  by (simp add: progress_def rpc_progress_def)

lemma rpc_progress_trans: "rpc_progress l1 l2 r1 r2 \<Longrightarrow> rpc_progress l2 l3 r2 r3 \<Longrightarrow> rpc_progress l1 l3 r1 r3"
  by (auto simp: rpc_progress_def)

lemma progress_trans:
  assumes "progress e1 e2" and "progress e2 e3"
  shows "progress e1 e3"
proof -
  have len: "length (heap e1) \<le> length (heap e2)" "length (heap e2) \<le> length (heap e3)"
    using assms by (simp_all add: progress_def)
  have "rpc_progress (live e1 p) (live e3 p) (heap e1 ! p) (heap e3 ! p)" if "p < length (heap e1)" for p
    using assms that len by (auto simp: progress_def intro: rpc_progress_trans)
  moreover have "p \<in> fst ` set (handlers e1) \<or> (p < length (heap e1) \<longrightarrow> \<not> r_handling (heap e1 ! p))"
    if h: "p \<in> fst ` set (handlers e3)" for p
  proof (cases "p \<in> fst ` set (handlers e2)")
    case True
    then show ?thesis using assms(1) unfolding progress_def by blast
  next
    case False
    then have "p < length (heap e2) \<longrightarrow> \<not> r_handling (heap e2 ! p)"
      using assms(2) h unfolding progress_def by blast
    then show ?thesis using assms(1) len unfolding progress_def rpc_progress_def by force
  qed
  ultimately show ?thesis using assms len by (simp add: progress_def)
qed

lemma queues_trans: "queues_grow e1 e2 \<Longrightarrow> queues_grow e2 e3 \<Longrightarrow> queues_grow e1 e3"
  unfolding queues_grow_def by (metis append.assoc)

lemma advances_refl [simp]: "advances e e"
  by (simp add: advances_def clients_kept_def queues_grow_def)

lemma advances_trans: "advances e1 e2 \<Longrightarrow> advances e2 e3 \<Longrightarrow> advances e1 e3"
  unfolding advances_def using progress_trans queues_trans
  by (auto simp: clients_kept_def)

section \<open>Primitive steps\<close>

text \<open>Steps that touch none of the fields the relation speaks about.\<close>

lemma advances_same:
  assumes "advances e0 e" and "heap e' = heap e" "rpcs e' = rpcs e" "nextID e' = nextID e"
    "set (handlers e') \<subseteq> set (handlers e)" "closed e \<longrightarrow> closed e'" "writer_at e' = writer_at e" "outbound e' = outbound e" "wake e' = wake e"
  shows "advances e0 e'"
proof -
  have "live e' p = live e p" for p using assms by (simp add: live_def)
  then have "advances e e'"
    using assms by (auto simp: advances_def progress_def rpc_progress_def clients_kept_def queues_grow_def)
  with assms(1) show ?thesis by (rule advances_trans)
qed

lemma advances_plain [advance_intros]:
  assumes "advances e0 e"
  shows "advances e0 (upd_st f e)" and "advances e0 (add_buffered n e)" and "advances e0 (count_invalid e)"
    and "advances e0 (count_dropped e)" and "advances e0 (snd (time_now e))"
    and "advances e0 (snd (range_keys e))" and "advances e0 (e\<lparr>workers := w\<rparr>)"
    and "advances e0 (e\<lparr>cutoff_table := c\<rparr>)"
    and "advances e0 (e\<lparr>io_closed := b\<rparr>)" and "advances e0 (e\<lparr>closed := True\<rparr>)"
  by (rule advances_same [OF assms]; simp add: upd_st_def add_buffered_def count_invalid_def
      count_dropped_def time_now_def range_keys_def)+

definition rpc_keeps :: "(rpc \<Rightarrow> rpc) \<Rightarrow> bool" where
  "rpc_keeps f \<longleftrightarrow> (\<forall>r. r_key (f r) = r_key r \<and> r_deadline (f r) = r_deadline r \<and> r_result (f r) = r_result r \<and>
     (r_handling r \<longrightarrow> r_handling (f r)) \<and> (r_received r \<longrightarrow> r_received (f r)))"

lemma advances_upd_rpc [advance_intros]:
  assumes "advances e0 e" and "rpc_keeps f"
  shows "advances e0 (upd_rpc p f e)"
proof -
  have live: "live (upd_rpc p f e) q = live e q" for q
    using assms(2) by (simp add: live_upd_rpc rpc_keeps_def)
  have "rpc_progress (live e q) (live e q) (heap e ! q) (heap (upd_rpc p f e) ! q)" for q
    using assms(2) by (simp add: rpc_progress_def heap_upd_rpc rpc_keeps_def)
  then have "advances e (upd_rpc p f e)"
    by (simp add: advances_def progress_def live clients_kept_def queues_grow_def)
  with assms(1) show ?thesis by (rule advances_trans)
qed

lemma advances_delete [advance_intros]:
  assumes "advances e0 e"
  shows "advances e0 (e\<lparr>rpcs := AList.delete k (rpcs e)\<rparr>)"
proof -
  have "live (e\<lparr>rpcs := AList.delete k (rpcs e)\<rparr>) p \<Longrightarrow> live e p" for p
    by (auto simp: live_def delete_conv split: if_splits)
  then have "advances e (e\<lparr>rpcs := AList.delete k (rpcs e)\<rparr>)"
    by (auto simp: advances_def progress_def rpc_progress_def clients_kept_def queues_grow_def delete_conv)
  with assms show ?thesis by (rule advances_trans)
qed

lemma enqueue_level:
  assumes "enqueue qs i p = Some qs'"
  shows "length qs' = length qs" and "\<exists>ys. qs' ! j = qs ! j @ ys"
  using assms
  by (cases "i < length qs"; auto simp: enqueue_def nth_list_update list_update_beyond split: if_splits)+

lemma advances_send [advance_intros]:
  assumes "advances e0 e"
  shows "advances e0 (snd (send peer p pr e))"
proof -
  have "advances e (e\<lparr>outbound := qs, wake := True\<rparr>)" if "enqueue (outbound e) i x = Some qs" for i x qs
    using enqueue_level [OF that]
    by (simp add: advances_def progress_def rpc_progress_def clients_kept_def queues_grow_def live_def)
  then have "advances e (snd (send peer p pr e))"
    by (auto simp: send_def Let_def intro!: advance_intros split: sum.split option.split)
  with assms show ?thesis by (rule advances_trans)
qed

section \<open>Operations\<close>

lemma advances_send_ignore [advance_intros]: "advances e0 e \<Longrightarrow> advances e0 (send_ignore peer p pr e)"
  by (simp add: send_ignore_def advance_intros)

lemma advances_control [advance_intros]: "advances e0 e \<Longrightarrow> advances e0 (control k t e)"
  by (simp add: control_def advance_intros)

lemma advances_segment [advance_intros]: "advances e0 e \<Longrightarrow> advances e0 (snd (sendSegment p s b pr e))"
  by (simp add: sendSegment_def Let_def advance_intros)

lemma advances_sendNew_loop: "advances e0 e \<Longrightarrow> advances e0 (snd (sendNew_loop n p e))"
proof (induction n arbitrary: e)
  case (Suc n)
  have step: "advances e0 (snd (case sendSegment p s b pr e' of (Some err, e) \<Rightarrow> (Some err, e)
      | (None, e) \<Rightarrow> sendNew_loop n p e))" if "advances e0 e'" for s b pr e'
    using Suc.IH advances_segment [OF that, of p s b pr]
    by (cases "sendSegment p s b pr e'") (auto split: option.split)
  show ?case
    using Suc.prems by (auto simp: Let_def rpc_keeps_def intro!: step advance_intros)
qed simp

lemma advances_sendNew [advance_intros]: "advances e0 e \<Longrightarrow> advances e0 (snd (sendNew p e))"
  by (simp add: sendNew_def advances_sendNew_loop)

lemma advances_resend_loop: "advances e0 e \<Longrightarrow> advances e0 (resend_loop n p a b pr e)"
  by (induction n arbitrary: a e) (simp_all add: Let_def advance_intros)

lemma advances_resend [advance_intros]: "advances e0 e \<Longrightarrow> advances e0 (resend_range p a b pr e)"
  by (simp add: resend_range_def Let_def advances_resend_loop)

lemma advances_remove [advance_intros]: "advances e0 e \<Longrightarrow> advances e0 (remove p e)"
  by (auto simp: remove_def Let_def rpc_keeps_def intro!: advance_intros split: option.split)

text \<open>A removed RPC is dead.\<close>

lemma remove_dead: "\<not> live (remove p e) p"
  by (cases "live e p"; cases "r_rx (heap e ! p)")
    (simp_all add: remove_def Let_def live_def [of _ p] heap_upd_rpc delete_conv)

lemma advances_finish [advance_intros]:
  assumes "advances e0 e"
  shows "advances e0 (finish p d x e)"
proof (cases "live e p")
  case False
  then show ?thesis using assms by (simp add: finish_def)
next
  case True
  let ?e = "remove p e"
  have adv: "advances e ?e" by (simp add: advances_remove)
  let ?f = "\<lambda>r. r\<lparr>r_result := map_option (\<lambda>q. q @ [\<lparr>res_data = d, res_err =
      map_option (\<lambda>y. \<lparr>Err = y, Sent = (r_sent (heap e ! p) > 0 \<or> r_received (heap e ! p))\<rparr>) x\<rparr>]) (r_result r)\<rparr>"
  have lv: "live (upd_rpc p ?f ?e) q = live ?e q" for q by (simp add: live_upd_rpc)
  have "rpc_progress (live e q) (live (upd_rpc p ?f ?e) q) (heap e ! q) (heap (upd_rpc p ?f ?e) ! q)"
    if "q < length (heap e)" for q
    using adv that True remove_dead [of p e]
    by (auto simp: advances_def progress_def rpc_progress_def heap_upd_rpc lv)
  then have "advances e (upd_rpc p ?f ?e)"
    using adv by (simp add: advances_def progress_def clients_kept_def queues_grow_def)
  then show ?thesis using advances_trans [OF assms] True by (simp add: finish_def Let_def)
qed

lemma advances_for_rpcs:
  assumes body: "\<And>p e. advances e0 e \<Longrightarrow> advances e0 (f p e)" and "advances e0 e"
  shows "advances e0 (for_rpcs f e)"
proof -
  have "advances e0 (fold (visit f) ks e)" if "advances e0 e" for ks e
    using that by (induction ks arbitrary: e) (simp_all add: visit_def body split: option.split)
  then show ?thesis using assms(2) by (simp add: for_rpcs_def split_beta advance_intros)
qed

lemma advances_shutdown [advance_intros]: "advances e0 e \<Longrightarrow> advances e0 (shutdown err e)"
  by (simp add: shutdown_def Let_def advances_for_rpcs advance_intros)

lemma advances_missing [advance_intros]: "advances e0 e \<Longrightarrow> advances e0 (requestMissing p e)"
  by (simp add: requestMissing_def Let_def advance_intros split: option.split)

lemma advances_grant_loop [advance_intros]: "advances e0 e \<Longrightarrow> advances e0 (grant_loop rank ps e)"
  by (induction ps arbitrary: rank e)
    (simp_all add: Let_def rpc_keeps_def advance_intros split: option.split)

lemma advances_schedule [advance_intros]: "advances e0 e \<Longrightarrow> advances e0 (schedule e)"
  by (simp add: schedule_def split_beta Let_def advance_intros)

text \<open>A handler starts only for an RPC that has not been handled before.\<close>

lemma advances_handler_added:
  assumes "advances e0 e" and "\<not> r_handling (heap e ! p)" and "advances e e'"
    and "set (handlers e') \<subseteq> set (handlers e)"
  shows "advances e0 (e'\<lparr>handlers := handlers e' @ [(p, payload)]\<rparr>)"
proof -
  let ?e = "e'\<lparr>handlers := handlers e' @ [(p, payload)]\<rparr>"
  have live: "live ?e q = live e' q" for q by (simp add: live_def)
  have "\<forall>q \<in> fst ` set (handlers ?e). q \<in> fst ` set (handlers e) \<or> (q < length (heap e) \<longrightarrow> \<not> r_handling (heap e ! q))"
    using assms(2,4) by auto
  then have "advances e ?e"
    using assms(3) by (simp add: advances_def progress_def live clients_kept_def queues_grow_def)
  with assms(1) show ?thesis by (rule advances_trans)
qed

lemma advances_startHandler [advance_intros]:
  assumes "advances e0 e"
  shows "advances e0 (startHandler p e)"
proof (cases "r_rx (heap e ! p)")
  case None
  then show ?thesis using assms by (simp add: startHandler_def)
next
  case (Some a)
  let ?e = "snd (time_now e)"
  let ?e' = "upd_st (\<lambda>s. s\<lparr>HandledRequests := HandledRequests s + 1\<rparr>)
      (upd_rpc p (\<lambda>r. r\<lparr>r_handling := True, r_rx := None, r_cancel := Some False\<rparr>)
        (add_buffered (- int (length (a_bits a))) (?e\<lparr>workers := workers ?e + 1\<rparr>)))"
  have same: "heap ?e = heap e" "handlers ?e' = handlers ?e"
    by (simp_all add: time_now_def upd_st_def upd_rpc_def add_buffered_def)
  have "advances ?e ?e'" by (simp add: rpc_keeps_def advance_intros)
  then have "\<not> r_handling (heap e ! p) \<Longrightarrow> advances e0 (?e'\<lparr>handlers := handlers ?e' @ [(p, a_data a)]\<rparr>)"
    using assms same by (intro advances_handler_added [of e0 ?e]) (simp_all add: advance_intros)
  then show ?thesis
    using assms Some by (simp add: startHandler_def Let_def split_beta advance_intros)
qed

lemma advances_start_waiting [advance_intros]: "advances e0 e \<Longrightarrow> advances e0 (start_waiting p e)"
  by (simp add: start_waiting_def Let_def advance_intros)

lemma advances_handler_reply [advance_intros]: "advances e0 e \<Longrightarrow> advances e0 (handler_reply p response e)"
  by (auto simp: handler_reply_def Let_def split_beta reserve_def rpc_keeps_def
      intro!: advances_for_rpcs advance_intros split: option.split)

lemma advances_handler_done [advance_intros]:
  assumes "advances e0 e"
  shows "advances e0 (handler_done i response e)"
proof -
  have "advances e0 (e\<lparr>handlers := take i (handlers e) @ drop (Suc i) (handlers e), workers := workers e - 1\<rparr>)"
    by (rule advances_same [OF assms]) (auto dest: in_set_takeD in_set_dropD)
  then show ?thesis by (simp add: handler_done_def Let_def split_beta rpc_keeps_def advance_intros)
qed

lemma advances_ack_rpc [advance_intros]: "advances e0 e \<Longrightarrow> advances e0 (ack_rpc ip a e)"
  by (simp add: ack_rpc_def Let_def split_beta visit_def advance_intros split: option.split)

lemma advances_acks [advance_intros]: "advances e0 e \<Longrightarrow> advances e0 (fold (ack_rpc ip) as e)"
  by (induction as arbitrary: e) (simp_all add: advance_intros)

text \<open>A new RPC does not touch the old ones; the receive path creates only server RPCs.\<close>

lemma live_after_alloc:
  assumes "q < length (heap e)"
  shows "live (e\<lparr>heap := heap e @ [r], rpcs := AList.update k (length (heap e)) (rpcs e)\<rparr>) q \<Longrightarrow> live e q"
  using assms by (auto simp: live_def nth_append update_conv' split: if_splits)

lemma progress_alloc:
  "progress e (e\<lparr>heap := heap e @ [r], rpcs := AList.update k (length (heap e)) (rpcs e)\<rparr>)"
  using live_after_alloc [where e = e and r = r and k = k] by (auto simp: progress_def rpc_progress_def nth_append)

lemma advances_alloc:
  assumes "advances e0 e" and "\<not> is_client key"
  shows "advances e0 (e\<lparr>heap := heap e @ [r], rpcs := AList.update key (length (heap e)) (rpcs e)\<rparr>)"
  using assms(2) progress_alloc [where e = e and r = r and k = key]
  by (intro advances_trans [OF assms(1)]) (auto simp: advances_def clients_kept_def queues_grow_def update_conv')

lemma advances_data_rpc [advance_intros]: "advances e0 e \<Longrightarrow> advances e0 (snd (data_rpc key e))"
  by (simp add: data_rpc_def Let_def split_beta advances_alloc advance_intros split: option.split)

lemma advances_data_cutoffs [advance_intros]: "advances e0 e \<Longrightarrow> advances e0 (data_cutoffs p peer d e)"
  by (simp add: data_cutoffs_def Let_def split_beta rpc_keeps_def advance_intros)

lemma advances_data_buffer [advance_intros]: "advances e0 e \<Longrightarrow> advances e0 (snd (data_buffer p key d e))"
  by (auto simp: data_buffer_def Let_def reserve_def rpc_keeps_def intro!: advance_intros split: option.split)

lemma advances_data_complete [advance_intros]: "advances e0 e \<Longrightarrow> advances e0 (data_complete p peer key a e)"
  by (simp add: data_complete_def Let_def rpc_keeps_def advance_intros)

lemma advances_data_store [advance_intros]: "advances e0 e \<Longrightarrow> advances e0 (data_store p peer key d e)"
  by (simp add: data_store_def Let_def rpc_keeps_def advance_intros split: option.split)

lemma advances_data_handler [advance_intros]: "advances e0 e \<Longrightarrow> advances e0 (data_handler peer key d e)"
  by (simp add: data_handler_def Let_def split_beta advance_intros split: option.split bool.split)

lemma advances_receive_kinds [advance_intros]:
  assumes "advances e0 e"
  shows "advances e0 (receive_grant r g e)" and "advances e0 (receive_unknown ip r e)"
    and "advances e0 (receive_need_ack peer key r e)" and "advances e0 (receive_ack ip key r v e)"
    and "advances e0 (receive_cutoffs ip c e)" and "advances e0 (receive_resend key r w e)"
    and "advances e0 (touch h r e)"
  using assms
  by (cases r; simp add: receive_grant_def receive_unknown_def receive_need_ack_def receive_ack_def touch_def
      receive_cutoffs_def receive_resend_def Let_def split_beta rpc_keeps_def advance_intros split: option.split)+

lemma advances_receive [advance_intros]: "advances e0 e \<Longrightarrow> advances e0 (receive ip p e)"
  by (cases p) (simp_all add: receive_def Let_def advance_intros)

lemma advances_reader [advance_intros]:
  assumes "advances e0 e"
  shows "advances e0 (read_packet ip b e)" and "advances e0 (read_error err e)"
  using assms by (simp_all add: read_packet_def read_error_def advance_intros split: sum.split)

lemma advances_timer_rpc [advance_intros]: "advances e0 e \<Longrightarrow> advances e0 (timer_rpc now p e)"
  by (simp add: timer_rpc_def Let_def rpc_keeps_def advance_intros)

lemma advances_timer_tick [advance_intros]: "advances e0 e \<Longrightarrow> advances e0 (timer_tick now e)"
  by (simp add: timer_tick_def advances_for_rpcs advance_intros)

lemma advances_call_cancelled [advance_intros]: "advances e0 e \<Longrightarrow> advances e0 (call_cancelled p err e)"
  by (simp add: call_cancelled_def advance_intros)

end
