(* ===== verification/Endpoint_Steps.thy ===== *)
theory Endpoint_Steps
  imports Endpoint_Recv Endpoint_Progress
begin

unbundle bit_operations_syntax

text \<open>
  The endpoint as a transition system: one event per critical section of its goroutines and of its
  API, every interleaving of them, the states reachable from \<^verbatim>\<open>New\<close>, and the invariant on them.
\<close>

section \<open>Starting a call\<close>

definition call_rpc :: "rpcKey \<Rightarrow> bytes \<Rightarrow> config \<Rightarrow> u8 \<Rightarrow> int \<Rightarrow> int \<Rightarrow> rpc" where
  "call_rpc key request c pr deadline now =
     (zero_rpc key)\<lparr>r_tx := request, r_granted := min (length request) (nat (UnscheduledBytes c)),
       r_deadline := deadline, r_last := now, r_result := Some [], r_priority := pr\<rparr>"

definition allocated :: "rpc \<Rightarrow> endpoint \<Rightarrow> endpoint" where
  "allocated r e = e\<lparr>heap := heap e @ [r], rpcs := AList.update (r_key r) (length (heap e)) (rpcs e)\<rparr>"

lemma inv_allocated_send:
  fixes deadline now :: int
  assumes inv: "inv_with (int (length request)) e" and fresh: "map_of (rpcs e) key = None"
    and room: "int (length (rpcs e)) < MaxRPCs (cfg e)" and client: "is_client key"
    and req: "request \<noteq> []" "int (length request) \<le> MaxMessageSize (cfg e)" and pr: "unat pr < 8"
  defines "e' \<equiv> allocated (call_rpc key request (cfg e) pr deadline now) e"
  shows "fst (sendNew (length (heap e)) e') = None" and "inv (snd (sendNew (length (heap e)) e'))"
proof -
  let ?r = "call_rpc key request (cfg e) pr deadline now"
  let ?s = "?r\<lparr>r_sent := sent_after (seg e) ?r\<rparr>"
  have vc: "valid_config (cfg e)" using inv by (simp add: inv_with_def)
  note seg = seg_bounds(3) [OF vc]
  have ready: "tx_ready (cfg e) ?r"
    using req pr granted_prefix [OF vc req(1)] by (simp add: tx_ready_def call_rpc_def zero_rpc_def)
  have "rpc_ok (cfg e) True ?s"
    using tx_ready_ok [OF ready seg] client
    by (simp add: rpc_ok_def rx_ok_def result_ok_def) (simp add: call_rpc_def zero_rpc_def)
  moreover have "r_key ?s = key" "int (cost ?s) = int (length request)"
    by (simp_all add: call_rpc_def zero_rpc_def cost_def rx_bytes_def)
  ultimately have "inv (e\<lparr>heap := heap e @ [?s], rpcs := AList.update (r_key ?s) (length (heap e)) (rpcs e)\<rparr>)"
    using fresh room by (intro inv_alloc [OF inv]) simp_all
  moreover have "mark_sent (length (heap e)) e' =
      e\<lparr>heap := heap e @ [?s], rpcs := AList.update (r_key ?s) (length (heap e)) (rpcs e)\<rparr>"
    by (simp add: mark_sent_def e'_def allocated_def upd_rpc_def)
  ultimately have "inv (mark_sent (length (heap e)) e')" by simp
  moreover have "tx_ready (cfg e') (heap e' ! length (heap e))" "length (heap e) < length (heap e')"
    using ready by (simp_all add: e'_def allocated_def)
  ultimately show "fst (sendNew (length (heap e)) e') = None" and "inv (snd (sendNew (length (heap e)) e'))"
    by (simp_all add: inv_sendNew)
qed

lemma next_id_even: "n AND 1 = 0 \<Longrightarrow> next_id n AND 1 = 0"
proof -
  have iff: "(m AND 1 = 0) = even m" for m :: u64 by (simp only: and_one_eq even_iff_mod_2_eq_zero)
  show "n AND 1 = 0 \<Longrightarrow> next_id n AND 1 = 0" by (simp add: iff next_id_def Let_def)
qed

text \<open>The call that passes all checks.\<close>

definition call_accepted :: "error option \<Rightarrow> addr \<Rightarrow> bytes \<Rightarrow> endpoint \<Rightarrow> bool" where
  "call_accepted ctx_err peer request e \<longleftrightarrow>
     ctx_err = None \<and> valid_peer peer \<and> request \<noteq> [] \<and> int (length request) \<le> MaxMessageSize (cfg e) \<and>
     \<not> closed e \<and> int (length (rpcs e)) < MaxRPCs (cfg e) \<and>
     BufferedBytes (st e) + int (length request) \<le> MaxBufferedBytes (cfg e)"

definition call_deadline :: "int option \<Rightarrow> int \<Rightarrow> int" where
  "call_deadline d limit = (case d of None \<Rightarrow> limit | Some x \<Rightarrow> if x < limit then x else limit)"

definition call_ready :: "bytes \<Rightarrow> endpoint \<Rightarrow> endpoint" where
  "call_ready request e =
     snd (time_now ((add_buffered (int (length request)) e)\<lparr>nextID := next_id (nextID e)\<rparr>))"

definition call_state :: "int option \<Rightarrow> addr \<Rightarrow> bytes \<Rightarrow> endpoint \<Rightarrow> endpoint" where
  "call_state d peer request e =
     allocated (call_rpc \<lparr>key_peer = peer, key_id = next_id (nextID e)\<rparr> request (cfg e)
         (unsched e (IP peer) (length request)) (call_deadline d (clock e (ticks e) + Timeout (cfg e)))
         (clock e (ticks e)))
       (call_ready request e)"

lemma call_start_accepted:
  assumes "call_accepted x peer request e"
  shows "call_start x d peer request e = (Inr (length (heap e)),
     case sendNew (length (heap e)) (call_state d peer request e) of
       (None, e') \<Rightarrow> e' | (Some err, e') \<Rightarrow> finish (length (heap e)) [] (Some err) e')"
proof -
  have "unsched (call_ready request e) ip n = unsched e ip n" for ip n
    by (simp add: unsched_def call_ready_def time_now_def)
  then show ?thesis
    using assms
    by (simp add: call_start_def call_accepted_def reserve_def call_state_def call_ready_def time_now_def
        split_beta Let_def allocated_def call_rpc_def call_deadline_def zero_rpc_def cong: option.case_cong if_cong)
qed

lemma call_start_refused:
  assumes "\<not> call_accepted x peer request e"
  shows "snd (call_start x d peer request e) = e"
    and "\<exists>err. fst (call_start x d peer request e) = Inl \<lparr>Err = err, Sent = False\<rparr>"
  using assms by (auto simp: call_start_def call_accepted_def reserve_def split: option.split)

lemma inv_call_ready:
  assumes "inv e" and "call_accepted x peer request e"
  shows "inv_with (int (length request)) (call_ready request e)"
proof -
  have "inv_with (int (length request)) (add_buffered (int (length request)) e)"
    using assms by (intro inv_add_buffered) (simp_all add: call_accepted_def)
  then have "inv_with (int (length request)) ((add_buffered (int (length request)) e)\<lparr>nextID := n\<rparr>)" for n
    by (rule inv_same) (simp_all add: inv_channels [OF assms(1)])
  then show ?thesis unfolding call_ready_def by (rule bk_time.inv_kept)
qed

lemma inv_call_start:
  assumes inv: "inv e" and fresh: "map_of (rpcs e) \<lparr>key_peer = peer, key_id = next_id (nextID e)\<rparr> = None"
    and even: "nextID e AND 1 = 0"
  shows "inv (snd (call_start x d peer request e))"
proof (cases "call_accepted x peer request e")
  case True
  have same: "heap (call_ready request e) = heap e" "rpcs (call_ready request e) = rpcs e"
    "cfg (call_ready request e) = cfg e"
    by (simp_all add: call_ready_def bk_time.fields)
  have "fst (sendNew (length (heap e)) (call_state d peer request e)) = None"
    "inv (snd (sendNew (length (heap e)) (call_state d peer request e)))"
    using True fresh next_id_even [OF even]
      inv_allocated_send [OF inv_call_ready [OF inv True], of "\<lparr>key_peer = peer, key_id = next_id (nextID e)\<rparr>"]
    by (simp_all add: call_state_def same call_accepted_def unsched_bound)
  then show ?thesis by (simp add: call_start_accepted [OF True] split_beta)
next
  case False
  then show ?thesis using inv by (simp add: call_start_refused)
qed

text \<open>The state after an accepted call: the RPC is registered and its unscheduled prefix queued.\<close>

lemma call_start_state:
  assumes "inv e" and "call_accepted x peer request e"
  shows "call_start x d peer request e = (Inr (length (heap e)),
    send_segments (length (heap e)) False (unsched e (IP peer) (length request))
      (seg_starts (seg e) 0 (min (length request) (nat (UnscheduledBytes (cfg e)))))
      (mark_sent (length (heap e)) (call_state d peer request e)))"
proof -
  let ?s = "call_state d peer request e"
  have vc: "valid_config (cfg e)" and wf: "wf_channels (outbound e)" using assms(1) by (simp_all add: inv_with_def)
  have f: "cfg ?s = cfg e" "outbound ?s = outbound e" "heap ?s ! length (heap e) =
      call_rpc \<lparr>key_peer = peer, key_id = next_id (nextID e)\<rparr> request (cfg e) (unsched e (IP peer) (length request))
        (call_deadline d (clock e (ticks e) + Timeout (cfg e))) (clock e (ticks e))"
    by (simp_all add: call_state_def allocated_def call_ready_def bk_time.fields) (simp add: time_now_def)
  have len: "length (heap e) < length (heap ?s)"
    by (simp add: call_state_def allocated_def call_ready_def bk_time.fields)
  have "tx_ready (cfg ?s) (heap ?s ! length (heap e))"
    using assms(2) granted_prefix [OF vc, of request]
    by (simp add: f tx_ready_def call_rpc_def zero_rpc_def call_accepted_def unsched_bound)
  from sendNew_ready [OF _ _ len this] vc wf show ?thesis
    by (simp add: call_start_accepted [OF assms(2)] f) (simp add: call_rpc_def zero_rpc_def)
qed

lemma inv_call_cancelled: "inv e \<Longrightarrow> inv (call_cancelled p err e)"
  by (simp add: call_cancelled_def inv_finish_live)

lemma inv_New:
  assumes "New l c h seed clk ord = Inr e"
  shows "inv e"
proof -
  obtain d where d: "defaults c = Some d" and e: "e = \<lparr>local = l, cfg = d, has_handler = h, heap = [], rpcs = [],
      cutoff_table = [], nextID = seed AND NOT 1, st = zero_stats, closed = False, io_closed = False,
      workers = 0, handlers = [], outbound = make_channels, wake = False, writer_at = WTop, clock = clk,
      ticks = 0, order = ord, ranges = 0\<rparr>"
    using assms by (auto simp: New_def split: option.splits if_splits)
  have "valid_config d" by (rule defaults_valid [OF d])
  then show ?thesis
    by (simp add: e inv_parts heap_ok_def owned_def zero_stats_def chan.invar_empty)
      (simp add: valid_config_def)
qed

section \<open>Call identifiers\<close>

definition slot :: "u64 \<Rightarrow> nat" where
  "slot x = unat x div 2"

definition idCycle :: nat where
  "idCycle = 2 ^ 63 - 1"

lemma next_id_slot:
  assumes "x AND 1 = 0"
  shows "slot (next_id x) = slot x mod idCycle + 1"
proof -
  have "x mod 2 = 0" using assms by (simp only: and_one_eq)
  then have "unat x mod 2 = 0" using unat_mod_distrib [of x 2] by simp
  then have "even (unat x)" by presburger
  then obtain k where k: "unat x = 2 * k" by (rule evenE)
  have "unat x < 2 ^ 64" using unsigned_less [of x] by simp
  then have le: "k \<le> idCycle" using k by (simp add: idCycle_def)
  show ?thesis
  proof (cases "k = idCycle")
    case True
    then have "unat (x + 2) = 0" using k by (simp add: unat_word_ariths idCycle_def)
    then have "x + 2 = 0" by (simp add: unat_eq_zero)
    then show ?thesis using True k by (simp add: next_id_def Let_def slot_def)
  next
    case False
    then have "unat (x + 2) = 2 * k + 2" using k le by (simp add: unat_word_ariths idCycle_def)
    moreover from this have "x + 2 \<noteq> 0" by (metis add_2_eq_Suc' nat.distinct(1) unat_0)
    ultimately show ?thesis using False le k by (simp add: next_id_def Let_def slot_def)
  qed
qed

lemma nth_id_slot:
  assumes "s AND 1 = 0"
  shows "(next_id ^^ n) s AND 1 = 0" and "0 < n \<Longrightarrow> slot ((next_id ^^ n) s) = (slot s + n - 1) mod idCycle + 1"
proof -
  show even: "(next_id ^^ n) s AND 1 = 0" for n by (induction n) (simp_all add: assms next_id_even)
  show "0 < n \<Longrightarrow> slot ((next_id ^^ n) s) = (slot s + n - 1) mod idCycle + 1"
  proof (induction n)
    case (Suc n)
    then show ?case
      using next_id_slot [OF even [of n]] by (cases "n = 0") (simp_all add: mod_Suc_eq)
  qed simp
qed

text \<open>Identifiers repeat only after \<open>2\<^sup>6\<^sup>3 - 1\<close> calls.\<close>

lemma nth_id_inject:
  assumes "s AND 1 = 0" and "0 < i" and "i < j" and "j < i + idCycle"
  shows "(next_id ^^ i) s \<noteq> (next_id ^^ j) s"
proof
  assume "(next_id ^^ i) s = (next_id ^^ j) s"
  then have "(slot s + i - 1) mod idCycle = (slot s + j - 1) mod idCycle"
    using nth_id_slot(2) [OF assms(1), of i] nth_id_slot(2) [OF assms(1), of j] assms by simp
  then have "idCycle dvd (slot s + j - 1) - (slot s + i - 1)"
    using assms by (metis diff_le_mono less_or_eq_imp_le mod_eq_dvd_iff_nat nat_add_left_cancel_le)
  then have "idCycle dvd j - i" using assms by (simp add: diff_diff_eq)
  then have "idCycle \<le> j - i" using assms by (intro dvd_imp_le) simp_all
  then show False using assms by linarith
qed

section \<open>Events\<close>

text \<open>One constructor per critical section: a call, the end of a call's context, \<^verbatim>\<open>Close\<close>, a datagram or
  an error from \<^verbatim>\<open>ReadPacket\<close>, a tick, the writer picking a packet, returning from \<^verbatim>\<open>WritePacket\<close>,
  being woken or stopped, and the end of the \<open>i\<close>-th running handler.\<close>

datatype event =
    CallStart "error option" "int option" addr bytes
  | CtxDone nat error
  | Close
  | Datagram netip bytes
  | ReadFailed error
  | Tick int
  | WriterTurn
  | Wrote "error option"
  | WriterWoken
  | WriterStopped
  | HandlerReturned nat bytes

fun enabled :: "event \<Rightarrow> endpoint \<Rightarrow> bool" where
  "enabled (Datagram ip b) e \<longleftrightarrow> length b \<le> 65535"
| "enabled (CtxDone p err) e \<longleftrightarrow> p < length (heap e)"
| "enabled WriterTurn e \<longleftrightarrow> writer_at e = WTop"
| "enabled (Wrote x) e \<longleftrightarrow> (case writer_at e of WWriting out \<Rightarrow> True | _ \<Rightarrow> False)"
| "enabled WriterWoken e \<longleftrightarrow> writer_at e = WSleep \<and> wake e"
| "enabled WriterStopped e \<longleftrightarrow> writer_at e = WSleep \<and> closed e"
| "enabled (HandlerReturned i response) e \<longleftrightarrow> i < length (handlers e)"
| "enabled _ e \<longleftrightarrow> True"

fun step :: "event \<Rightarrow> endpoint \<Rightarrow> endpoint" where
  "step (CallStart x d peer request) e = snd (call_start x d peer request e)"
| "step (CtxDone p err) e = call_cancelled p err e"
| "step Close e = shutdown ErrClosed e"
| "step (Datagram ip b) e = read_packet ip b e"
| "step (ReadFailed err) e = read_error err e"
| "step (Tick now) e = timer_tick now e"
| "step WriterTurn e = writer_pick e"
| "step (Wrote x) e = writer_wrote x e"
| "step WriterWoken e = writer_wakeup e"
| "step WriterStopped e = writer_done e"
| "step (HandlerReturned i response) e = handler_done i response e"

inductive run :: "endpoint \<Rightarrow> event list \<Rightarrow> endpoint \<Rightarrow> bool" where
  run_Nil: "run e [] e"
| run_snoc: "run e0 es e \<Longrightarrow> enabled ev e \<Longrightarrow> run e0 (es @ [ev]) (step ev e)"

inductive_cases run_NilE: "run e [] e'"

fun is_call :: "event \<Rightarrow> bool" where
  "is_call (CallStart x d peer request) = True"
| "is_call _ = False"

definition calls :: "event list \<Rightarrow> nat" where
  "calls es = length (filter is_call es)"

fun is_shutdown :: "event \<Rightarrow> bool" where
  "is_shutdown Close = True"
| "is_shutdown (ReadFailed err) = True"
| "is_shutdown _ = False"

lemma static_step: "\<not> is_shutdown ev \<Longrightarrow> static (step ev e) = static e"
  by (cases ev) (simp_all add: static_simps)

lemma fixed_step:
  "local (step ev e) = local e \<and> cfg (step ev e) = cfg e \<and> has_handler (step ev e) = has_handler e \<and>
   clock (step ev e) = clock e \<and> order (step ev e) = order e"
proof (cases "is_shutdown ev")
  case True
  then obtain err where "step ev e = shutdown err e" by (cases ev) (auto simp: read_error_def)
  then show ?thesis using static_shutdown [of err e] by (simp add: static_def split: if_splits)
next
  case False
  then show ?thesis using static_fields [OF static_step] by simp
qed

lemma fixed_run:
  "run e0 es e \<Longrightarrow> local e = local e0 \<and> cfg e = cfg e0 \<and> has_handler e = has_handler e0 \<and>
   clock e = clock e0 \<and> order e = order e0"
  by (induction rule: run.induct) (simp_all add: fixed_step)

section \<open>What every event keeps\<close>

lemma progress_writer_at: "progress e (e'\<lparr>writer_at := w\<rparr>) = progress e e'"
  by (simp add: progress_def live_def)

lemma clients_writer_at: "clients_kept e (e'\<lparr>writer_at := w\<rparr>) = clients_kept e e'"
  by (simp add: clients_kept_def)

lemma advances_stale [advance_intros]: "advances e0 e \<Longrightarrow> advances e0 (snd (stale out e))"
  by (simp add: stale_def split_beta Let_def advance_intros split: option.split)

lemma advancesD: "advances e e' \<Longrightarrow> progress e e' \<and> clients_kept e e'"
  by (simp add: advances_def)

lemma writer_pick_keeps: "progress e (writer_pick e) \<and> clients_kept e (writer_pick e)"
proof -
  have "progress e (snd (stale out (e\<lparr>outbound := qs\<rparr>)))" "clients_kept e (snd (stale out (e\<lparr>outbound := qs\<rparr>)))"
    "progress e (count_dropped (snd (stale out (e\<lparr>outbound := qs\<rparr>))))"
    "clients_kept e (count_dropped (snd (stale out (e\<lparr>outbound := qs\<rparr>))))" for out qs
    using advances_stale [OF advances_refl, of "e\<lparr>outbound := qs\<rparr>" out]
      advances_plain(4) [OF advances_stale [OF advances_refl, of "e\<lparr>outbound := qs\<rparr>" out]]
    by (simp_all add: advances_def progress_def clients_kept_def live_def)
  then show ?thesis
    using advancesD [OF advances_refl, of e]
    by (simp add: writer_pick_def Let_def split_beta progress_writer_at clients_writer_at split: option.split)
qed

lemma writer_wrote_keeps: "progress e (writer_wrote x e) \<and> clients_kept e (writer_wrote x e)"
proof -
  have "progress e (e'\<lparr>writer_at := w\<rparr>) \<and> clients_kept e (e'\<lparr>writer_at := w\<rparr>)" if "advances e e'" for e' w
    using advancesD [OF that] by (simp add: progress_writer_at clients_writer_at)
  then show ?thesis
    using advancesD [OF advances_refl, of e]
    by (auto simp: writer_wrote_def Let_def advance_intros split: writer.split option.split)
qed

lemma keeps_step:
  assumes "\<not> is_call ev"
  shows "progress e (step ev e)" and "clients_kept e (step ev e)"
proof -
  have "progress e (step ev e) \<and> clients_kept e (step ev e)"
  proof (cases ev)
    case WriterWoken
    then show ?thesis by (simp add: writer_wakeup_def progress_def rpc_progress_def live_def clients_kept_def)
  next
    case WriterStopped
    then show ?thesis by (simp add: writer_done_def progress_def rpc_progress_def live_def clients_kept_def)
  qed (use assms writer_pick_keeps writer_wrote_keeps in \<open>auto intro!: advancesD advance_intros\<close>)
  then show "progress e (step ev e)" and "clients_kept e (step ev e)" by simp_all
qed

lemma call_state_fields:
  "heap (call_state d peer request e) = heap e @ [call_rpc \<lparr>key_peer = peer, key_id = next_id (nextID e)\<rparr> request
     (cfg e) (unsched e (IP peer) (length request)) (call_deadline d (clock e (ticks e) + Timeout (cfg e)))
     (clock e (ticks e))]"
  "rpcs (call_state d peer request e) =
     AList.update \<lparr>key_peer = peer, key_id = next_id (nextID e)\<rparr> (length (heap e)) (rpcs e)"
  "nextID (call_state d peer request e) = next_id (nextID e)" "closed (call_state d peer request e) = closed e"
  "cfg (call_state d peer request e) = cfg e" "outbound (call_state d peer request e) = outbound e"
  "wake (call_state d peer request e) = wake e" "writer_at (call_state d peer request e) = writer_at e"
  "handlers (call_state d peer request e) = handlers e"
  by (simp_all add: call_state_def allocated_def call_ready_def call_rpc_def zero_rpc_def time_now_def)

lemma call_advances:
  assumes "call_accepted x peer request e"
  shows "advances (call_state d peer request e) (snd (call_start x d peer request e))"
proof -
  let ?s = "sendNew (length (heap e)) (call_state d peer request e)"
  have "advances (call_state d peer request e) (snd ?s)" by (simp add: advance_intros)
  then show ?thesis
    by (cases ?s) (auto simp: call_start_accepted [OF assms] advance_intros split: option.split)
qed

lemma progress_call: "progress e (snd (call_start x d peer request e))"
proof (cases "call_accepted x peer request e")
  case True
  have "progress e (call_state d peer request e)"
    using progress_alloc [where e = e and k = "\<lparr>key_peer = peer, key_id = next_id (nextID e)\<rparr>"]
    by (simp add: progress_def live_def call_state_fields)
  then show ?thesis using call_advances [OF True, of d] by (auto simp: advances_def intro: progress_trans)
qed (simp add: call_start_refused)

lemma progress_step: "progress e (step ev e)"
  by (cases "is_call ev") (cases ev, simp_all add: progress_call keeps_step)

lemma progress_run: "run e0 es e \<Longrightarrow> progress e0 e"
  by (induction rule: run.induct) (auto intro: progress_trans progress_step)

section \<open>The invariant on reachable states\<close>

definition ids_ok :: "u64 \<Rightarrow> nat \<Rightarrow> endpoint \<Rightarrow> bool" where
  "ids_ok s n e \<longleftrightarrow> nextID e = (next_id ^^ n) s \<and>
     (\<forall>k. is_client k \<and> map_of (rpcs e) k \<noteq> None \<longrightarrow> (\<exists>i. 0 < i \<and> i \<le> n \<and> key_id k = (next_id ^^ i) s))"

lemma ids_kept: "ids_ok s n e \<Longrightarrow> clients_kept e e' \<Longrightarrow> ids_ok s n e'"
  unfolding ids_ok_def clients_kept_def by metis

lemma ids_fresh:
  assumes "ids_ok s n e" and "s AND 1 = 0" and "n < idCycle"
  shows "map_of (rpcs e) \<lparr>key_peer = peer, key_id = next_id (nextID e)\<rparr> = None"
proof (rule ccontr)
  let ?k = "\<lparr>key_peer = peer, key_id = next_id (nextID e)\<rparr>"
  have id: "next_id (nextID e) = (next_id ^^ Suc n) s" using assms(1) by (simp add: ids_ok_def)
  have "is_client ?k" using nth_id_slot(1) [OF assms(2), of "Suc n"] id by simp
  moreover assume "map_of (rpcs e) ?k \<noteq> None"
  ultimately obtain i where "0 < i" "i \<le> n" "(next_id ^^ Suc n) s = (next_id ^^ i) s"
    using assms(1) id unfolding ids_ok_def by (metis rpcKey.select_convs(2))
  moreover have "Suc n < i + idCycle" using assms(3) \<open>0 < i\<close> by linarith
  ultimately show False using nth_id_inject [OF assms(2), of i "Suc n"] by simp
qed

lemma ids_call:
  assumes ids: "ids_ok s n e" and acc: "call_accepted x peer request e"
  shows "ids_ok s (Suc n) (snd (call_start x d peer request e))"
proof -
  have "ids_ok s (Suc n) (call_state d peer request e)"
    using ids unfolding ids_ok_def call_state_fields
    by (auto simp: update_conv' split: if_splits) (metis le_SucI option.distinct(1) option.exhaust funpow.simps(2) comp_apply | force)+
  then show ?thesis using call_advances [OF acc, of d] ids_kept by (auto simp: advances_def)
qed

lemma inv_step:
  assumes "inv e" and "enabled ev e" and "\<not> is_call ev"
  shows "inv (step ev e)"
  using assms
  by (cases ev) (simp_all add: inv_call_cancelled inv_shutdown inv_read_packet read_error_def inv_timer_tick
      inv_writer_pick inv_writer_wrote inv_writer_wakeup inv_writer_done inv_handler_done)

lemma reachable_inv:
  assumes new: "New l c h seed clk ord = Inr e0" and run: "run e0 es e" and bound: "calls es \<le> idCycle"
  shows "inv e \<and> (\<exists>n \<le> calls es. ids_ok (nextID e0) n e)"
  using run new bound
proof (induction rule: run.induct)
  case (run_Nil e)
  then have "nextID e = seed AND NOT 1" "rpcs e = []"
    by (auto simp: New_def split: option.splits if_splits)
  then show ?case using run_Nil inv_New by (auto simp: ids_ok_def calls_def)
next
  case (run_snoc e0 es e ev)
  have even: "nextID e0 AND 1 = 0"
  proof -
    have "nextID e0 = seed AND NOT 1" using run_snoc.prems(1) by (auto simp: New_def split: option.splits if_splits)
    moreover have "(seed AND NOT 1) AND 1 = 0" by (rule bit_eqI) (auto simp: bit_simps)
    ultimately show ?thesis by simp
  qed
  have "calls es \<le> idCycle" using run_snoc.prems(2) by (simp add: calls_def split: if_splits)
  then obtain n where inv: "inv e" and n: "n \<le> calls es" "ids_ok (nextID e0) n e"
    using run_snoc by auto
  show ?case
  proof (cases "is_call ev")
    case False
    then have "inv (step ev e)" using inv run_snoc.hyps(2) by (intro inv_step)
    moreover have "ids_ok (nextID e0) n (step ev e)" using ids_kept [OF n(2)] keeps_step(2) [OF False] by blast
    ultimately show ?thesis using n(1) False by (auto simp: calls_def)
  next
    case True
    then obtain x d peer request where ev: "ev = CallStart x d peer request" by (cases ev) simp_all
    have "n < idCycle" using n(1) run_snoc.prems(2) ev by (simp add: calls_def)
    then have "inv (step ev e)"
      using ids_fresh [OF n(2) even] nth_id_slot(1) [OF even, of n] n(2)
      by (auto simp: ev ids_ok_def intro!: inv_call_start [OF inv])
    moreover have "\<exists>m \<le> Suc n. ids_ok (nextID e0) m (step ev e)"
    proof (cases "call_accepted x peer request e")
      case True
      then show ?thesis using ids_call [OF n(2) True, of d] ev by auto
    next
      case False
      then have "ids_ok (nextID e0) n (step ev e)" using n(2) ev by (simp add: call_start_refused)
      then show ?thesis using le_SucI by blast
    qed
    moreover have "Suc n \<le> calls (es @ [ev])" using n(1) ev by (simp add: calls_def)
    ultimately show ?thesis using order_trans by blast
  qed
qed

end
