(* ===== verification/Endpoint_Sweep.thy ===== *)
theory Endpoint_Sweep
  imports Endpoint_Steps
begin

unbundle bit_operations_syntax

text \<open>
  Loops over the whole table: the timer and \<^verbatim>\<open>shutdown\<close>. Both only remove entries, and what a visit
  establishes for its entry stays true, so that it holds for all entries afterwards. The only fact
  used of Go's \<^verbatim>\<open>range\<close> is that it visits every key once.
\<close>

section \<open>Operations that only remove entries\<close>

definition shrinks :: "endpoint \<Rightarrow> endpoint \<Rightarrow> bool" where
  "shrinks e e' \<longleftrightarrow> length (heap e') = length (heap e) \<and> set (rpcs e') \<subseteq> set (rpcs e) \<and>
     (\<forall>p. r_key (heap e' ! p) = r_key (heap e ! p) \<and> r_deadline (heap e' ! p) = r_deadline (heap e ! p))"

lemma shrinks_refl [simp]: "shrinks e e"
  by (simp add: shrinks_def)

lemma shrinks_trans: "shrinks e1 e2 \<Longrightarrow> shrinks e2 e3 \<Longrightarrow> shrinks e1 e3"
  by (auto simp: shrinks_def)

named_theorems shrink_intros "operations that only remove entries"

lemma shrinks_same:
  assumes "shrinks e0 e" and "heap e' = heap e" and "rpcs e' = rpcs e"
  shows "shrinks e0 e'"
  using assms by (simp add: shrinks_def)

lemma shrinks_plain [shrink_intros]:
  assumes "shrinks e0 e"
  shows "shrinks e0 (upd_st f e)" and "shrinks e0 (add_buffered n e)" and "shrinks e0 (snd (time_now e))"
    and "shrinks e0 (snd (range_keys e))" and "shrinks e0 (e\<lparr>workers := w\<rparr>)" and "shrinks e0 (e\<lparr>handlers := hs\<rparr>)"
    and "shrinks e0 (e\<lparr>closed := b\<rparr>)" and "shrinks e0 (e\<lparr>io_closed := b\<rparr>)"
  by (rule shrinks_same [OF assms]; simp add: upd_st_def time_now_def range_keys_def)+

lemma shrinks_delete [shrink_intros]: "shrinks e0 e \<Longrightarrow> shrinks e0 (e\<lparr>rpcs := AList.delete k (rpcs e)\<rparr>)"
  by (auto simp: shrinks_def AList.delete_eq)

lemma shrinks_upd_rpc [shrink_intros]:
  assumes "shrinks e0 e" and "rpc_keeps f \<or> (\<forall>r. r_key (f r) = r_key r \<and> r_deadline (f r) = r_deadline r)"
  shows "shrinks e0 (upd_rpc p f e)"
  using assms by (auto simp: shrinks_def heap_upd_rpc rpc_keeps_def)

lemma shrinks_core: "core e' = core e \<Longrightarrow> shrinks e0 e \<Longrightarrow> shrinks e0 e'"
  using core_fields(4,5) [of e' e] by (auto intro: shrinks_same)

lemma shrinks_sends [shrink_intros]:
  assumes "shrinks e0 e"
  shows "shrinks e0 (send_ignore peer pkt pr e)" and "shrinks e0 (control k t e)" and "shrinks e0 (requestMissing p e)"
  using assms by (auto intro: shrinks_core simp: bk_send_ignore.core bk_control.core bk_missing.core)

lemma shrinks_remove [shrink_intros]: "shrinks e0 e \<Longrightarrow> shrinks e0 (remove p e)"
  by (auto simp: remove_def Let_def intro!: shrink_intros split: option.split)

lemma shrinks_finish [shrink_intros]: "shrinks e0 e \<Longrightarrow> shrinks e0 (finish p d x e)"
  by (auto simp: finish_def Let_def intro!: shrink_intros)

lemma shrinks_grant_loop [shrink_intros]: "shrinks e0 e \<Longrightarrow> shrinks e0 (grant_loop rank ps e)"
  by (induction ps arbitrary: rank e) (simp_all add: Let_def shrink_intros split: option.split)

lemma shrinks_schedule [shrink_intros]: "shrinks e0 e \<Longrightarrow> shrinks e0 (schedule e)"
  by (simp add: schedule_def split_beta Let_def shrink_intros)

lemma shrinks_startHandler [shrink_intros]: "shrinks e0 e \<Longrightarrow> shrinks e0 (startHandler p e)"
  by (simp add: startHandler_def Let_def split_beta shrink_intros split: option.split)

lemma shrinks_start_waiting [shrink_intros]: "shrinks e0 e \<Longrightarrow> shrinks e0 (start_waiting p e)"
  by (simp add: start_waiting_def Let_def shrink_intros)

lemma shrinks_timer_rpc [shrink_intros]: "shrinks e0 e \<Longrightarrow> shrinks e0 (timer_rpc now p e)"
  by (simp add: timer_rpc_def Let_def shrink_intros)

section \<open>Sweeping the table\<close>

text \<open>The only property of map iteration the proofs use.\<close>

definition fair_order :: "endpoint \<Rightarrow> bool" where
  "fair_order e \<longleftrightarrow> (\<forall>n ks. mset (order e n ks) = mset ks)"

locale rpc_sweep = rpc_body +
  fixes good :: "int \<Rightarrow> bool"
  assumes body_shrinks: "shrinks e (body p e)"
    and body_good: "inv e \<Longrightarrow> live e p \<Longrightarrow> p < length (heap e) \<Longrightarrow>
      (r_key (heap e ! p), q) \<in> set (rpcs (body p e)) \<Longrightarrow> good (r_deadline (heap e ! p))"
begin

lemma visit_shrinks: "shrinks e (visit body k e)"
  by (simp add: visit_def body_shrinks split: option.split)

lemma fold_shrinks: "shrinks e (fold (visit body) ks e)"
  by (induction ks arbitrary: e) (auto intro: shrinks_trans visit_shrinks)

lemma for_shrinks: "shrinks e (for_rpcs body e)"
proof -
  have "shrinks e (snd (range_keys e))" by (simp add: shrink_intros)
  then show ?thesis using shrinks_trans [OF _ fold_shrinks] by (simp add: for_rpcs_def split_beta)
qed

lemma visit_good:
  assumes inv: "inv e" and entry: "(k, q) \<in> set (rpcs (visit body k e))"
  shows "good (r_deadline (heap e ! q))"
proof -
  have old: "(k, q) \<in> set (rpcs e)" using visit_shrinks entry by (auto simp: shrinks_def)
  then have look: "map_of (rpcs e) k = Some q" using inv by (simp add: inv_parts)
  note facts = inv_lookup [OF inv look]
  from entry have "(r_key (heap e ! q), q) \<in> set (rpcs (body q e))"
    using look facts by (simp add: visit_def)
  then show ?thesis using body_good [OF inv facts(3,1)] by blast
qed

lemma fold_good:
  assumes "inv e" and "(k, q) \<in> set (rpcs (fold (visit body) ks e))" and "k \<in> set ks"
  shows "good (r_deadline (heap e ! q))"
  using assms
proof (induction ks arbitrary: e)
  case (Cons k' ks)
  have inv: "inv (visit body k' e)" by (rule visit_inv [OF Cons.prems(1)])
  have same: "r_deadline (heap (visit body k' e) ! q) = r_deadline (heap e ! q)"
    using visit_shrinks [of e k'] by (simp add: shrinks_def)
  show ?case
  proof (cases "k \<in> set ks")
    case True
    then show ?thesis using Cons.IH [OF inv] Cons.prems(2) same by simp
  next
    case False
    then have "k = k'" using Cons.prems(3) by simp
    moreover have "(k, q) \<in> set (rpcs (visit body k' e))"
      using Cons.prems(2) fold_shrinks [of "visit body k' e" ks] by (auto simp: shrinks_def)
    ultimately show ?thesis using visit_good [OF Cons.prems(1)] by simp
  qed
qed simp

lemma sweep:
  assumes "inv e" and "fair_order e" and "(k, q) \<in> set (rpcs (for_rpcs body e))"
  shows "good (r_deadline (heap e ! q))" and "(k, q) \<in> set (rpcs e)"
proof -
  let ?ks = "fst (range_keys e)" and ?e = "snd (range_keys e)"
  have f: "for_rpcs body e = fold (visit body) ?ks ?e" by (simp add: for_rpcs_def split_beta)
  have same: "heap ?e = heap e" "rpcs ?e = rpcs e" by (simp_all add: bk_range.fields)
  show old: "(k, q) \<in> set (rpcs e)"
    using assms(3) fold_shrinks [of ?e ?ks] by (auto simp: f shrinks_def same)
  have "mset ?ks = mset (map fst (rpcs e))" using assms(2) by (simp add: range_keys_def fair_order_def)
  then have "set ?ks = fst ` set (rpcs e)" by (metis list.set_map set_mset_mset)
  then have "k \<in> set ?ks" using old by force
  then show "good (r_deadline (heap e ! q))"
    using fold_good [OF bk_range.inv_kept [OF assms(1)]] assms(3) by (simp add: f same)
qed

end

lemma finish_gone: "live e p \<Longrightarrow> p < length (heap e) \<Longrightarrow> (r_key (heap e ! p), q) \<notin> set (rpcs (finish p d x e))"
  by (simp add: finish_eq retire_def AList.delete_eq)

interpretation expiry: rpc_sweep "timer_rpc now" "\<lambda>d. now < d" for now
proof unfold_locales
  show "shrinks e (timer_rpc now p e)" for e p by (simp add: shrink_intros)
  show "now < r_deadline (heap e ! p)"
    if "live e p" "p < length (heap e)" "(r_key (heap e ! p), q) \<in> set (rpcs (timer_rpc now p e))" for e p q
    using that finish_gone [OF that(1,2)] by (rule_tac ccontr) (simp add: timer_rpc_def)
qed

interpretation closing: rpc_sweep "\<lambda>p. finish p d x" "\<lambda>_. False" for d x
  by unfold_locales (auto simp: shrink_intros dest: finish_gone)

lemma timer_tick_expires:
  assumes "inv e" and "fair_order e" and "\<not> closed e" and "(k, q) \<in> set (rpcs (timer_tick now e))"
  shows "now < r_deadline (heap (timer_tick now e) ! q)"
proof -
  let ?e = "for_rpcs (timer_rpc now) e"
  have t: "timer_tick now e = schedule ?e" using assms(3) by (simp add: timer_tick_def)
  have s: "shrinks ?e (schedule ?e)" by (simp add: shrink_intros)
  then have "(k, q) \<in> set (rpcs ?e)" using assms(4) by (auto simp: t shrinks_def)
  from expiry.sweep(1) [OF assms(1,2) this] have "now < r_deadline (heap e ! q)" .
  moreover have "shrinks e ?e" by (rule expiry.for_shrinks)
  ultimately show ?thesis using s by (simp add: t shrinks_def)
qed

lemma shutdown_empties:
  assumes inv: "inv e" and fair: "fair_order e" and "\<not> closed e"
  shows "rpcs (shutdown err e) = []"
proof -
  have "inv (e\<lparr>closed := True\<rparr>)" by (rule inv_same [OF inv]) (simp_all add: inv_channels [OF inv])
  moreover have "fair_order (e\<lparr>closed := True\<rparr>)" using fair by (simp add: fair_order_def)
  ultimately have "(k, q) \<notin> set (rpcs (for_rpcs (\<lambda>p. finish p [] (Some err)) (e\<lparr>closed := True\<rparr>)))" for k q
    using closing.sweep(1) by blast
  then have "set (rpcs (for_rpcs (\<lambda>p. finish p [] (Some err)) (e\<lparr>closed := True\<rparr>))) = {}"
    by (simp only: subset_empty [symmetric] subset_iff split_paired_All) simp
  then show ?thesis using assms(3) by (simp add: shutdown_def Let_def)
qed

section \<open>A closed endpoint has no RPCs\<close>

lemma closed_step:
  assumes "closed e" and "rpcs e = []"
  shows "rpcs (step ev e) = []"
proof -
  have dead: "\<not> live e' p" if "rpcs e' = []" for e' p using that by (simp add: live_def)
  show ?thesis
  proof (cases ev)
    case (CallStart x d peer request)
    then show ?thesis using assms by (simp add: call_start_refused call_accepted_def)
  next
    case (Wrote x)
    then show ?thesis
      using assms by (auto simp: writer_wrote_def Let_def upd_st_def live_def split: writer.split option.split)
  next
    case (HandlerReturned i response)
    then show ?thesis using assms by (simp add: handler_done_def Let_def split_beta handler_reply_def)
  qed (use assms in \<open>simp_all add: call_cancelled_def dead shutdown_def read_packet_def read_error_def
      timer_tick_def writer_pick_def writer_wakeup_def writer_done_def\<close>)
qed

lemma closed_empty:
  assumes "New l c h seed clk ord = Inr e0" and "run e0 es e" and "calls es \<le> idCycle"
    and "\<forall>n ks. mset (ord n ks) = mset ks" and "closed e"
  shows "rpcs e = []"
  using assms(2,1,3-5)
proof (induction rule: run.induct)
  case (run_Nil e)
  then show ?case by (auto simp: New_def split: option.splits if_splits)
next
  case (run_snoc e0 es e ev)
  have calls: "calls es \<le> idCycle" using run_snoc.prems(2) by (simp add: calls_def split: if_splits)
  show ?case
  proof (cases "closed e")
    case True
    then show ?thesis using run_snoc calls closed_step by blast
  next
    case False
    have inv: "inv e" using reachable_inv [OF run_snoc.prems(1) run_snoc.hyps(1) calls] by simp
    have "order e0 = ord" using run_snoc.prems(1) by (auto simp: New_def split: option.splits if_splits)
    then have "fair_order e" using fixed_run [OF run_snoc.hyps(1)] run_snoc.prems(3) by (simp add: fair_order_def)
    moreover have "is_shutdown ev" using static_fields(6) [OF static_step] False run_snoc.prems(4) by blast
    then obtain err where "step ev e = shutdown err e" by (cases ev) (auto simp: read_error_def)
    ultimately show ?thesis using shutdown_empties [OF inv] False by simp
  qed
qed

end
