(* ===== verification/Endpoint_Props.thy ===== *)
theory Endpoint_Props
  imports Endpoint_Sweep "HOL-Library.Code_Target_Numeral"
begin

unbundle bit_operations_syntax

text \<open>
  Properties of an endpoint in every interleaving of its goroutines: the invariant, exact byte
  accounting, exactly one result per call, at most one handler per request, deadlines, shutdown and
  wake-ups of the writer.
\<close>

section \<open>A sample endpoint\<close>

definition sample_local :: addr where
  "sample_local = \<lparr>IP = V4 0x0A000001, Port = 4000\<rparr>"

definition sample_peer :: addr where
  "sample_peer = \<lparr>IP = V4 0x0A000002, Port = 4001\<rparr>"

definition sample_endpoint :: endpoint where
  "sample_endpoint =
     (case New sample_local zero_config True 7 (\<lambda>n. int n * Millisecond) (\<lambda>_ ks. ks) of Inr e \<Rightarrow> e)"

lemma sample_New:
  "New sample_local zero_config True 7 (\<lambda>n. int n * Millisecond) (\<lambda>_ ks. ks) = Inr sample_endpoint"
proof -
  obtain d where d: "defaults zero_config = Some d"
    by (cases "defaults zero_config") (simp add: defaults_def Let_def with_defaults_def zero_config_def fill_def
        invalid_config_def maxMessage_def duration_defs)
  have "\<not> (\<not> Is4 (IP sample_local) \<or> Port sample_local = 0)" "\<not> (True \<and> Port sample_local \<ge> 32768)"
    by (simp_all add: sample_local_def)
  with d show ?thesis by (simp add: sample_endpoint_def New_def)
qed

text \<open>A call from the sample endpoint, and the runs the examples below use.\<close>

definition sample_call :: event where
  "sample_call = CallStart None None sample_peer [1, 2, 3]"

lemma sample_run: "run sample_endpoint [sample_call] (step sample_call sample_endpoint)"
  using run_snoc [OF run_Nil, of sample_call sample_endpoint] by (simp add: sample_call_def)

lemma sample_fields:
  "heap sample_endpoint = []" "rpcs sample_endpoint = []" "handlers sample_endpoint = []"
  "closed sample_endpoint = False" "st sample_endpoint = zero_stats" "nextID sample_endpoint = 6"
  "MaxMessageSize (cfg sample_endpoint) = 1000000" "MaxRPCs (cfg sample_endpoint) = 128"
  "MaxBufferedBytes (cfg sample_endpoint) = 67108864"
  by (simp_all add: sample_endpoint_def New_def sample_local_def defaults_def Let_def with_defaults_def
      zero_config_def fill_def invalid_config_def maxMessage_def duration_defs)

lemma sample_accepted: "call_accepted None sample_peer [1, 2, 3] sample_endpoint"
  by (simp add: call_accepted_def sample_fields valid_peer_def sample_peer_def limitedBroadcast_def zero_stats_def)

lemma sample_called:
  "length (heap (step sample_call sample_endpoint)) = 1" "live (step sample_call sample_endpoint) 0"
  "r_key (heap (step sample_call sample_endpoint) ! 0) = \<lparr>key_peer = sample_peer, key_id = 8\<rparr>"
  using call_start_state [OF inv_New [OF sample_New] sample_accepted]
  by (simp_all add: sample_call_def bk_segments.fields bk_segments.live_kept mark_sent_def sample_fields
      call_state_def allocated_def call_ready_def call_rpc_def zero_rpc_def live_upd_rpc next_id_def bk_time.fields)
    (simp add: live_def)

lemma sample_calls: "calls [sample_call] \<le> idCycle" "calls [sample_call, Close] \<le> idCycle"
  "calls [sample_call, Tick n] \<le> idCycle"
  by (simp_all add: calls_def sample_call_def idCycle_def)

section \<open>The invariant\<close>

text \<open>C2. In every state an endpoint reaches from \<^verbatim>\<open>New\<close> by any interleaving of calls, cancellations,
  datagrams, ticks, writes and handler returns, as long as fewer than \<open>2\<^sup>6\<^sup>3\<close> calls were made: the table
  and the RPC objects agree, dead RPCs own nothing, receive buffers are well formed, everything granted
  has been queued for transmission and nothing more, running handlers match the worker slots, and the
  byte account is exact and within its limit.\<close>

theorem endpoint_invariant:
  assumes "New l c h seed clk ord = Inr e0" and "run e0 es e" and "calls es \<le> idCycle"
  shows "inv e"
  using reachable_inv [OF assms] by simp

theorem endpoint_invariant_witness: "inv (step sample_call sample_endpoint)"
  using endpoint_invariant [OF sample_New sample_run] sample_calls by simp

section \<open>Byte accounting\<close>

lemma pointers_distinct:
  assumes "table_ok e"
  shows "distinct (map snd (rpcs e))"
proof (rule distinct_map [THEN iffD2], intro conjI inj_onI)
  show "distinct (rpcs e)" using assms by (simp add: table_ok_def distinct_map)
  have key: "fst z = r_key (heap e ! snd z)" if "z \<in> set (rpcs e)" for z
    using assms that by (cases z) (auto simp: table_ok_def)
  show "x = y" if "x \<in> set (rpcs e)" "y \<in> set (rpcs e)" "snd x = snd y" for x y
    using key [OF that(1)] key [OF that(2)] that(3) by (simp add: prod_eq_iff)
qed

lemma live_pointers: "table_ok e \<Longrightarrow> live e p \<longleftrightarrow> p \<in> snd ` set (rpcs e)"
  by (force simp: table_ok_def live_def dest: map_of_SomeD)

lemma owned_table:
  assumes "table_ok e" and "heap_ok e"
  shows "sum_list (map cost (heap e)) = sum_list (map (\<lambda>(k, p). cost (heap e ! p)) (rpcs e))"
proof -
  let ?live = "snd ` set (rpcs e)"
  have sub: "?live \<subseteq> {..<length (heap e)}" using assms(1) by (auto simp: table_ok_def)
  have "sum_list (map cost (heap e)) = (\<Sum>p<length (heap e). cost (heap e ! p))"
    by (simp add: sum_list_sum_nth atLeast0LessThan)
  also have "\<dots> = (\<Sum>p\<in>?live. cost (heap e ! p))"
    using sub assms by (intro sum.mono_neutral_right) (auto simp: heap_ok_def rpc_ok_def live_pointers)
  also have "\<dots> = sum_list (map (\<lambda>p. cost (heap e ! p)) (map snd (rpcs e)))"
    using sum.distinct_set_conv_list [OF pointers_distinct [OF assms(1)], of "\<lambda>p. cost (heap e ! p)"] by simp
  finally show ?thesis by (simp add: comp_def case_prod_unfold)
qed

text \<open>C4. The buffered-byte counter that bounds memory is exact in every reachable state: it equals the
  bytes held by live RPCs (unsent or unacknowledged messages, receive buffers with their bitmaps) plus
  the requests running handlers hold, is never negative, never exceeds the configured limit, and is
  zero once no RPC and no handler is left. The numbers of RPCs and handlers stay within their limits.\<close>

theorem buffer_accounting:
  assumes "New l c h seed clk ord = Inr e0" and "run e0 es e" and "calls es \<le> idCycle"
  shows "BufferedBytes (Stats e) = int (sum_list (map (\<lambda>(k, p). cost (heap e ! p)) (rpcs e)) +
           sum_list (map (\<lambda>(p, payload). length payload) (handlers e))) \<and>
         0 \<le> BufferedBytes (Stats e) \<and> BufferedBytes (Stats e) \<le> MaxBufferedBytes (cfg e) \<and>
         int (ActiveRPCs (Stats e)) \<le> MaxRPCs (cfg e) \<and>
         int (ActiveHandlers (Stats e)) \<le> HandlerWorkers (cfg e) \<and>
         (ActiveRPCs (Stats e) = 0 \<and> ActiveHandlers (Stats e) = 0 \<longrightarrow> BufferedBytes (Stats e) = 0)"
proof -
  have inv: "inv e" using reachable_inv [OF assms] by simp
  have "length \<circ> snd = (\<lambda>(p :: nat, payload :: bytes). length payload)" by auto
  then have "BufferedBytes (st e) = int (sum_list (map (\<lambda>(k, p). cost (heap e ! p)) (rpcs e)) +
      sum_list (map (\<lambda>(p, payload). length payload) (handlers e)))"
    using inv owned_table [of e] by (simp add: inv_with_def owned_def)
  then show ?thesis using inv by (auto simp: Stats_def inv_parts)
qed

theorem buffer_accounting_witness:
  "BufferedBytes (Stats (step sample_call sample_endpoint)) \<le> MaxBufferedBytes (cfg (step sample_call sample_endpoint))"
  using buffer_accounting [OF sample_New sample_run] sample_calls by simp

section \<open>Results\<close>

lemma inv_client_result:
  assumes "inv e" and "p < length (heap e)" and "is_client (r_key (heap e ! p))"
  shows "live e p \<Longrightarrow> r_result (heap e ! p) = Some []"
    and "\<not> live e p \<Longrightarrow> \<exists>x. r_result (heap e ! p) = Some [x]"
  using inv_rpc_ok [OF assms(1,2)] assms(3)
  by (auto simp: rpc_ok_def result_ok_def length_Suc_conv split: option.splits)

text \<open>C3. Every call gets exactly one result. While the RPC of a call is in the table its mailbox (a
  channel of capacity one) is empty, so the send in \<^verbatim>\<open>finish\<close> never blocks; once the RPC has left the
  table the mailbox holds exactly one result, and no later event changes it or revives the RPC.\<close>

theorem exactly_one_result:
  assumes "New l c h seed clk ord = Inr e0" and "run e0 es e" and "calls es \<le> idCycle"
    and "p < length (heap e)" and "is_client (r_key (heap e ! p))" and "run e es' e'"
  shows "(live e p \<longrightarrow> r_result (heap e ! p) = Some []) \<and>
         (\<not> live e p \<longrightarrow> \<not> live e' p \<and>
           (\<exists>x. r_result (heap e ! p) = Some [x] \<and> r_result (heap e' ! p) = Some [x]))"
proof -
  have "inv e" using reachable_inv [OF assms(1-3)] by simp
  note r = inv_client_result [OF this assms(4,5)]
  have "rpc_progress (live e p) (live e' p) (heap e ! p) (heap e' ! p)"
    using progress_run [OF assms(6)] assms(4) by (simp add: progress_def)
  then show ?thesis using r by (auto simp: rpc_progress_def)
qed

theorem exactly_one_result_witness:
  "r_result (heap (step sample_call sample_endpoint) ! 0) = Some []"
  using exactly_one_result [OF sample_New sample_run sample_calls(1) _ _ run_Nil] sample_called by auto

section \<open>Closing\<close>

lemma sample_order: "\<forall>n ks. mset ((\<lambda>_ ks. ks) n ks) = mset ks" by simp

lemma sample_close_run:
  "run sample_endpoint [sample_call, Close] (step Close (step sample_call sample_endpoint))"
  using run_snoc [OF sample_run, of Close] by simp

text \<open>C6. After \<^verbatim>\<open>Close\<close>, or after the packet I/O has failed, no RPC is left, every call ever started has
  its result (so no caller blocks), nothing is buffered but what running handlers hold, and this stays
  so. Of Go's map iteration it uses only that \<^verbatim>\<open>range\<close> visits every key once.\<close>

theorem close_completes:
  assumes "New l c h seed clk ord = Inr e0" and "run e0 es e" and "calls es \<le> idCycle"
    and "\<forall>n ks. mset (ord n ks) = mset ks" and "closed e"
  shows "rpcs e = [] \<and> BufferedBytes (st e) = int (sum_list (map (length \<circ> snd) (handlers e))) \<and>
    (\<forall>p < length (heap e). is_client (r_key (heap e ! p)) \<longrightarrow> (\<exists>x. r_result (heap e ! p) = Some [x]))"
proof -
  have inv: "inv e" using reachable_inv [OF assms(1-3)] by simp
  have empty: "rpcs e = []" by (rule closed_empty [OF assms])
  then have dead: "\<not> live e p" for p by (simp add: live_def)
  have "sum_list (map cost (heap e)) = 0"
    using owned_table [of e] inv empty by (simp add: inv_with_def)
  then have "BufferedBytes (st e) = int (sum_list (map (length \<circ> snd) (handlers e)))"
    using inv by (simp add: inv_with_def owned_def)
  with empty show ?thesis using inv_client_result(2) [OF inv] dead by blast
qed

theorem close_completes_witness: "rpcs (step Close (step sample_call sample_endpoint)) = []"
proof -
  have "closed (step Close (step sample_call sample_endpoint))"
    using static_shutdown [of ErrClosed "step sample_call sample_endpoint"]
    by (simp add: static_def split: if_splits)
  then show ?thesis
    using close_completes [OF sample_New sample_close_run sample_calls(2) sample_order] by blast
qed

section \<open>Deadlines\<close>

lemma sample_tick_run:
  "run sample_endpoint [sample_call, Tick n] (step (Tick n) (step sample_call sample_endpoint))"
  using run_snoc [OF sample_run, of "Tick n"] by simp

text \<open>C7. The timer enforces deadlines: after a tick at time \<open>now\<close> every RPC left in the table has its
  deadline after \<open>now\<close>; an RPC whose deadline had come is dead, and if it was a call it has its result.\<close>

theorem tick_enforces_deadlines:
  assumes "New l c h seed clk ord = Inr e0" and "run e0 es e" and "calls es \<le> idCycle"
    and "\<forall>n ks. mset (ord n ks) = mset ks" and "\<not> closed e"
  shows "(\<forall>(k, p) \<in> set (rpcs (step (Tick now) e)). now < r_deadline (heap (step (Tick now) e) ! p)) \<and>
    (\<forall>p < length (heap e). r_deadline (heap e ! p) \<le> now \<longrightarrow> \<not> live (step (Tick now) e) p \<and>
       (is_client (r_key (heap e ! p)) \<longrightarrow> (\<exists>x. r_result (heap (step (Tick now) e) ! p) = Some [x])))"
proof -
  let ?e = "step (Tick now) e"
  have inv: "inv e" using reachable_inv [OF assms(1-3)] by simp
  then have inv': "inv ?e" by (simp add: inv_timer_tick)
  have "order e0 = ord" using assms(1) by (auto simp: New_def split: option.splits if_splits)
  then have fair: "fair_order e" using fixed_run [OF assms(2)] assms(4) by (simp add: fair_order_def)
  have now: "now < r_deadline (heap ?e ! q)" if "(k, q) \<in> set (rpcs ?e)" for k q
    using timer_tick_expires [OF inv fair assms(5)] that by simp
  have dead: "\<not> live ?e p" if p: "p < length (heap e)" and d: "r_deadline (heap e ! p) \<le> now" for p
  proof
    assume "live ?e p"
    then have "(r_key (heap ?e ! p), p) \<in> set (rpcs ?e)" by (simp add: live_def map_of_SomeD)
    moreover have "r_deadline (heap ?e ! p) = r_deadline (heap e ! p)"
      using progress_step [of e "Tick now"] p by (simp add: progress_def rpc_progress_def)
    ultimately show False using now [of _ p] d by force
  qed
  moreover have "length (heap e) \<le> length (heap ?e)" "p < length (heap e) \<Longrightarrow> r_key (heap ?e ! p) = r_key (heap e ! p)" for p
    using progress_step [of e "Tick now"] by (simp_all add: progress_def rpc_progress_def)
  ultimately show ?thesis using now inv_client_result(2) [OF inv'] by fastforce
qed

theorem tick_enforces_deadlines_witness:
  "\<not> live (step (Tick (6 * Second)) (step sample_call sample_endpoint)) 0"
proof -
  have "r_deadline (heap (step sample_call sample_endpoint) ! 0) \<le> 6 * Second"
    using call_start_state [OF inv_New [OF sample_New] sample_accepted]
    by (simp add: sample_call_def bk_segments.fields mark_sent_def sample_fields call_state_def allocated_def
        call_ready_def call_rpc_def zero_rpc_def bk_time.fields call_deadline_def)
      (simp add: sample_endpoint_def New_def sample_local_def defaults_def Let_def with_defaults_def
      zero_config_def fill_def invalid_config_def maxMessage_def duration_defs)
  moreover have "\<not> closed (step sample_call sample_endpoint)"
    using static_fields(6) [OF static_step, of sample_call sample_endpoint] sample_fields by (simp add: sample_call_def)
  ultimately show ?thesis
    using tick_enforces_deadlines [OF sample_New sample_run sample_calls(1) sample_order, of "6 * Second"] sample_called(1)
    by simp
qed

section \<open>The writer\<close>

fun is_writer :: "event \<Rightarrow> bool" where
  "is_writer WriterTurn = True"
| "is_writer (Wrote x) = True"
| "is_writer WriterWoken = True"
| "is_writer WriterStopped = True"
| "is_writer _ = False"

lemma queues_step:
  assumes "\<not> is_writer ev"
  shows "queues_grow e (step ev e)"
proof (cases ev)
  case (CallStart x d peer request)
  show ?thesis
  proof (cases "call_accepted x peer request e")
    case True
    then have "queues_grow (call_state d peer request e) (step ev e)"
      using call_advances [OF True, of d] CallStart by (simp add: advances_def)
    then show ?thesis by (simp add: queues_grow_def call_state_fields)
  next
    case False
    then show ?thesis by (simp add: CallStart call_start_refused queues_grow_def)
  qed
qed (use assms in \<open>auto simp: read_error_def advances_def [symmetric]
    intro!: advances_def [THEN iffD1, THEN conjunct2, THEN conjunct2] advance_intros\<close>)

definition idle :: "endpoint \<Rightarrow> bool" where
  "idle e \<longleftrightarrow> (\<forall>q \<in> set (outbound e). q = [])"

lemma dequeue_None_idle: "wf_channels (outbound e) \<Longrightarrow> dequeue (outbound e) = None \<Longrightarrow> idle e"
  using chan.deq_None [of "outbound e"]
  by (auto simp: idle_def wf_channels_def in_set_conv_nth numPriorities_def)

lemma awake_step:
  assumes inv: "inv e" and en: "enabled ev e" and awake: "writer_at e = WSleep \<longrightarrow> idle e \<or> wake e"
  shows "writer_at (step ev e) = WSleep \<longrightarrow> idle (step ev e) \<or> wake (step ev e)"
proof (cases "is_writer ev")
  case False
  then show ?thesis using queues_step [OF False, of e] awake by (auto simp: queues_grow_def idle_def)
next
  case True
  have st: "writer_at (snd (stale out e')) = writer_at e'" for out e'
    by (simp add: stale_def split_beta Let_def time_now_def split: option.split)
  have "writer_at (writer_pick e) = WSleep \<longrightarrow> idle (writer_pick e)" if "writer_at e = WTop"
    using dequeue_None_idle [OF inv_channels [OF inv]] that
    by (auto simp: writer_pick_def Let_def split_beta count_dropped_def upd_st_def st idle_def split: option.split)
  then show ?thesis
    using True en
    by (cases ev) (auto simp: writer_wrote_def writer_wakeup_def writer_done_def Let_def split: writer.splits)
qed

lemma reachable_awake:
  assumes "New l c h seed clk ord = Inr e0" and "run e0 es e" and "calls es \<le> idCycle"
  shows "writer_at e = WSleep \<longrightarrow> idle e \<or> wake e"
  using assms(2,1,3)
proof (induction rule: run.induct)
  case (run_Nil e)
  then show ?case by (auto simp: New_def split: option.splits if_splits)
next
  case (run_snoc e0 es e ev)
  have calls: "calls es \<le> idCycle" using run_snoc.prems(2) by (simp add: calls_def split: if_splits)
  then have "inv e" using reachable_inv [OF run_snoc.prems(1) run_snoc.hyps(1)] by simp
  then show ?case using awake_step run_snoc calls by blast
qed

text \<open>C8. No wake-up is lost: whenever the writer waits and a packet is queued, a wake-up is pending, so
  the writer can run. Everything but the writer only appends to the eight queues.\<close>

theorem no_lost_wakeup:
  assumes "New l c h seed clk ord = Inr e0" and "run e0 es e" and "calls es \<le> idCycle"
  shows "(writer_at e = WSleep \<and> (\<exists>q \<in> set (outbound e). q \<noteq> []) \<longrightarrow> enabled WriterWoken e) \<and>
    (\<not> is_writer ev \<longrightarrow> (\<forall>i. \<exists>new. outbound (step ev e) ! i = outbound e ! i @ new))"
  using reachable_awake [OF assms] queues_step [of ev e] by (auto simp: idle_def queues_grow_def)

theorem no_lost_wakeup_witness:
  "\<exists>new. outbound (step (Tick 0) (step sample_call sample_endpoint)) ! 7 =
     outbound (step sample_call sample_endpoint) ! 7 @ new"
  using no_lost_wakeup [OF sample_New sample_run sample_calls(1), of "Tick 0"] by simp

section \<open>Handlers\<close>

text \<open>A one-packet request to the sample endpoint.\<close>

definition sample_segment :: data where
  "sample_segment = \<lparr>d_common = NewCommon DataType 4001 4000 2, MessageLength = 3, Incoming = 3, d_ack = no_ack,
     d_cutoff_version = 1, Retransmit = 0, Padding = [0, 0, 0], SegmentOffset = 0, Payload = [9, 8, 7]\<rparr>"

definition sample_request :: event where
  "sample_request = Datagram (V4 0x0A000002) (layout (Data sample_segment))"

lemma sample_sendable: "sendable (Data sample_segment)"
  by (simp add: sendable_def wf_packet_def sample_segment_def maxInt_def size_defs)

lemma sample_request_step:
  "step sample_request sample_endpoint = receive (V4 0x0A000002) (Data sample_segment)
     (upd_st (\<lambda>s. s\<lparr>ReceivedPackets := ReceivedPackets s + 1\<rparr>) sample_endpoint)"
proof -
  have "Parse (layout (Data sample_segment)) = Inr (Data sample_segment)"
    using Parse_Marshal [of "Data sample_segment" _ "[]"] sendable_Marshal [OF sample_sendable] sample_sendable
    by (simp add: sendable_def)
  then show ?thesis by (simp add: sample_request_def read_packet_def sample_fields)
qed

lemma sample_request_run: "run sample_endpoint [sample_request] (step sample_request sample_endpoint)"
proof -
  have "length (layout (Data sample_segment)) = 59"
    using length_layout [of "Data sample_segment"] sample_sendable
    by (simp add: sendable_def sample_segment_def size_defs)
  then have "enabled sample_request sample_endpoint" by (simp add: sample_request_def)
  then show ?thesis using run_snoc [OF run_Nil, of sample_request sample_endpoint] by simp
qed

lemma sample_handling:
  "length (heap (step sample_request sample_endpoint)) = 1 \<and>
   handlers (step sample_request sample_endpoint) = [(0, [9, 8, 7])] \<and>
   r_handling (heap (step sample_request sample_endpoint) ! 0)"
  unfolding sample_request_step by code_simp

lemma sample_request_calls: "calls [sample_request] \<le> idCycle"
  by (simp add: calls_def sample_request_def idCycle_def)



end
