(* ===== verification/Endpoint_Functional.thy ===== *)
theory Endpoint_Functional
  imports Endpoint_Props
begin

unbundle bit_operations_syntax

text \<open>
  What single operations of an endpoint do: starting a call, transmitting and retransmitting
  segments, granting, taking packets off the queues, a failed write, and storing a received segment.
\<close>

section \<open>Starting a call\<close>

lemma round_up_self: "0 < g \<Longrightarrow> g dvd n \<Longrightarrow> round_up g n = n"
  using round_up_le [of g n n] round_up_nat(1) [of g n] by simp

lemma unscheduled_sent:
  assumes "valid_config c" and "xs \<noteq> []"
  shows "min (length xs) (round_up (nat (SegmentBytes c)) (min (length xs) (nat (UnscheduledBytes c)))) =
    min (length xs) (nat (UnscheduledBytes c))"
proof (cases "length xs \<le> nat (UnscheduledBytes c)")
  case True
  have "0 < nat (SegmentBytes c)" using assms(1) by (simp add: valid_config_def)
  then show ?thesis using True round_up_nat(1) [of "nat (SegmentBytes c)" "length xs"] by simp
next
  case False
  have "SegmentBytes c dvd UnscheduledBytes c" "0 < SegmentBytes c" "0 < UnscheduledBytes c"
    using assms(1) by (simp_all add: valid_config_def)
  then have "nat (SegmentBytes c) dvd nat (UnscheduledBytes c)" "0 < nat (SegmentBytes c)"
    by (simp_all add: nat_dvd_iff)
  then show ?thesis using False by (simp add: round_up_self)
qed

lemma sent_after_call:
  assumes "inv e" and "call_accepted x peer request e"
  shows "sent_after (seg e) (call_rpc k request (cfg e) pr t now) = min (length request) (nat (UnscheduledBytes (cfg e)))"
proof -
  have vc: "valid_config (cfg e)" using assms(1) by (simp add: inv_with_def)
  have "request \<noteq> []" using assms(2) by (simp add: call_accepted_def)
  then show ?thesis
    using unscheduled_sent [OF vc, of request] granted_prefix [OF vc, of request]
    by (simp add: sent_after_def call_rpc_def zero_rpc_def)
qed

text \<open>C10. \<^verbatim>\<open>Call\<close> either refuses, and then changes nothing and reports that nothing was sent, or it
  registers a new RPC that keeps the whole request for retransmission, queues exactly its unscheduled
  prefix, has an empty mailbox, and expires no later than the configured timeout and the caller's own
  deadline.\<close>

theorem call_start_correct:
  assumes "inv e" and "nextID e AND 1 = 0"
  shows "case call_start x d peer request e of
      (Inl err, e') \<Rightarrow> \<not> call_accepted x peer request e \<and> e' = e \<and> \<not> Sent err
    | (Inr p, e') \<Rightarrow> call_accepted x peer request e \<and> p = length (heap e) \<and> live e' p \<and>
        is_client (r_key (heap e' ! p)) \<and> key_peer (r_key (heap e' ! p)) = peer \<and>
        r_tx (heap e' ! p) = request \<and>
        r_sent (heap e' ! p) = min (length request) (nat (UnscheduledBytes (cfg e))) \<and>
        r_result (heap e' ! p) = Some [] \<and>
        r_deadline (heap e' ! p) \<le> clock e (ticks e) + Timeout (cfg e) \<and>
        (\<forall>t. d = Some t \<longrightarrow> r_deadline (heap e' ! p) \<le> t)"
proof (cases "call_accepted x peer request e")
  case False
  with call_start_refused [OF False, of d] show ?thesis
    by (cases "call_start x d peer request e") auto
next
  case True
  let ?k = "\<lparr>key_peer = peer, key_id = next_id (nextID e)\<rparr>"
  let ?r = "call_rpc ?k request (cfg e) (unsched e (IP peer) (length request))
      (call_deadline d (clock e (ticks e) + Timeout (cfg e))) (clock e (ticks e))"
  let ?e = "snd (call_start x d peer request e)"
  have heap: "heap ?e ! length (heap e) = ?r\<lparr>r_sent := sent_after (seg e) ?r\<rparr>"
    by (simp add: call_start_state [OF assms(1) True] bk_segments.fields mark_sent_def call_state_fields)
  have "rpcs ?e = AList.update ?k (length (heap e)) (rpcs e)"
    by (simp add: call_start_state [OF assms(1) True] bk_segments.fields mark_sent_def call_state_fields)
  then have "live ?e (length (heap e))"
    by (simp add: live_def heap) (simp add: call_rpc_def zero_rpc_def update_conv')
  moreover have "call_start x d peer request e = (Inr (length (heap e)), ?e)"
    by (simp add: call_start_state [OF assms(1) True])
  moreover have "call_deadline d l \<le> l" "\<forall>t. d = Some t \<longrightarrow> call_deadline d l \<le> t" for l
    by (simp_all add: call_deadline_def split: option.split)
  moreover have "r_key ?r = ?k" "r_tx ?r = request" "r_result ?r = Some []"
    "r_deadline ?r = call_deadline d (clock e (ticks e) + Timeout (cfg e))"
    by (simp_all add: call_rpc_def zero_rpc_def)
  ultimately show ?thesis
    using True heap sent_after_call [OF assms(1) True] next_id_even [OF assms(2)]
    by (cases "call_start x d peer request e") auto
qed

theorem call_start_correct_witness:
  "r_tx (heap (snd (call_start None (Some 5) sample_peer [1, 2, 3] sample_endpoint)) ! 0) = [1, 2, 3] \<and>
   r_deadline (heap (snd (call_start None (Some 5) sample_peer [1, 2, 3] sample_endpoint)) ! 0) \<le> 5"
  using call_start_correct [OF inv_New [OF sample_New], where x = None and d = "Some 5" and peer = sample_peer
      and request = "[1, 2, 3]"] sample_accepted
  by (cases "call_start None (Some 5) sample_peer [1, 2, 3] sample_endpoint";
      cases "fst (call_start None (Some 5) sample_peer [1, 2, 3] sample_endpoint)") (auto simp: sample_fields)

section \<open>Transmitting and retransmitting\<close>

definition segment_out :: "endpoint \<Rightarrow> nat \<Rightarrow> bool \<Rightarrow> u8 \<Rightarrow> nat \<Rightarrow> outgoingPacket" where
  "segment_out e p retransmit pr s =
     packet_out e (key_peer (r_key (heap e ! p))) (Data (data_segment e (heap e ! p) s retransmit)) pr"

lemma segment_out_cong:
  assumes "core e' = core e"
  shows "segment_out e' p b pr s = segment_out e p b pr s"
  using core_fields [OF assms]
  by (simp add: segment_out_def packet_out_def data_segment_def common_hdr_def)

lemma sendSegment_queue:
  assumes "valid_config (cfg e)" and "wf_channels (outbound e)" and "unat pr < 8"
  shows "outbound (snd (sendSegment p s b pr e)) =
    (outbound e)[unat pr := take queueSlots (outbound e ! unat pr @ [segment_out e p b pr s])]"
proof -
  let ?e = "if b then upd_st (\<lambda>s. s\<lparr>Retransmissions := Retransmissions s + 1\<rparr>) e else e"
  have f: "outbound ?e = outbound e" "packet_out ?e peer q pr = packet_out e peer q pr" for peer q
    by (simp_all add: upd_st_def packet_out_def)
  have len: "length (outbound e ! unat pr) \<le> queueSlots"
    using assms(2,3) by (simp add: wf_channels_def numPriorities_def)
  show ?thesis
  proof (cases "length (outbound e ! unat pr) < queueSlots")
    case True
    then show ?thesis using assms
      by (simp add: sendSegment_def Let_def send_sendable data_segment_sendable f enqueue_def segment_out_def)
  next
    case False
    then have "length (outbound e ! unat pr) = queueSlots" using len by simp
    then show ?thesis using False assms
      by (simp add: sendSegment_def Let_def send_sendable data_segment_sendable f enqueue_def count_dropped_def)
        (simp add: upd_st_def list_update_id)
  qed
qed

lemma take_take_append: "take n (take n xs @ ys) = take n (xs @ ys)"
  by (cases "length xs \<le> n") simp_all

lemma send_segments_queue:
  assumes "valid_config (cfg e)" and "wf_channels (outbound e)" and "unat pr < 8"
  shows "outbound (send_segments p b pr ss e) =
    (outbound e)[unat pr := take queueSlots (outbound e ! unat pr @ map (segment_out e p b pr) ss)]"
  using assms
proof (induction ss arbitrary: e)
  case Nil
  then have "length (outbound e ! unat pr) \<le> queueSlots" by (simp add: wf_channels_def numPriorities_def)
  then show ?case by (simp add: send_segments_def)
next
  case (Cons s ss)
  let ?e = "snd (sendSegment p s b pr e)"
  have len: "unat pr < length (outbound e)" using Cons.prems by (simp add: wf_channels_def numPriorities_def)
  have "send_segments p b pr (s # ss) e = send_segments p b pr ss ?e" by (simp add: send_segments_def)
  also have "outbound \<dots> = (outbound ?e)[unat pr := take queueSlots (outbound ?e ! unat pr @ map (segment_out ?e p b pr) ss)]"
    using Cons.IH [of ?e] Cons.prems by (simp add: bk_segment.fields bk_segment.channels)
  also have "segment_out ?e p b pr = segment_out e p b pr"
    by (rule ext) (rule segment_out_cong [OF bk_segment.core])
  also have "outbound ?e = (outbound e)[unat pr := take queueSlots (outbound e ! unat pr @ [segment_out e p b pr s])]"
    by (rule sendSegment_queue [OF Cons.prems])
  finally show ?case using len by (simp only: take_take_append list_update_overwrite nth_list_update_eq append.assoc append.simps list.map)
qed

lemma payload_segment: "Payload (data_segment e r s b) = subslice s (min (s + seg e) (length (r_tx r))) (r_tx r)"
  by (simp add: data_segment_def Let_def)

text \<open>C11. \<^verbatim>\<open>sendNew\<close> never fails and queues exactly the granted part of a message that has not been queued
  yet: one packet per segment, in order, at the RPC's priority, their payloads together being the
  message from the old to the new mark, which is the grant extended to a segment boundary. What does
  not fit into the queue of that priority is dropped; the other queues do not change.\<close>

theorem sendNew_correct:
  assumes "valid_config (cfg e)" and "wf_channels (outbound e)" and "p < length (heap e)"
    and "tx_ready (cfg e) (heap e ! p)" and "r = heap e ! p"
    and "ss = seg_starts (seg e) (r_sent r) (r_granted r)"
  shows "fst (sendNew p e) = None \<and>
    outbound (snd (sendNew p e)) = (outbound e)[unat (r_priority r) := take queueSlots
      (outbound e ! unat (r_priority r) @ map (segment_out e p False (r_priority r)) ss)] \<and>
    heap (snd (sendNew p e)) =
      (heap e)[p := r\<lparr>r_sent := min (length (r_tx r)) (round_up (seg e) (r_granted r))\<rparr>] \<and>
    concat (map (\<lambda>s. Payload (data_segment e r s False)) ss) =
      subslice (r_sent r) (min (length (r_tx r)) (round_up (seg e) (r_granted r))) (r_tx r)"
proof (intro conjI)
  note seg = seg_bounds(3) [OF assms(1)]
  note eq = sendNew_ready [OF assms(1-4)]
  have ready: "tx_ready (cfg e) r" using assms by simp
  have out: "segment_out (mark_sent p e) p False pr = segment_out e p False pr" for pr
    using assms(3)
    by (intro ext) (simp add: segment_out_def mark_sent_def packet_out_def data_segment_def common_hdr_def)
  show "fst (sendNew p e) = None" by (simp add: eq)
  show "outbound (snd (sendNew p e)) = (outbound e)[unat (r_priority r) := take queueSlots
      (outbound e ! unat (r_priority r) @ map (segment_out e p False (r_priority r)) ss)]"
    using assms ready by (simp add: eq send_segments_queue out tx_ready_def)
  show "heap (snd (sendNew p e)) =
      (heap e)[p := r\<lparr>r_sent := min (length (r_tx r)) (round_up (seg e) (r_granted r))\<rparr>]"
    using assms(5) sent_after_all [OF ready seg]
    by (simp add: eq bk_segments.fields mark_sent_def upd_rpc_def)
  show "concat (map (\<lambda>s. Payload (data_segment e r s False)) ss) =
      subslice (r_sent r) (min (length (r_tx r)) (round_up (seg e) (r_granted r))) (r_tx r)"
  proof (cases "seg e dvd r_sent r")
    case True
    then show ?thesis
      using segments_cover [OF seg True, of "r_granted r" "r_tx r"] ready by (simp add: assms(6) payload_segment tx_ready_def)
  next
    case False
    then have "r_sent r = length (r_tx r)" using ready by (simp add: tx_ready_def)
    then show ?thesis using ready by (simp add: assms(6) tx_ready_def subslice_def)
  qed
qed

lemma sample_ready:
  "valid_config (cfg sample_endpoint)" "wf_channels (outbound sample_endpoint)"
  using inv_New [OF sample_New] by (simp_all add: inv_with_def)

text \<open>A response of 3000 bytes of which 2000 are granted, in segments of 1400.\<close>

definition sample_rpc :: rpc where
  "sample_rpc = (zero_rpc \<lparr>key_peer = sample_peer, key_id = 3\<rparr>)\<lparr>r_tx := replicate 3000 7, r_granted := 2000, r_priority := 4\<rparr>"

lemma sample_SegmentBytes: "seg (sample_endpoint\<lparr>heap := hp\<rparr>) = 1400" "seg sample_endpoint = 1400"
  by (simp_all add: sample_endpoint_def New_def sample_local_def defaults_def Let_def with_defaults_def
      zero_config_def fill_def invalid_config_def maxMessage_def duration_defs)

lemma sample_rpc_fields:
  "length (r_tx sample_rpc) = 3000" "r_sent sample_rpc = 0" "r_granted sample_rpc = 2000" "r_priority sample_rpc = 4"
  by (simp_all add: sample_rpc_def zero_rpc_def)

lemma sample_outbound: "outbound sample_endpoint = make_channels"
  by (simp add: sample_endpoint_def New_def sample_local_def defaults_def Let_def with_defaults_def
      zero_config_def fill_def invalid_config_def maxMessage_def duration_defs)

lemma sample_queue: "i < 8 \<Longrightarrow> make_channels ! i = []" "length make_channels = 8"
  by (simp_all add: make_channels_def numPriorities_def)

theorem sendNew_correct_witness:
  "r_sent (heap (snd (sendNew 0 (sample_endpoint\<lparr>heap := [sample_rpc]\<rparr>))) ! 0) = 2800 \<and>
   length (outbound (snd (sendNew 0 (sample_endpoint\<lparr>heap := [sample_rpc]\<rparr>))) ! 4) = 2"
proof -
  let ?e = "sample_endpoint\<lparr>heap := [sample_rpc]\<rparr>"
  have ne: "r_tx sample_rpc \<noteq> []" using sample_rpc_fields(1) by (metis list.size(3) zero_neq_numeral)
  have ready: "tx_ready (cfg ?e) (heap ?e ! 0)"
    using sample_SegmentBytes ne by (simp add: tx_ready_def sample_rpc_fields sample_fields)
  have "seg_starts 1400 0 2000 = [0, 1400]" by (simp add: seg_starts.simps)
  moreover have "round_up 1400 2000 = 2800" by (simp add: round_up_def)
  ultimately show ?thesis
    using sendNew_correct [OF _ _ _ ready refl refl] sample_ready
    by (simp add: sample_SegmentBytes sample_rpc_fields sample_outbound sample_queue queueSlots_def)
qed



end
