(* ===== verification/Integrity.thy ===== *)
theory Integrity
  imports Endpoint_Steps
begin

unbundle bit_operations_syntax

text \<open>
  What the bytes mean. \<open>T k m\<close> says that \<open>m\<close> may be transmitted under the key \<open>k\<close>; \<open>R k\<close> is the message that
  has to be received under it, \<open>None\<close> where nothing is known about that. \<open>faithful T R\<close> says of an endpoint's
  state that every message in it is one of these: what is to be sent, the part of a message that has arrived,
  the request a handler works on, the result a call has got, and every packet that is queued or being written,
  which is moreover well formed. Every critical section keeps this, provided that what arrives from the network
  is a segment of the message that is expected, if one is, and that the application's messages are the ones to
  be transmitted. The lemmas are collected in \<open>faith_intros\<close>.
\<close>

named_theorems faith_intros "operations keep a state faithful"

type_synonym expected_tx = "rpcKey \<Rightarrow> bytes \<Rightarrow> bool"
type_synonym expected_rx = "rpcKey \<Rightarrow> bytes option"

section \<open>Segments\<close>

text \<open>A DATA packet with a segment of the message \<open>m\<close>.\<close>

definition seg_of :: "bytes \<Rightarrow> data \<Rightarrow> bool" where
  "seg_of m d \<longleftrightarrow> Payload d \<noteq> [] \<and> unat (MessageLength d) = length m \<and>
     unat (EffectiveOffset d) + length (Payload d) \<le> length m \<and>
     Payload d = subslice (unat (EffectiveOffset d)) (unat (EffectiveOffset d) + length (Payload d)) m"

text \<open>A buffer that holds a part of the message \<open>m\<close>.\<close>

definition part :: "bytes \<Rightarrow> assembly \<Rightarrow> bool" where
  "part m a \<longleftrightarrow> m \<noteq> [] \<and> wf_assembly a \<and> length (a_data a) = length m \<and> (\<forall>i x. content a i = Some x \<longrightarrow> x = m ! i)"

lemma seg_of_nonempty: "seg_of m d \<Longrightarrow> m \<noteq> [] \<and> unat (MessageLength d) = length m"
  by (auto simp: seg_of_def)

lemma part_complete: "part m a \<Longrightarrow> complete a \<Longrightarrow> a_data a = m \<and> m \<noteq> []"
  using complete_iff [of a] by (auto simp: part_def intro!: nth_equalityI)

lemma part_new: "m \<noteq> [] \<Longrightarrow> n = length m \<Longrightarrow> part m (new_assembly n g)"
  by (simp add: part_def new_assembly_wf new_assembly_content)

lemma part_granted [simp]: "part m (a\<lparr>a_granted := g\<rparr>) = part m a"
  using content_cong [of "a\<lparr>a_granted := g\<rparr>" a] by (simp add: part_def wf_assembly_granted)

lemma part_add:
  assumes "part m a" and "seg_of m d" and "add_segment a (unat (EffectiveOffset d)) (Payload d) g = Some b"
  shows "part m b"
proof -
  let ?o = "unat (EffectiveOffset d)" and ?x = "Payload d"
  have fits: "?o + length ?x \<le> length (a_data a)" using assms by (simp add: part_def seg_of_def)
  have wf: "wf_assembly a" using assms by (simp add: part_def)
  note b = add_segment_Some [OF wf fits assms(3)]
  have "?x ! j = m ! (?o + j)" if "j < length ?x" for j
  proof -
    have sub: "?x = subslice ?o (?o + length ?x) m" and le: "?o + length ?x \<le> length m"
      using assms(2) unfolding seg_of_def by blast+
    from sub have "?x ! j = subslice ?o (?o + length ?x) m ! j" by (rule arg_cong)
    also have "\<dots> = m ! (?o + j)" using that le by simp
    finally show ?thesis .
  qed
  then have "x = m ! i" if "segment_map ?o ?x i = Some x" for i x
    using that by (auto simp: segment_map_def split: if_splits)
  then show ?thesis using assms(1) b by (auto simp: part_def map_add_Some_iff)
qed

section \<open>Packets\<close>

text \<open>DATA that the receiver's checks let pass.\<close>

definition data_ok :: "bytes \<Rightarrow> data \<Rightarrow> bool" where
  "data_ok m d \<longleftrightarrow> seg_of m d \<and> length m \<le> 1000000 \<and> Incoming d \<le> MessageLength d"

text \<open>A packet the endpoint at \<open>l\<close> builds for \<open>peer\<close>.\<close>

definition built :: "expected_tx \<Rightarrow> addr \<Rightarrow> addr \<Rightarrow> packet \<Rightarrow> bool" where
  "built T l peer p \<longleftrightarrow> wf_packet p \<and> SourcePort (Header p) = Port l \<and> DestinationPort (Header p) = Port peer \<and>
     length (payload_of p) \<le> 1424 \<and>
     (\<forall>d. p = Data d \<longrightarrow> (\<exists>m. T \<lparr>key_peer = peer, key_id = SenderID (d_common d)\<rparr> m \<and> data_ok m d))"

text \<open>A datagram on its way to the network.\<close>

definition out_ok :: "expected_tx \<Rightarrow> addr \<Rightarrow> outgoingPacket \<Rightarrow> bool" where
  "out_ok T l out \<longleftrightarrow> (\<exists>p. Parse (o_data out) = Inr p \<and> o_typ out = PacketType (Header p) \<and>
     built T l \<lparr>IP = o_peer out, Port = DestinationPort (Header p)\<rparr> p \<and> length (o_data out) \<le> 1480)"

lemma canonical_simps [simp]:
  "Header (canonical p) = Header p" "payload_of (canonical p) = payload_of p"
  "canonical p = Data d \<longleftrightarrow> p = Data d" "wf_packet (canonical p) = wf_packet p"
  by (cases p; simp add: wf_packet_def)+

lemma addr_eta [simp]: "\<lparr>IP = IP a, Port = Port a\<rparr> = (a :: addr)"
  by simp

lemma key_eta [simp]: "\<lparr>key_peer = key_peer k, key_id = key_id k\<rparr> = (k :: rpcKey)"
  by simp

lemma own_size_le: "own_size p \<le> 80"
  by (cases p) (simp_all add: size_defs)

lemma built_out:
  assumes "built T l peer p" and "Marshal (Val p) = Inr b"
  shows "out_ok T l \<lparr>o_data = b, o_peer = IP peer, o_priority = pr, o_origin = og, o_typ = PacketType (Header p)\<rparr>"
proof -
  have wf: "wf_packet p" using assms(1) by (simp add: built_def)
  have "b = layout p" using Marshal_Inr_iff [OF wf] assms(2) by blast
  then have "length b = own_size p + length (payload_of p)" using length_layout [OF wf] by simp
  moreover have "own_size p + length (payload_of p) \<le> 1480"
    using assms(1) own_size_le [of p] by (cases p) (auto simp: built_def size_defs)
  moreover have "Parse b = Inr (canonical p)" using Parse_Marshal [OF wf assms(2), of "[]"] by simp
  ultimately show ?thesis
    using assms(1) unfolding out_ok_def by (intro exI [of _ "canonical p"]) (simp add: built_def)
qed

section \<open>States\<close>

definition rpc_faith :: "expected_tx \<Rightarrow> expected_rx \<Rightarrow> rpc \<Rightarrow> bool" where
  "rpc_faith T R r \<longleftrightarrow> length (r_tx r) \<le> 1000000 \<and> (r_tx r \<noteq> [] \<longrightarrow> T (r_key r) (r_tx r)) \<and>
     (\<forall>a. r_rx r = Some a \<longrightarrow> (\<forall>m. R (r_key r) = Some m \<longrightarrow> part m a) \<and> (r_received r \<longrightarrow> complete a)) \<and>
     (\<forall>q x. r_result r = Some q \<longrightarrow> x \<in> set q \<longrightarrow> res_err x = None \<longrightarrow>
        (\<forall>m. R (r_key r) = Some m \<longrightarrow> res_data x = m))"

text \<open>A whole request that has been received.\<close>

definition handed :: "expected_rx \<Rightarrow> rpcKey \<Rightarrow> bytes \<Rightarrow> bool" where
  "handed R k b \<longleftrightarrow> is_server k \<and> (\<forall>m. R k = Some m \<longrightarrow> b = m \<and> m \<noteq> [])"

definition faithful :: "expected_tx \<Rightarrow> expected_rx \<Rightarrow> endpoint \<Rightarrow> bool" where
  "faithful T R e \<longleftrightarrow> valid_config (cfg e) \<and>
     (\<forall>k p. map_of (rpcs e) k = Some p \<longrightarrow> p < length (heap e) \<and> r_key (heap e ! p) = k) \<and>
     (\<forall>p < length (heap e). rpc_faith T R (heap e ! p)) \<and>
     (\<forall>p b. (p, b) \<in> set (handlers e) \<longrightarrow> p < length (heap e) \<and> handed R (r_key (heap e ! p)) b) \<and>
     (\<forall>q out. q \<in> set (outbound e) \<longrightarrow> out \<in> set q \<longrightarrow> out_ok T (local e) out) \<and>
     (\<forall>out. writer_at e = WWriting out \<longrightarrow> out_ok T (local e) out)"

lemma faithfulD:
  assumes "faithful T R e"
  shows "valid_config (cfg e)" and "map_of (rpcs e) k = Some p \<Longrightarrow> p < length (heap e) \<and> r_key (heap e ! p) = k"
    and "p < length (heap e) \<Longrightarrow> rpc_faith T R (heap e ! p)"
    and "(p, b) \<in> set (handlers e) \<Longrightarrow> p < length (heap e) \<and> handed R (r_key (heap e ! p)) b"
    and "q \<in> set (outbound e) \<Longrightarrow> out \<in> set q \<Longrightarrow> out_ok T (local e) out"
    and "writer_at e = WWriting out \<Longrightarrow> out_ok T (local e) out"
  using assms unfolding faithful_def by blast+

text \<open>The fields that matter.\<close>

lemma faith_same:
  assumes "faithful T R e" and "local e' = local e" "cfg e' = cfg e" "heap e' = heap e" "rpcs e' = rpcs e"
    "handlers e' = handlers e" "outbound e' = outbound e" "writer_at e' = writer_at e"
  shows "faithful T R e'"
  using assms by (simp add: faithful_def)

lemma faith_update [faith_intros]:
  assumes "faithful T R e"
  shows "faithful T R (upd_st g e)" and "faithful T R (add_buffered n e)" and "faithful T R (count_invalid e)"
    and "faithful T R (count_dropped e)" and "faithful T R (snd (time_now e))" and "faithful T R (snd (range_keys e))"
    and "faithful T R (e\<lparr>closed := c\<rparr>)" and "faithful T R (e\<lparr>io_closed := c\<rparr>)" and "faithful T R (e\<lparr>nextID := i\<rparr>)"
    and "faithful T R (e\<lparr>workers := w\<rparr>)" and "faithful T R (e\<lparr>wake := c\<rparr>)" and "faithful T R (e\<lparr>cutoff_table := t\<rparr>)"
  by (rule faith_same [OF assms];
      simp add: upd_st_def add_buffered_def count_invalid_def count_dropped_def time_now_def range_keys_def)+

lemma faith_reserve: "faithful T R e \<Longrightarrow> reserve n e = Some e' \<Longrightarrow> faithful T R e'"
  by (auto simp: reserve_def faith_intros split: if_splits)

lemma faith_upd_rpc:
  assumes e: "faithful T R e"
    and f: "p < length (heap e) \<Longrightarrow> rpc_faith T R (heap e ! p) \<Longrightarrow>
      rpc_faith T R (f (heap e ! p)) \<and> r_key (f (heap e ! p)) = r_key (heap e ! p)"
  shows "faithful T R (upd_rpc p f e)"
proof -
  have key: "r_key (heap (upd_rpc p f e) ! q) = r_key (heap e ! q)" for q
    using f faithfulD(3) [OF e] by (simp add: heap_upd_rpc)
  show ?thesis
    using e f unfolding faithful_def key by (simp add: heap_upd_rpc)
qed

lemma rpc_faith_untouched [simp]:
  "rpc_faith T R (r\<lparr>r_last := t\<rparr>) = rpc_faith T R r" "rpc_faith T R (r\<lparr>r_lastCutoff := t\<rparr>) = rpc_faith T R r"
  "rpc_faith T R (r\<lparr>r_cancel := x\<rparr>) = rpc_faith T R r" "rpc_faith T R (r\<lparr>r_sent := n\<rparr>) = rpc_faith T R r"
  "rpc_faith T R (r\<lparr>r_granted := n\<rparr>) = rpc_faith T R r" "rpc_faith T R (r\<lparr>r_priority := u\<rparr>) = rpc_faith T R r"
  "rpc_faith T R (r\<lparr>r_handling := b\<rparr>) = rpc_faith T R r" "rpc_faith T R (r\<lparr>r_deadline := t\<rparr>) = rpc_faith T R r"
  by (simp_all add: rpc_faith_def)

lemma faith_untouched [faith_intros]:
  assumes "faithful T R e"
  shows "faithful T R (upd_rpc p (\<lambda>r. r\<lparr>r_last := f1 r\<rparr>) e)" "faithful T R (upd_rpc p (\<lambda>r. r\<lparr>r_lastCutoff := f1 r\<rparr>) e)"
    "faithful T R (upd_rpc p (\<lambda>r. r\<lparr>r_cancel := f2 r\<rparr>) e)" "faithful T R (upd_rpc p (\<lambda>r. r\<lparr>r_sent := f3 r\<rparr>) e)"
    "faithful T R (upd_rpc p (\<lambda>r. r\<lparr>r_granted := f3 r, r_priority := f4 r\<rparr>) e)"
  by (rule faith_upd_rpc [OF assms]; simp)+

section \<open>Sending\<close>

lemma faith_send:
  assumes e: "faithful T R e" and p: "built T (local e) peer p"
  shows "faithful T R (snd (send peer p pr e))"
proof (cases "Marshal (Val p)")
  case (Inr b)
  let ?out = "\<lparr>o_data = b, o_peer = IP peer, o_priority = pr,
    o_origin = map_of (rpcs e) \<lparr>key_peer = peer, key_id = SenderID (Header p)\<rparr>, o_typ = PacketType (Header p)\<rparr>"
  have ok: "out_ok T (local e) ?out" by (rule built_out [OF p Inr])
  have "faithful T R (e\<lparr>outbound := qs, wake := True\<rparr>)" if "enqueue (outbound e) (unat pr) ?out = Some qs" for qs
  proof -
    have "out \<in> set q \<longrightarrow> out_ok T (local e) out" if "q \<in> set qs" for q out
    proof -
      have "qs = (outbound e)[unat pr := outbound e ! unat pr @ [?out]]"
        using \<open>enqueue (outbound e) (unat pr) ?out = Some qs\<close> by (simp add: enqueue_def split: if_splits)
      then have "q \<in> set (outbound e) \<or> (unat pr < length (outbound e) \<and> q = outbound e ! unat pr @ [?out])"
        using that by (cases "unat pr < length (outbound e)") (auto simp: list_update_beyond dest: set_update_subset_insert [THEN subsetD])
      then show ?thesis using faithfulD(5) [OF e] ok nth_mem by fastforce
    qed
    then show ?thesis using e unfolding faithful_def by simp
  qed
  then show ?thesis using e Inr by (auto simp: send_def Let_def faith_intros split: option.split)
qed (use e in \<open>simp add: send_def\<close>)

lemma faith_send_ignore: "faithful T R e \<Longrightarrow> built T (local e) peer p \<Longrightarrow> faithful T R (send_ignore peer p pr e)"
  by (simp add: send_ignore_def faith_send)

lemma built_simps [simp]:
  assumes "l = local e"
  shows "built T l (key_peer k) (CommonPacket (common_hdr e k t))"
    "built T l (key_peer k) (Resend \<lparr>rs_common = common_hdr e k t, rs_offset = o1, rs_length = l1, rs_priority = u1\<rparr>)"
    "built T l (key_peer k) (Grant \<lparr>g_common = common_hdr e k t, g_offset = o1, g_priority = u1\<rparr>)"
    "built T l (key_peer k) (Ack \<lparr>a_common = common_hdr e k t, NumAcks = n1, Acks = replicate 5 x1\<rparr>)"
    "built T l (key_peer k) (Cutoffs \<lparr>c_common = common_hdr e k t, UnscheduledCutoffs = defaultCutoffs, c_cutoff_version = v1\<rparr>)"
  by (simp_all add: assms built_def wf_packet_def common_hdr_def size_defs defaultCutoffs_def)

lemma faith_control [faith_intros]: "faithful T R e \<Longrightarrow> faithful T R (control k t e)"
  by (simp add: control_def faith_send_ignore)

lemma faith_missing [faith_intros]: "faithful T R e \<Longrightarrow> faithful T R (requestMissing p e)"
  by (simp add: requestMissing_def Let_def faith_send_ignore split: option.split)

lemma segment_built:
  assumes "valid_config (cfg e)" and "rpc_faith T R r" and "start < length (r_tx r)"
  shows "built T (local e) (key_peer (r_key r)) (Data (data_segment e r start b))"
proof -
  let ?d = "data_segment e r start b" and ?fin = "min (start + seg e) (length (r_tx r))"
  have tx: "T (r_key r) (r_tx r)" "length (r_tx r) \<le> 1000000" using assms(2,3) by (auto simp: rpc_faith_def)
  note seg = seg_bounds [OF assms(1)]
  have small: "unat (of_nat n :: u32) = n" if "n \<le> 1000000" for n
    using that by (simp add: unsigned_of_nat take_bit_nat_eq_self)
  have "(of_nat start :: u32) \<noteq> SequenceOffset"
  proof
    assume "(of_nat start :: u32) = SequenceOffset"
    then have "unat (of_nat start :: u32) = unat SequenceOffset" by simp
    then show False using small [of start] assms(3) tx(2) by (simp add: SequenceOffset_def)
  qed
  then have off: "unat (EffectiveOffset ?d) = start"
    using small [of start] assms(3) tx(2) by (simp add: EffectiveOffset_def data_segment_def Let_def)
  have pl: "Payload ?d = subslice start ?fin (r_tx r)" "length (Payload ?d) = ?fin - start"
    by (simp_all add: data_segment_def Let_def)
  have ne: "Payload ?d \<noteq> []"
  proof
    assume "Payload ?d = []"
    then have "?fin - start = 0" using pl(2) by simp
    then show False using assms(3) seg(3) by simp
  qed
  have "seg_of (r_tx r) ?d"
    unfolding seg_of_def off using assms(3) tx(2) pl small ne by (simp add: data_segment_def Let_def)
  moreover have "Incoming ?d \<le> MessageLength ?d"
    using tx(2) small by (simp add: word_le_nat_alt data_segment_def Let_def)
  ultimately have "data_ok (r_tx r) ?d" using tx by (simp add: data_ok_def)
  moreover have "length (Payload ?d) \<le> 1424" using pl(2) seg by simp
  moreover have "d_common ?d = common_hdr e (r_key r) DataType" "length (Padding ?d) = 3"
    by (simp_all add: data_segment_def Let_def)
  ultimately show ?thesis using tx(1) by (auto simp: built_def wf_packet_def common_hdr_def)
qed

lemma faith_segment:
  assumes "faithful T R e" and "p < length (heap e)" and "start < length (r_tx (heap e ! p))"
  shows "faithful T R (snd (sendSegment p start b pr e))"
proof -
  let ?e = "if b then upd_st (\<lambda>s. s\<lparr>Retransmissions := Retransmissions s + 1\<rparr>) e else e"
  have "built T (local e) (key_peer (r_key (heap e ! p))) (Data (data_segment e (heap e ! p) start b))"
    by (rule segment_built [OF faithfulD(1,3) [OF assms(1)]]) (use assms in auto)
  moreover have "local ?e = local e" by (simp add: upd_st_def)
  moreover have "faithful T R ?e" using assms(1) by (simp add: faith_intros)
  ultimately show ?thesis
    unfolding sendSegment_def Let_def by (intro faith_send) (simp_all only:)
qed

lemma faith_sendNew_loop:
  "faithful T R e \<Longrightarrow> p < length (heap e) \<Longrightarrow> faithful T R (snd (sendNew_loop n p e))"
proof (induction n arbitrary: e)
  case (Suc n)
  let ?r = "heap e ! p"
  let ?e1 = "upd_rpc p (\<lambda>r. r\<lparr>r_sent := min (r_sent ?r + seg e) (length (r_tx r))\<rparr>) e"
  show ?case
  proof (cases "r_sent ?r < min (r_granted ?r) (length (r_tx ?r))")
    case True
    obtain x e2 where s: "sendSegment p (r_sent ?r) False (r_priority ?r) ?e1 = (x, e2)"
      by (cases "sendSegment p (r_sent ?r) False (r_priority ?r) ?e1")
    have "faithful T R ?e1" by (rule faith_untouched) fact
    then have "faithful T R (snd (sendSegment p (r_sent ?r) False (r_priority ?r) ?e1))"
      by (rule faith_segment) (use Suc.prems True in simp_all)
    then have "faithful T R e2" "length (heap e2) = length (heap e)"
      using s bk_segment.fields(4) [of p "r_sent ?r" False "r_priority ?r" ?e1] by simp_all
    then show ?thesis using Suc True s by (cases x) (simp_all add: Let_def)
  qed (use Suc.prems in \<open>auto simp: Let_def\<close>)
qed simp

lemma faith_sendNew: "faithful T R e \<Longrightarrow> p < length (heap e) \<Longrightarrow> faithful T R (snd (sendNew p e))"
  by (simp add: sendNew_def faith_sendNew_loop)

lemma faith_resend_loop:
  "faithful T R e \<Longrightarrow> p < length (heap e) \<Longrightarrow> faithful T R (resend_loop n p a b pr e)"
proof (induction n arbitrary: a e)
  case (Suc n)
  then show ?case by (auto simp: Let_def bk_segment.fields intro!: Suc.IH faith_segment)
qed simp

lemma faith_resend: "faithful T R e \<Longrightarrow> p < length (heap e) \<Longrightarrow> faithful T R (resend_range p a b pr e)"
  by (simp add: resend_range_def Let_def faith_resend_loop)

section \<open>Removing and finishing\<close>

lemma faith_retire:
  assumes e: "faithful T R e" and p: "p < length (heap e)" and r: "rpc_faith T R r'" "r_key r' = r_key (heap e ! p)"
  shows "faithful T R (retire p r' e)"
proof -
  have key: "r_key ((heap e)[p := r'] ! q) = r_key (heap e ! q)" for q using p r(2) by (cases "q = p") simp_all
  have heap: "rpc_faith T R ((heap e)[p := r'] ! q)" if "q < length (heap e)" for q
    using faithfulD(3) [OF e that] r(1) p by (cases "q = p") simp_all
  show ?thesis
    using e unfolding faithful_def retire_def
    by (simp add: key heap delete_conv' del: fun_upd_apply) (auto split: if_splits)
qed

lemma faith_live: "faithful T R e \<Longrightarrow> live e p \<Longrightarrow> p < length (heap e)"
  using faithfulD(2) [of T R e] by (simp add: live_def)

lemma faith_remove [faith_intros]: "faithful T R e \<Longrightarrow> faithful T R (remove p e)"
proof (cases "live e p")
  case True
  assume e: "faithful T R e"
  note p = faith_live [OF e True]
  have "rpc_faith T R (killed (heap e ! p))"
    using faithfulD(3) [OF e p] by (simp add: rpc_faith_def killed_def)
  then show ?thesis using True p by (simp add: remove_eq faith_retire [OF e p] killed_def)
qed (simp add: remove_def)

lemma faith_finish:
  assumes e: "faithful T R e" and d: "\<And>m. live e p \<Longrightarrow> err = None \<Longrightarrow> R (r_key (heap e ! p)) = Some m \<Longrightarrow> data = m"
  shows "faithful T R (finish p data err e)"
proof (cases "live e p")
  case True
  note p = faith_live [OF e True]
  have "rpc_faith T R (delivered data err (heap e ! p))"
    using faithfulD(3) [OF e p] d [OF True] by (auto simp: rpc_faith_def delivered_def killed_def)
  then show ?thesis using True p by (simp add: finish_eq faith_retire [OF e p] delivered_def killed_def)
qed (use e in \<open>simp add: finish_def\<close>)

lemma faith_fail [faith_intros]: "faithful T R e \<Longrightarrow> faithful T R (finish p data (Some err) e)"
  by (rule faith_finish) simp_all

lemma faith_for_rpcs:
  assumes "\<And>p e. faithful T R e \<Longrightarrow> p < length (heap e) \<Longrightarrow> faithful T R (f p e)" and "faithful T R e"
  shows "faithful T R (for_rpcs f e)"
proof -
  have "faithful T R (fold (visit f) ks e)" if "faithful T R e" for ks e
    using that
  proof (induction ks arbitrary: e)
    case (Cons k ks)
    then show ?case using faithfulD(2) [OF Cons.prems] assms(1)
      by (auto simp: visit_def split: option.splits)
  qed simp
  then show ?thesis using assms(2) by (simp add: for_rpcs_def split_beta faith_intros)
qed

lemma faith_shutdown [faith_intros]: "faithful T R e \<Longrightarrow> faithful T R (shutdown err e)"
  by (auto simp: shutdown_def Let_def intro!: faith_intros faith_for_rpcs)

section \<open>Granting and handlers\<close>

lemma faith_grant_loop:
  "faithful T R e \<Longrightarrow> \<forall>p \<in> set ps. p < length (heap e) \<Longrightarrow> faithful T R (grant_loop rank ps e)"
proof (induction rank ps e rule: grant_loop.induct)
  case (2 rank p ps e)
  show ?case
  proof (cases "r_rx (heap e ! p)")
    case (Some a)
    let ?fin = "min (length (a_data a)) (a_count a + nat (GrantWindow (cfg e)))"
    let ?e = "upd_rpc p (\<lambda>r. r\<lparr>r_rx := Some (a\<lparr>a_granted := ?fin\<rparr>)\<rparr>) e"
    have "faithful T R ?e"
      using Some by (intro faith_upd_rpc [OF "2.prems"(1)]) (auto simp: rpc_faith_def complete_def)
    then have "faithful T R (send_ignore (key_peer (r_key (heap ?e ! p)))
        (Grant \<lparr>g_common = common_hdr ?e (r_key (heap ?e ! p)) GrantType, g_offset = of_nat ?fin,
           g_priority = of_nat (3 - rank)\<rparr>) 7 ?e)"
      by (rule faith_send_ignore) (rule built_simps, rule refl)
    then show ?thesis using 2 Some by (auto simp: Let_def bk_send_ignore.fields)
  qed (use 2 in auto)
qed simp

lemma faith_schedule [faith_intros]:
  assumes "faithful T R e"
  shows "faithful T R (schedule e)"
proof -
  have "p < length (heap e)" if "p \<in> set (List.map_filter (map_of (rpcs e)) ks)" for p ks
    using that faithfulD(2) [OF assms] by (auto simp: List.map_filter_def)
  then show ?thesis
    unfolding schedule_def Let_def split_beta
    by (intro faith_grant_loop faith_intros assms) (auto simp: bk_range.fields)
qed

lemma faith_started:
  assumes e: "faithful T R e" and p: "p < length (heap e)" and a: "r_rx (heap e ! p) = Some a" "complete a"
    and k: "is_server (r_key (heap e ! p))"
  shows "faithful T R (started p a e)"
proof -
  let ?r = "(heap e ! p)\<lparr>r_handling := True, r_rx := None, r_cancel := Some False\<rparr>"
  have r: "rpc_faith T R (heap e ! p)" by (rule faithfulD(3) [OF e p])
  then have data: "handed R (r_key (heap e ! p)) (a_data a)" using a k part_complete by (auto simp: rpc_faith_def handed_def)
  have "rpc_faith T R ?r" using r by (simp add: rpc_faith_def)
  then have "faithful T R (upd_rpc p (\<lambda>r. ?r) e)" using e by (intro faith_upd_rpc) simp_all
  then have "faithful T R ((upd_rpc p (\<lambda>r. ?r) e)\<lparr>handlers := handlers e @ [(p, a_data a)]\<rparr>)"
    using p data unfolding faithful_def by (auto simp: heap_upd_rpc)
  then show ?thesis by (rule faith_same) (simp_all add: started_def upd_rpc_def)
qed

lemma faith_startHandler:
  assumes e: "faithful T R e" and p: "p < length (heap e)" and r: "r_received (heap e ! p)"
    and k: "is_server (r_key (heap e ! p))"
  shows "faithful T R (startHandler p e)"
proof (cases "r_rx (heap e ! p)")
  case (Some a)
  have "complete a" using faithfulD(3) [OF e p] Some r by (simp add: rpc_faith_def)
  then have "faithful T R (started p a (snd (time_now e)))"
    using k by (intro faith_started faith_intros e) (simp_all add: bk_time.fields p Some)
  then show ?thesis using e Some by (simp add: startHandler_eq split_beta Let_def faith_intros)
qed (use e in \<open>simp add: startHandler_def\<close>)

lemma faith_start_waiting: "faithful T R e \<Longrightarrow> p < length (heap e) \<Longrightarrow> faithful T R (start_waiting p e)"
  by (simp add: start_waiting_def Let_def faith_startHandler)

lemma faith_sendNew_or:
  assumes "faithful T R e" and "p < length (heap e)" and "\<And>x e. faithful T R e \<Longrightarrow> faithful T R (f x e)"
  shows "faithful T R (case sendNew p e of (None, e) \<Rightarrow> e | (Some x, e) \<Rightarrow> f x e)"
proof -
  have "faithful T R (snd (sendNew p e))" by (rule faith_sendNew) fact+
  then show ?thesis using assms(3) by (auto split: prod.splits option.splits)
qed

lemma faith_reply:
  assumes e: "faithful T R e" and t: "live e p \<Longrightarrow> response = [] \<or> T (r_key (heap e ! p)) response"
  shows "faithful T R (handler_reply p response e)"
proof (cases "closed e \<or> \<not> live e p \<or> response = [] \<or> int (length response) > MaxMessageSize (cfg e) \<or>
    reserve (int (length response)) e = None")
  case True
  then show ?thesis using e by (auto simp: handler_reply_def split: option.split)
next
  case False
  then obtain e1 where r1: "reserve (int (length response)) e = Some e1" by auto
  have e1: "faithful T R e1" "heap e1 = heap e" "cfg e1 = cfg e"
    using faith_reserve [OF e r1] r1 by (auto simp: reserve_def split: if_splits)
  have p: "p < length (heap e)" using faith_live [OF e] False by blast
  have len: "length response \<le> 1000000"
    using False faithfulD(1) [OF e] by (simp add: valid_config_def maxMessage_def)
  let ?f = "\<lambda>r. r\<lparr>r_tx := response, r_granted := min (length response) (nat (UnscheduledBytes (cfg e1))),
      r_priority := unsched e1 (IP (key_peer (r_key r))) (length response)\<rparr>"
  have e2: "faithful T R (upd_rpc p ?f e1)"
    using e1 len t False by (intro faith_upd_rpc) (simp_all add: rpc_faith_def)
  have "faithful T R (for_rpcs start_waiting (case sendNew p (upd_rpc p (\<lambda>r. r\<lparr>r_last := now\<rparr>)
      (snd (time_now (upd_rpc p ?f e1)))) of (None, e) \<Rightarrow> e | (Some err, e) \<Rightarrow> remove p e))" for now
    by (intro faith_for_rpcs faith_start_waiting faith_sendNew_or faith_intros e2)
      (simp_all add: bk_time.fields e1 p)
  then show ?thesis using False r1 by (simp add: handler_reply_def split_beta Let_def)
qed

lemma faith_handler_done:
  assumes e: "faithful T R e" and i: "i < length (handlers e)"
    and t: "live e (fst (handlers e ! i)) \<Longrightarrow> response = [] \<or> T (r_key (heap e ! fst (handlers e ! i))) response"
  shows "faithful T R (handler_done i response e)"
proof -
  obtain p payload where h: "handlers e ! i = (p, payload)" by (cases "handlers e ! i")
  let ?e = "add_buffered (- int (length payload)) (e\<lparr>handlers := take i (handlers e) @ drop (Suc i) (handlers e),
    workers := workers e - 1\<rparr>)"
  have "set (take i (handlers e) @ drop (Suc i) (handlers e)) \<subseteq> set (handlers e)"
    using set_take_subset [of i "handlers e"] set_drop_subset [of "Suc i" "handlers e"] by auto
  then have "faithful T R (e\<lparr>handlers := take i (handlers e) @ drop (Suc i) (handlers e)\<rparr>)"
    using e unfolding faithful_def by auto
  then have "faithful T R (handler_reply p response ?e)"
    using t h by (intro faith_reply faith_intros) (simp_all add: live_def)
  then show ?thesis by (simp add: handler_done_def h Let_def faith_intros)
qed

section \<open>Receiving\<close>

lemma faith_ack_rpc [faith_intros]: "faithful T R e \<Longrightarrow> faithful T R (ack_rpc ip a e)"
  by (auto simp: ack_rpc_def split_beta Let_def visit_def faith_intros split: option.split)

text \<open>What holds of the RPC a DATA packet is stored in.\<close>

definition receiving :: "rpcKey \<Rightarrow> nat \<Rightarrow> endpoint \<Rightarrow> bool" where
  "receiving key p e \<longleftrightarrow> map_of (rpcs e) key = Some p"

lemma receivingD:
  assumes "faithful T R e" and "receiving key p e"
  shows "p < length (heap e)" and "r_key (heap e ! p) = key" and "live e p"
  using faithfulD(2) [OF assms(1), of key p] assms(2) by (simp_all add: receiving_def live_def)

lemma faith_data_rpc:
  assumes e: "faithful T R e" and d: "data_rpc key e = (r, e')"
  shows "faithful T R e'" and "r = Some p \<Longrightarrow> receiving key p e'"
proof -
  have alloc: "faithful T R (e2\<lparr>heap := heap e2 @ [(zero_rpc key)\<lparr>r_deadline := t1, r_last := t2\<rparr>],
      rpcs := AList.update key (length (heap e2)) (rpcs e2)\<rparr>)" if "faithful T R e2" for e2 t1 t2
    using that unfolding faithful_def
    by (auto simp: nth_append update_conv' zero_rpc_def rpc_faith_def less_Suc_eq split: if_splits)
  show "faithful T R e'" using d e alloc
    by (auto simp: data_rpc_def split_beta Let_def faith_intros split: option.splits if_splits)
  show "r = Some p \<Longrightarrow> receiving key p e'" using d
    by (auto simp: data_rpc_def split_beta Let_def receiving_def update_conv' split: option.splits if_splits)
qed

lemma faith_data_cutoffs:
  assumes e: "faithful T R e" and p: "receiving key p e"
  shows "faithful T R (data_cutoffs p (key_peer key) d e)" and "receiving key p (data_cutoffs p (key_peer key) d e)"
proof -
  have k: "r_key (heap (upd_rpc p (\<lambda>r. r\<lparr>r_lastCutoff := n\<rparr>) e2) ! p) = key" if "heap e2 = heap e" for n e2
    using receivingD [OF assms] that by (simp add: heap_upd_rpc)
  show "faithful T R (data_cutoffs p (key_peer key) d e)"
    using e by (simp add: data_cutoffs_def split_beta Let_def k bk_time.fields faith_intros faith_send_ignore)
  show "receiving key p (data_cutoffs p (key_peer key) d e)"
    using p by (simp add: receiving_def data_cutoffs_def split_beta Let_def bk_time.fields bk_send_ignore.fields)
qed

lemma faith_data_buffer:
  assumes e: "faithful T R e" and p: "receiving key p e" and s: "\<And>m. R key = Some m \<Longrightarrow> seg_of m d" and r: "\<not> r_received (heap e ! p)"
    and b: "data_buffer p key d e = (ok, e')"
  shows "faithful T R e'" and "ok \<Longrightarrow> receiving key p e' \<and> \<not> r_received (heap e' ! p)"
proof -
  note k = receivingD [OF e p]
  let ?n = "unat (MessageLength d)"
  let ?new = "upd_rpc p (\<lambda>r. r\<lparr>r_rx := Some (new_assembly ?n (unat (Incoming d)))\<rparr>)"
  have new: "faithful T R (?new e1)" "faithful T R (upd_rpc p (\<lambda>r. r\<lparr>r_tx := []\<rparr>) (add_buffered c (?new e1)))"
    if "faithful T R e1" "heap e1 = heap e" for e1 c
  proof -
    have "part m (new_assembly ?n (unat (Incoming d)))" if "R key = Some m" for m
      using seg_of_nonempty [OF s [OF that]] by (intro part_new) simp_all
    then show n: "faithful T R (?new e1)" using that k r by (intro faith_upd_rpc) (auto simp: rpc_faith_def)
    show "faithful T R (upd_rpc p (\<lambda>r. r\<lparr>r_tx := []\<rparr>) (add_buffered c (?new e1)))"
      by (intro faith_upd_rpc faith_intros n) (auto simp: rpc_faith_def)
  qed
  show "faithful T R e'"
  proof (cases "r_rx (heap e ! p)")
    case None
    show ?thesis
    proof (cases "reserve (int (?n + (?n + 7) div 8)) e")
      case None
      then show ?thesis using b e \<open>r_rx (heap e ! p) = None\<close> by (auto simp: data_buffer_def Let_def faith_intros)
    next
      case (Some e1)
      have "faithful T R e1" "heap e1 = heap e"
        using faith_reserve [OF e Some] Some by (auto simp: reserve_def split: if_splits)
      then show ?thesis using b new Some \<open>r_rx (heap e ! p) = None\<close> by (auto simp: data_buffer_def Let_def)
    qed
  qed (use b e in \<open>simp add: data_buffer_def\<close>)
  show "receiving key p e' \<and> \<not> r_received (heap e' ! p)" if ok
    using that b p r k
    by (auto simp: data_buffer_def Let_def receiving_def reserve_def heap_upd_rpc split: option.splits if_splits)
qed

lemma faith_data_complete:
  assumes e: "faithful T R e" and p: "receiving key p e" and a: "r_rx (heap e ! p) = Some a" "complete a"
  shows "faithful T R (data_complete p (key_peer key) key a e)"
proof -
  note k = receivingD [OF e p]
  let ?e1 = "upd_rpc p (\<lambda>r. r\<lparr>r_received := True\<rparr>) e"
  have e1: "faithful T R ?e1" using a by (intro faith_upd_rpc e) (simp add: rpc_faith_def)
  have data: "a_data a = m" if "R key = Some m" for m using that faithfulD(3) [OF e k(1)] a k(2) part_complete by (auto simp: rpc_faith_def)
  show ?thesis
  proof (cases "is_client key")
    case False
    then have "faithful T R (startHandler p ?e1)" using k by (intro faith_startHandler [OF e1]) (simp_all add: heap_upd_rpc server_iff)
    then show ?thesis using False by (simp add: data_complete_def Let_def faith_intros)
  next
    case True
    let ?ack = "Ack \<lparr>a_common = common_hdr ?e1 (r_key (heap ?e1 ! p)) AckType, NumAcks = 0, Acks = replicate 5 no_ack\<rparr>"
    let ?e2 = "send_ignore (key_peer key) ?ack 7 ?e1"
    have "built T (local ?e1) (key_peer key) ?ack" using k by simp
    then have e2: "faithful T R ?e2" by (intro faith_send_ignore e1)
    let ?f = "\<lambda>r. r\<lparr>r_rx := Some (a\<lparr>a_data := []\<rparr>)\<rparr>"
    let ?e4 = "upd_st (\<lambda>s. s\<lparr>CompletedCalls := CompletedCalls s + 1\<rparr>) (add_buffered (- int (length (a_data a))) (upd_rpc p ?f ?e2))"
    have live4: "live ?e4 p"
      using k(3) by (simp add: live_def upd_st_def bk_send_ignore.fields heap_upd_rpc)
    have len4: "p < length (heap ?e4)" using k(1) by (simp add: upd_st_def bk_send_ignore.fields)
    have "finish p (a_data a) None ?e4 = retire p (delivered (a_data a) None (heap ?e4 ! p)) ?e4"
      unfolding finish_eq [OF len4] using live4 by (simp only: if_True)
    moreover have "faithful T R (retire p (delivered (a_data a) None (heap ?e4 ! p)) ?e4)"
    proof (rule faith_same [OF faith_retire [OF e2, of p "delivered (a_data a) None (heap ?e4 ! p)"]])
      show "p < length (heap ?e2)" using k(1) by (simp add: bk_send_ignore.fields)
      show "rpc_faith T R (delivered (a_data a) None (heap ?e4 ! p))"
        using faithfulD(3) [OF e k(1)] k data
        by (auto simp: rpc_faith_def delivered_def killed_def upd_st_def bk_send_ignore.fields heap_upd_rpc)
      show "r_key (delivered (a_data a) None (heap ?e4 ! p)) = r_key (heap ?e2 ! p)"
        using k(1) by (simp add: delivered_def killed_def upd_st_def bk_send_ignore.fields)
    qed (simp_all add: retire_def upd_st_def upd_rpc_def)
    ultimately show ?thesis using True by (simp add: data_complete_def Let_def)
  qed
qed

lemma faith_data_store:
  assumes e: "faithful T R e" and p: "receiving key p e" and s: "\<And>m. R key = Some m \<Longrightarrow> seg_of m d" and r: "\<not> r_received (heap e ! p)"
  shows "faithful T R (data_store p (key_peer key) key d e)"
proof (cases "r_rx (heap e ! p)")
  case (Some a)
  note k = receivingD [OF e p]
  show ?thesis
  proof (cases "length (a_data a) \<noteq> unat (MessageLength d) \<or>
      add_segment a (unat (EffectiveOffset d)) (Payload d) (unat (Incoming d)) = None")
    case True
    then show ?thesis using Some e by (auto simp: data_store_def faith_intros)
  next
    case False
    then obtain b where b: "add_segment a (unat (EffectiveOffset d)) (Payload d) (unat (Incoming d)) = Some b" by auto
    have "part m a" if "R key = Some m" for m using that faithfulD(3) [OF e k(1)] k(2) Some by (simp add: rpc_faith_def)
    then have pb: "part m b" if "R key = Some m" for m using that by (intro part_add [OF _ s b])
    let ?e = "upd_rpc p (\<lambda>r. r\<lparr>r_rx := Some b\<rparr>) e"
    have "faithful T R ?e" using pb r k by (intro faith_upd_rpc e) (auto simp: rpc_faith_def)
    moreover have "receiving key p ?e" using p by (simp add: receiving_def)
    ultimately show ?thesis
      using Some False b k by (auto simp: data_store_def Let_def faith_intros faith_data_complete)
  qed
qed (use e in \<open>simp add: data_store_def\<close>)

lemma faith_data_handler:
  assumes e: "faithful T R e" and s: "\<And>m. R key = Some m \<Longrightarrow> seg_of m d"
  shows "faithful T R (data_handler (key_peer key) key d e)"
proof -
  let ?e = "ack_rpc (IP (key_peer key)) (d_ack d) e"
  obtain r e1 where d1: "data_rpc key ?e = (r, e1)" by (cases "data_rpc key ?e")
  have e1: "faithful T R e1" "\<And>p. r = Some p \<Longrightarrow> receiving key p e1"
    using faith_data_rpc [OF faith_ack_rpc [OF e] d1] by simp_all
  have body: "faithful T R (let e = data_cutoffs p (key_peer key) d e1 in
           if r_received (heap e ! p) then e
           else (case data_buffer p key d e of (False, e) \<Rightarrow> e | (True, e) \<Rightarrow> data_store p (key_peer key) key d e))"
    if "r = Some p" for p
  proof -
    let ?c = "data_cutoffs p (key_peer key) d e1"
    have c: "faithful T R ?c" "receiving key p ?c" using faith_data_cutoffs [OF e1(1) e1(2) [OF that]] by simp_all
    obtain ok e2 where b: "data_buffer p key d ?c = (ok, e2)" by (cases "data_buffer p key d ?c")
    show ?thesis
    proof (cases "r_received (heap ?c ! p)")
      case False
      note b2 = faith_data_buffer [OF c s False b]
      show ?thesis using b b2 faith_data_store [OF b2(1) _ s] False by (cases ok) (simp_all add: Let_def)
    qed (use c in \<open>simp add: Let_def\<close>)
  qed
  show ?thesis using e e1 d1 body by (cases r) (auto simp: data_handler_def faith_intros Let_def)
qed

lemma faith_receive_grant:
  assumes "faithful T R e" and "\<And>p. r = Some p \<Longrightarrow> p < length (heap e)"
  shows "faithful T R (receive_grant r v e)"
  using assms
  by (cases r) (auto simp: receive_grant_def Let_def intro!: faith_sendNew_or faith_intros)

lemma faith_receive_resend:
  assumes "faithful T R e" and "\<And>p. r = Some p \<Longrightarrow> p < length (heap e)"
  shows "faithful T R (receive_resend key r v e)"
proof (cases r)
  case (Some p)
  let ?fin = "if rs_length v \<noteq> ResendAll then min (length (r_tx (heap e ! p))) (unat (rs_offset v) + unat (rs_length v))
    else r_sent (heap e ! p)"
  let ?e1 = "resend_range p (unat (rs_offset v)) ?fin (rs_priority v) e"
  let ?e2 = "if ?fin > r_granted (heap ?e1 ! p)
    then snd (sendNew p (upd_rpc p (\<lambda>r. r\<lparr>r_granted := ?fin, r_priority := rs_priority v\<rparr>) ?e1)) else ?e1"
  have p: "p < length (heap e)" using assms(2) Some by simp
  have len: "length (heap ?e1) = length (heap e)" by (simp add: bk_resend.fields)
  have "faithful T R ?e1" by (rule faith_resend) (use assms(1) p in simp_all)
  then have "faithful T R ?e2" using p len by (auto intro!: faith_sendNew faith_intros)
  then show ?thesis using assms(1) Some
    unfolding receive_resend_def Let_def by (simp add: faith_intros)
qed (use assms in \<open>simp add: receive_resend_def faith_intros\<close>)

lemma faith_receive_unknown:
  assumes "faithful T R e" and "\<And>p. r = Some p \<Longrightarrow> p < length (heap e)"
  shows "faithful T R (receive_unknown ip r e)"
  using assms by (cases r) (simp_all add: receive_unknown_def Let_def faith_intros faith_resend)

lemma faith_receive_need_ack: "faithful T R e \<Longrightarrow> faithful T R (receive_need_ack (key_peer key) key r e)"
  by (cases r) (simp_all add: receive_need_ack_def Let_def faith_intros faith_send_ignore)

lemma faith_receive_ack: "faithful T R e \<Longrightarrow> faithful T R (receive_ack ip key r v e)"
proof -
  have "faithful T R (fold (ack_rpc ip) as e)" if "faithful T R e" for as e
    using that by (induction as arbitrary: e) (simp_all add: faith_intros)
  then show "faithful T R e \<Longrightarrow> faithful T R (receive_ack ip key r v e)"
    by (simp add: receive_ack_def Let_def faith_intros split: option.split)
qed

lemma faith_touch: "faithful T R e \<Longrightarrow> faithful T R (touch h r e)"
  by (simp add: touch_def split_beta Let_def faith_intros split: option.split)

text \<open>What the endpoint at \<open>l\<close> relies on when \<open>b\<close> arrives from \<open>ip\<close>.\<close>

definition hears :: "expected_rx \<Rightarrow> addr \<Rightarrow> netip \<Rightarrow> bytes \<Rightarrow> bool" where
  "hears R l ip b \<longleftrightarrow> (\<forall>d. Parse b = Inr (Data d) \<longrightarrow> DestinationPort (d_common d) = Port l \<longrightarrow>
     (\<forall>m. R \<lparr>key_peer = \<lparr>IP = ip, Port = SourcePort (d_common d)\<rparr>, key_id = LocalID (d_common d)\<rparr> = Some m \<longrightarrow> seg_of m d))"

lemma faith_receive:
  assumes e: "faithful T R e" and s: "\<And>d m. p = Data d \<Longrightarrow> DestinationPort (d_common d) = Port (local e) \<Longrightarrow>
    R \<lparr>key_peer = \<lparr>IP = ip, Port = SourcePort (d_common d)\<rparr>, key_id = LocalID (d_common d)\<rparr> = Some m \<Longrightarrow> seg_of m d"
  shows "faithful T R (receive ip p e)"
proof -
  let ?h = "Header p"
  define key where "key = \<lparr>key_peer = \<lparr>IP = ip, Port = SourcePort ?h\<rparr>, key_id = LocalID ?h\<rparr>"
  define r where "r = map_of (rpcs e) key"
  let ?e = "touch ?h r e"
  have e1: "faithful T R ?e" by (rule faith_touch [OF e])
  have "length (heap ?e) = length (heap e)"
    by (simp add: touch_def split_beta Let_def bk_time.fields split: option.split)
  then have bound: "q < length (heap ?e)" if "r = Some q" for q
    using faithfulD(2) [OF e, of key q] that by (simp add: r_def)
  show ?thesis
  proof (cases "\<not> Is4 ip \<or> IsUnspecified ip \<or> IsMulticast ip \<or> DestinationPort ?h \<noteq> Port (local e) \<or>
         SourcePort ?h = 0 \<or> SenderID ?h = 0")
    case False
    have "receive ip p e = (case p of
                 Data v \<Rightarrow> data_handler (key_peer key) key v ?e
               | Grant v \<Rightarrow> receive_grant r v ?e
               | Resend v \<Rightarrow> receive_resend key r v ?e
               | RPCUnknown _ \<Rightarrow> receive_unknown ip r ?e
               | Busy _ \<Rightarrow> ?e
               | NeedAck _ \<Rightarrow> receive_need_ack (key_peer key) key r ?e
               | Ack v \<Rightarrow> receive_ack ip key r v ?e
               | Cutoffs v \<Rightarrow> receive_cutoffs ip v ?e
               | Freeze _ \<Rightarrow> ?e
               | CommonPacket _ \<Rightarrow> ?e)"
      using False by (cases p) (simp_all add: receive_def Let_def r_def key_def)
    moreover have "seg_of m v" if "p = Data v" "R key = Some m" for v m
      using s [OF that(1)] False that by (simp add: key_def)
    ultimately show ?thesis
      using e1 bound
      by (cases p) (simp_all add: faith_data_handler faith_receive_grant faith_receive_resend faith_receive_unknown
          faith_receive_need_ack faith_receive_ack receive_cutoffs_def faith_intros)
  qed (use e in \<open>simp add: receive_def Let_def\<close>)
qed

lemma faith_read_packet:
  assumes e: "faithful T R e" and h: "hears R (local e) ip b"
  shows "faithful T R (read_packet ip b e)"
proof (cases "Parse b")
  case (Inr p)
  have "faithful T R (receive ip p (upd_st (\<lambda>s. s\<lparr>ReceivedPackets := ReceivedPackets s + 1\<rparr>) e))"
    using h Inr by (intro faith_receive faith_intros e) (simp add: hears_def upd_st_def)
  then show ?thesis using e Inr by (simp add: read_packet_def)
qed (use e in \<open>simp add: read_packet_def faith_intros\<close>)

section \<open>The goroutines and the API\<close>

lemma faith_timer_rpc:
  assumes e: "faithful T R e" and p: "p < length (heap e)"
  shows "faithful T R (timer_rpc now p e)"
  using faith_start_waiting [OF assms] e by (simp add: timer_rpc_def Let_def faith_intros)

lemma faith_timer_tick: "faithful T R e \<Longrightarrow> faithful T R (timer_tick now e)"
  by (auto simp: timer_tick_def intro!: faith_intros faith_for_rpcs faith_timer_rpc)

lemma faith_writer_pick:
  assumes "faithful T R e"
  shows "faithful T R (writer_pick e)"
proof (cases "closed e \<or> dequeue (outbound e) = None")
  case True
  then show ?thesis using assms by (auto simp: writer_pick_def faithful_def)
next
  case False
  then obtain out qs where d: "dequeue (outbound e) = Some (out, qs)" by auto
  then obtain i where i: "i < length (outbound e)" "outbound e ! i \<noteq> []" "out = hd (outbound e ! i)"
      "qs = (outbound e)[i := tl (outbound e ! i)]"
    using dequeue_below_Some [of "outbound e" "length (outbound e)" out qs] by (auto simp: dequeue_def)
  have out: "out_ok T (local e) out"
    using faithfulD(5) [OF assms, of "outbound e ! i" out] i by simp
  have "out_ok T (local e) x" if "q \<in> set qs" "x \<in> set q" for q x
  proof -
    have "q \<in> set (outbound e) \<or> q = tl (outbound e ! i)"
      using that(1) set_update_subset_insert [of "outbound e" i "tl (outbound e ! i)"] by (auto simp: i(4))
    then have "\<exists>q' \<in> set (outbound e). x \<in> set q'"
      using that(2) i(1,2) nth_mem by (metis list.set_sel(2))
    then show ?thesis using faithfulD(5) [OF assms] by blast
  qed
  then have e1: "faithful T R (e\<lparr>outbound := qs\<rparr>)" using assms unfolding faithful_def by auto
  have s: "snd (stale out (e\<lparr>outbound := qs\<rparr>)) = e\<lparr>outbound := qs\<rparr> \<or>
      snd (stale out (e\<lparr>outbound := qs\<rparr>)) = snd (time_now (e\<lparr>outbound := qs\<rparr>))"
    by (simp add: stale_def split_beta Let_def split: option.split)
  then have e2: "faithful T R (snd (stale out (e\<lparr>outbound := qs\<rparr>)))" using e1 by (auto simp: faith_intros)
  moreover have "local (snd (stale out (e\<lparr>outbound := qs\<rparr>))) = local e" using s by (auto simp: bk_time.fields)
  ultimately have "faithful T R ((snd (stale out (e\<lparr>outbound := qs\<rparr>)))\<lparr>writer_at := WWriting out\<rparr>)"
    using out unfolding faithful_def by auto
  then show ?thesis using False d e2 by (simp add: writer_pick_def split_beta Let_def faith_intros)
qed

lemma faith_writer_at: "faithful T R e \<Longrightarrow> \<forall>out. w \<noteq> WWriting out \<Longrightarrow> faithful T R (e\<lparr>writer_at := w\<rparr>)"
  unfolding faithful_def by auto

lemma faith_writer:
  assumes "faithful T R e"
  shows "faithful T R (writer_wrote x e)" and "faithful T R (writer_wakeup e)" and "faithful T R (writer_done e)"
proof -
  show "faithful T R (writer_wrote x e)"
    using assms
    by (auto simp: writer_wrote_def Let_def intro!: faith_writer_at faith_intros split: writer.split option.split)
  show "faithful T R (writer_wakeup e)" "faithful T R (writer_done e)"
    using faith_writer_at [OF faith_update(11) [OF assms]] faith_writer_at [OF assms] assms
    by (auto simp: writer_wakeup_def writer_done_def)
qed

lemma faith_call_start:
  assumes e: "faithful T R e"
    and t: "call_accepted x peer request e \<Longrightarrow> T \<lparr>key_peer = peer, key_id = next_id (nextID e)\<rparr> request"
  shows "faithful T R (snd (call_start x d peer request e))"
proof (cases "call_accepted x peer request e")
  case True
  let ?key = "\<lparr>key_peer = peer, key_id = next_id (nextID e)\<rparr>"
  let ?c = "call_ready request e" and ?s = "call_state d peer request e"
  have c: "faithful T R ?c" "heap ?c = heap e" "cfg ?c = cfg e"
    using e by (simp_all add: call_ready_def faith_intros bk_time.fields)
  have "length request \<le> 1000000"
    using True faithfulD(1) [OF e] by (simp add: call_accepted_def valid_config_def maxMessage_def)
  then have r: "rpc_faith T R (call_rpc ?key request (cfg e) pr dl now)" "r_key (call_rpc ?key request (cfg e) pr dl now) = ?key"
    for pr dl now
    using t [OF True] by (simp_all add: rpc_faith_def call_rpc_def zero_rpc_def)
  have "faithful T R (allocated r ?c)" if "rpc_faith T R r" "r_key r = ?key" for r
    using c(1) that unfolding faithful_def allocated_def
    by (auto simp: nth_append update_conv' less_Suc_eq split: if_splits)
  then have "faithful T R ?s" using r by (simp add: call_state_def)
  moreover have "length (heap e) < length (heap ?s)" by (simp add: call_state_def allocated_def c)
  ultimately show ?thesis
    by (simp add: call_start_accepted [OF True]) (intro faith_sendNew_or faith_intros; simp)
qed (use e in \<open>simp add: call_start_refused\<close>)

lemma faith_New:
  assumes "New l c h seed clk ord = Inr e"
  shows "faithful T R e"
proof -
  obtain d where "defaults c = Some d" "cfg e = d" "heap e = []" "rpcs e = []" "handlers e = []"
      "outbound e = make_channels" "writer_at e = WTop"
    using assms by (auto simp: New_def split: option.splits if_splits)
  then show ?thesis using defaults_valid by (auto simp: faithful_def make_channels_def)
qed

text \<open>What each event has to bring along.\<close>

fun good_event :: "expected_tx \<Rightarrow> expected_rx \<Rightarrow> event \<Rightarrow> endpoint \<Rightarrow> bool" where
  "good_event T R (CallStart x d peer request) e \<longleftrightarrow>
     (call_accepted x peer request e \<longrightarrow> T \<lparr>key_peer = peer, key_id = next_id (nextID e)\<rparr> request)"
| "good_event T R (Datagram ip b) e \<longleftrightarrow> hears R (local e) ip b"
| "good_event T R (HandlerReturned i response) e \<longleftrightarrow>
     (live e (fst (handlers e ! i)) \<longrightarrow> response = [] \<or> T (r_key (heap e ! fst (handlers e ! i))) response)"
| "good_event T R _ e \<longleftrightarrow> True"

lemma faith_step:
  assumes "faithful T R e" and "enabled ev e" and "good_event T R ev e"
  shows "faithful T R (step ev e)"
  using assms
  by (cases ev) (simp_all add: faith_call_start call_cancelled_def faith_intros faith_read_packet read_error_def
      faith_timer_tick faith_writer_pick faith_writer faith_handler_done)

end
