(* ===== verification/Network.thy ===== *)
theory Network
  imports Integrity Endpoint_Props
begin

unbundle bit_operations_syntax

text \<open>
  Endpoints on a network. First the datagrams an endpoint writes, whatever it is sent: they are well formed.
  Then any number of endpoints that call each other over a network that loses, repeats, delays and reorders
  datagrams and in which anybody may inject control packets: what a handler is given is what was called with, and
  what a call returns is what the peer's handler made of it.
\<close>

section \<open>What an endpoint writes\<close>

definition leaving :: "endpoint \<Rightarrow> outgoingPacket set" where
  "leaving e = \<Union> (set ` set (outbound e)) \<union> (case writer_at e of WWriting out \<Rightarrow> {out} | _ \<Rightarrow> {})"

lemma faith_leaving: "faithful T R e \<Longrightarrow> out \<in> leaving e \<Longrightarrow> out_ok T (local e) out"
  using faithfulD(5,6) [of T R e] by (auto simp: leaving_def split: writer.splits)

text \<open>With nothing expected every event is a good one.\<close>

lemma good_anything: "good_event (\<lambda>_ _. True) (\<lambda>_. None) ev e"
  by (cases ev) (simp_all add: hears_def)

lemma run_faithful:
  assumes new: "New l c h seed clk ord = Inr e0" and run: "run e0 es e"
  shows "faithful (\<lambda>_ _. True) (\<lambda>_. None) e"
  using run new by (induction rule: run.induct) (auto intro: faith_New faith_step good_anything)

lemma data_ok_accepted: "data_ok m d \<Longrightarrow> ValidateBounds d 1000000 = None"
  using ValidateBounds_iff [of d 1000000] seg_of_nonempty [of m d]
  by (auto simp: data_ok_def seg_of_def word_le_nat_alt)

text \<open>C9. Whatever an endpoint is sent by the network and its applications, each datagram it has queued or
  is writing is well formed: it decodes, to a packet of the type it is accounted for and with the endpoint's
  port as its source, it fits an unfragmented packet, and DATA passes each check of a receiver.\<close>

theorem datagrams_well_formed:
  assumes "New l c h seed clk ord = Inr e0" and "run e0 es e" and "out \<in> leaving e"
  shows "\<exists>p. Parse (o_data out) = Inr p \<and> PacketType (Header p) = o_typ out \<and>
      SourcePort (Header p) = Port l \<and> length (o_data out) \<le> 1480 \<and>
      (\<forall>d. p = Data d \<longrightarrow> ValidateBounds d 1000000 = None \<and> Payload d \<noteq> [] \<and> Incoming d \<le> MessageLength d)"
proof -
  have "local e = l"
    using assms(1) fixed_run [OF assms(2)] by (auto simp: New_def split: option.splits if_splits)
  then obtain p where p: "Parse (o_data out) = Inr p" "o_typ out = PacketType (Header p)" "length (o_data out) \<le> 1480"
      "built (\<lambda>_ _. True) l \<lparr>IP = o_peer out, Port = DestinationPort (Header p)\<rparr> p"
    using faith_leaving [OF run_faithful [OF assms(1,2)] assms(3)] unfolding out_ok_def by auto
  then have "SourcePort (Header p) = Port l" by (simp add: built_def)
  moreover have "ValidateBounds d 1000000 = None \<and> Payload d \<noteq> [] \<and> Incoming d \<le> MessageLength d" if "p = Data d" for d
    using p(4) that data_ok_accepted by (auto simp: built_def data_ok_def seg_of_def)
  ultimately show ?thesis using p by auto
qed

section \<open>The network\<close>

text \<open>An accepted call: who made it, the handle of its RPC object, its key and the request.\<close>

record call_record =
  c_from :: addr
  c_ptr :: nat
  c_key :: rpcKey
  c_request :: bytes

text \<open>The endpoints, every datagram written so far with its source and destination host, and every call
  accepted so far.\<close>

record network =
  nodes :: "endpoint list"
  wire :: "(netip \<times> netip \<times> bytes) list"
  asked :: "call_record list"

definition hosts :: "network \<Rightarrow> netip set" where
  "hosts N = (\<lambda>e. IP (local e)) ` set (nodes N)"

text \<open>What an event adds to the datagrams and to the calls. A write that fails may have been carried out.\<close>

fun written :: "event \<Rightarrow> endpoint \<Rightarrow> (netip \<times> netip \<times> bytes) list" where
  "written (Wrote x) e = (case writer_at e of WWriting out \<Rightarrow> [(IP (local e), o_peer out, o_data out)] | _ \<Rightarrow> [])"
| "written _ e = []"

fun placed :: "event \<Rightarrow> endpoint \<Rightarrow> call_record list" where
  "placed (CallStart x d peer request) e = (case fst (call_start x d peer request e) of
      Inl err \<Rightarrow> []
    | Inr p \<Rightarrow> [\<lparr>c_from = local e, c_ptr = p, c_key = \<lparr>key_peer = peer, key_id = next_id (nextID e)\<rparr>, c_request = request\<rparr>])"
| "placed _ e = []"

definition is_data :: "bytes \<Rightarrow> bool" where
  "is_data b = (case Parse b of Inr (Data d) \<Rightarrow> True | _ \<Rightarrow> False)"

text \<open>What may happen at an endpoint. A datagram arrives from one of the hosts only if it was written for this
  one, at any time and any number of times; control packets and packets of other hosts may be anything. The
  handler of the endpoint at \<open>l\<close> is the function \<open>h l\<close> of the peer and the request, or fails.\<close>

fun net_enabled :: "(addr \<Rightarrow> addr \<Rightarrow> bytes \<Rightarrow> bytes) \<Rightarrow> event \<Rightarrow> endpoint \<Rightarrow> network \<Rightarrow> bool" where
  "net_enabled h (Datagram ip b) e N \<longleftrightarrow> enabled (Datagram ip b) e \<and>
     (ip \<in> hosts N \<and> is_data b \<longrightarrow> (ip, IP (local e), b) \<in> set (wire N))"
| "net_enabled h (HandlerReturned i response) e N \<longleftrightarrow> enabled (HandlerReturned i response) e \<and>
     (response = [] \<or> response = h (local e) (key_peer (r_key (heap e ! fst (handlers e ! i)))) (snd (handlers e ! i)))"
| "net_enabled h ev e N \<longleftrightarrow> enabled ev e"

definition net_step :: "nat \<Rightarrow> event \<Rightarrow> network \<Rightarrow> network" where
  "net_step i ev N =
     (let e = nodes N ! i in
      N\<lparr>nodes := (nodes N)[i := step ev e], wire := wire N @ written ev e, asked := asked N @ placed ev e\<rparr>)"

inductive net_run :: "(addr \<Rightarrow> addr \<Rightarrow> bytes \<Rightarrow> bytes) \<Rightarrow> network \<Rightarrow> (nat \<times> event) list \<Rightarrow> network \<Rightarrow> bool"
  for h :: "addr \<Rightarrow> addr \<Rightarrow> bytes \<Rightarrow> bytes" and N0 :: network where
  net_Nil: "net_run h N0 [] N0"
| net_snoc: "net_run h N0 evs N \<Longrightarrow> i < length (nodes N) \<Longrightarrow> net_enabled h ev (nodes N ! i) N \<Longrightarrow>
     net_run h N0 (evs @ [(i, ev)]) (net_step i ev N)"

text \<open>Endpoints just opened, at different addresses.\<close>

definition net_start :: "network \<Rightarrow> bool" where
  "net_start N \<longleftrightarrow> (\<forall>e \<in> set (nodes N). \<exists>l c has seed clk ord. New l c has seed clk ord = Inr e) \<and>
     distinct (map local (nodes N)) \<and> wire N = [] \<and> asked N = []"

lemma net_enabled_enabled: "net_enabled h ev e N \<Longrightarrow> enabled ev e"
  by (cases ev) simp_all

lemma net_step_fields:
  "length (nodes (net_step i ev N)) = length (nodes N)"
  "j < length (nodes N) \<Longrightarrow> nodes (net_step i ev N) ! j = (if j = i then step ev (nodes N ! i) else nodes N ! j)"
  "wire (net_step i ev N) = wire N @ written ev (nodes N ! i)"
  "asked (net_step i ev N) = asked N @ placed ev (nodes N ! i)"
  by (simp_all add: net_step_def Let_def nth_list_update)

text \<open>The events at one endpoint.\<close>

definition events_at :: "nat \<Rightarrow> (nat \<times> event) list \<Rightarrow> event list" where
  "events_at i evs = map snd (filter (\<lambda>x. fst x = i) evs)"

lemma calls_at: "calls (events_at i evs) \<le> calls (map snd evs)"
  by (induction evs) (auto simp: calls_def events_at_def)

lemma net_run_nodes:
  assumes "net_run h N0 evs N"
  shows "length (nodes N) = length (nodes N0) \<and>
    (\<forall>i < length (nodes N0). run (nodes N0 ! i) (events_at i evs) (nodes N ! i))"
  using assms
proof (induction rule: net_run.induct)
  case (net_snoc evs N j ev)
  have "run (nodes N0 ! j) (events_at j evs @ [ev]) (step ev (nodes N ! j))"
    using net_snoc net_enabled_enabled [OF net_snoc.hyps(3)] by (intro run_snoc) simp_all
  then show ?case using net_snoc by (auto simp: net_step_fields events_at_def)
qed (auto simp: events_at_def intro: run.intros)

lemma net_run_local:
  assumes "net_run h N0 evs N"
  shows "map local (nodes N) = map local (nodes N0)" and "hosts N = hosts N0"
proof -
  show l: "map local (nodes N) = map local (nodes N0)"
    using net_run_nodes [OF assms] fixed_run by (auto intro!: nth_equalityI)
  have h: "hosts N = IP ` set (map local (nodes N))" for N by (simp add: hosts_def image_image)
  show "hosts N = hosts N0" unfolding h l ..
qed

section \<open>The calls\<close>

text \<open>The identifiers of the accepted calls: the calls of the endpoint that started as \<open>e0\<close> and is now \<open>e\<close> have
  had the first \<open>n\<close> identifiers, each once, and their handles name their RPC objects.\<close>

definition calls_ok :: "call_record list \<Rightarrow> endpoint \<Rightarrow> endpoint \<Rightarrow> bool" where
  "calls_ok cs e0 e \<longleftrightarrow>
     (let own = filter (\<lambda>c. c_from c = local e0) cs; s = nextID e0 in
      nextID e = (next_id ^^ length own) s \<and> map (key_id \<circ> c_key) own = map (\<lambda>j. (next_id ^^ Suc j) s) [0..<length own] \<and>
      (\<forall>c \<in> set own. c_ptr c < length (heap e) \<and> r_key (heap e ! c_ptr c) = c_key c))"

lemma progress_keys: "progress e e' \<Longrightarrow> p < length (heap e) \<Longrightarrow> p < length (heap e') \<and> r_key (heap e' ! p) = r_key (heap e ! p)"
  by (auto simp: progress_def rpc_progress_def)

lemma placed_cases:
  obtains "placed ev e = []" "nextID (step ev e) = nextID e"
  | x d peer request where "ev = CallStart x d peer request" "call_accepted x peer request e"
      "placed ev e = [\<lparr>c_from = local e, c_ptr = length (heap e),
        c_key = \<lparr>key_peer = peer, key_id = next_id (nextID e)\<rparr>, c_request = request\<rparr>]"
proof (cases "is_call ev")
  case False
  then have "placed ev e = []" "nextID (step ev e) = nextID e"
    using keeps_step(2) [OF False, of e] by (cases ev; simp add: clients_kept_def)+
  then show ?thesis by (rule that(1))
next
  case True
  then obtain x d peer request where ev: "ev = CallStart x d peer request" by (cases ev) simp_all
  show ?thesis
  proof (cases "call_accepted x peer request e")
    case True
    then show ?thesis using that(2) [OF ev True] by (simp add: ev call_start_accepted)
  next
    case False
    then show ?thesis using that(1) call_start_refused [OF False, of d] by (auto simp: ev)
  qed
qed

lemma accepted_call_rpc:
  fixes d :: "int option"
  assumes "call_accepted x peer request e"
  defines "e' \<equiv> snd (call_start x d peer request e)"
  shows "length (heap e) < length (heap e')" and "nextID e' = next_id (nextID e)"
    and "r_key (heap e' ! length (heap e)) = \<lparr>key_peer = peer, key_id = next_id (nextID e)\<rparr>"
proof -
  have a: "advances (call_state d peer request e) e'" unfolding e'_def by (rule call_advances [OF assms(1)])
  have s: "length (heap (call_state d peer request e)) = Suc (length (heap e))"
    "r_key (heap (call_state d peer request e) ! length (heap e)) = \<lparr>key_peer = peer, key_id = next_id (nextID e)\<rparr>"
    "nextID (call_state d peer request e) = next_id (nextID e)"
    by (simp_all add: call_state_def allocated_def call_ready_def time_now_def call_rpc_def zero_rpc_def)
  then show "length (heap e) < length (heap e')" "nextID e' = next_id (nextID e)"
    "r_key (heap e' ! length (heap e)) = \<lparr>key_peer = peer, key_id = next_id (nextID e)\<rparr>"
    using a progress_keys [of "call_state d peer request e" e' "length (heap e)"]
    by (simp_all add: advances_def clients_kept_def)
qed

lemma calls_ok_other: "\<forall>c \<in> set ds. c_from c \<noteq> local e0 \<Longrightarrow> calls_ok (cs @ ds) e0 e = calls_ok cs e0 e"
  by (simp add: calls_ok_def filter_False)

lemma calls_ok_progress:
  assumes "calls_ok cs e0 e" and "progress e e'" and "nextID e' = nextID e"
  shows "calls_ok cs e0 e'"
  using assms progress_keys [OF assms(2)] by (auto simp: calls_ok_def Let_def)

lemma calls_ok_placed:
  assumes "calls_ok cs e0 e" and "local e = local e0"
  shows "calls_ok (cs @ placed ev e) e0 (step ev e)"
proof (cases ev e rule: placed_cases)
  case 1
  then show ?thesis using calls_ok_progress [OF assms(1) progress_step] by simp
next
  case (2 x d peer request)
  have "c_ptr c < length (heap (step ev e)) \<and> r_key (heap (step ev e) ! c_ptr c) = c_key c"
    if "c \<in> set cs" "c_from c = local e0" for c
    using assms(1) that progress_keys [OF progress_step, of "c_ptr c" e ev] by (auto simp: calls_ok_def Let_def)
  then show ?thesis
    using assms 2 accepted_call_rpc [OF 2(2), of d] by (auto simp: calls_ok_def Let_def)
qed

lemma new_even: "New l c has seed clk ord = Inr e \<Longrightarrow> nextID e AND 1 = 0"
proof -
  have "(seed AND NOT 1) AND 1 = 0" by (rule bit_eqI) (auto simp: bit_simps)
  then show "New l c has seed clk ord = Inr e \<Longrightarrow> nextID e AND 1 = 0"
    by (auto simp: New_def split: option.splits if_splits)
qed

lemma net_start_even: "net_start N \<Longrightarrow> i < length (nodes N) \<Longrightarrow> nextID (nodes N ! i) AND 1 = 0"
  using new_even unfolding net_start_def by (metis nth_mem)

lemma net_run_calls:
  assumes "net_run h N0 evs N" and "net_start N0" and "i < length (nodes N0)"
  shows "calls_ok (asked N) (nodes N0 ! i) (nodes N ! i)"
  using assms
proof (induction rule: net_run.induct)
  case net_Nil
  then show ?case by (simp add: net_start_def calls_ok_def)
next
  case (net_snoc evs N j ev)
  note same = net_run_nodes [OF net_snoc.hyps(1)]
  have local: "local (nodes N ! k) = local (nodes N0 ! k)" if "k < length (nodes N0)" for k
    using same fixed_run that by blast
  show ?case
  proof (cases "i = j")
    case True
    then show ?thesis using net_snoc same local by (simp add: net_step_fields calls_ok_placed)
  next
    case False
    have "local (nodes N ! j) \<noteq> local (nodes N0 ! i)"
      using False net_snoc.prems net_snoc.hyps(2) same local by (auto simp: net_start_def distinct_conv_nth)
    moreover have "\<forall>c \<in> set (placed ev (nodes N ! j)). c_from c = local (nodes N ! j)"
      by (cases ev "nodes N ! j" rule: placed_cases) auto
    ultimately show ?thesis using False net_snoc same by (simp add: net_step_fields calls_ok_other)
  qed
qed

lemma asked_length: "net_run h N0 evs N \<Longrightarrow> asked N0 = [] \<Longrightarrow> length (asked N) \<le> calls (map snd evs)"
proof (induction rule: net_run.induct)
  case (net_snoc evs N j ev)
  then show ?case
    by (cases ev "nodes N ! j" rule: placed_cases) (auto simp: net_step_fields calls_def)
qed simp

lemma asked_from:
  assumes "net_run h N0 evs N" and "net_start N0" and "c \<in> set (asked N)"
  obtains i where "i < length (nodes N0)" "c_from c = local (nodes N0 ! i)"
proof -
  have "\<exists>i < length (nodes N0). c_from c = local (nodes N0 ! i)"
    using assms
  proof (induction rule: net_run.induct)
    case (net_snoc evs N j ev)
    have "\<forall>c \<in> set (placed ev (nodes N ! j)). c_from c = local (nodes N ! j)"
      by (cases ev "nodes N ! j" rule: placed_cases) auto
    moreover have "local (nodes N ! j) = local (nodes N0 ! j)" "j < length (nodes N0)"
      using net_run_nodes [OF net_snoc.hyps(1)] net_snoc.hyps(2) fixed_run by auto
    ultimately show ?case using net_snoc by (auto simp: net_step_fields)
  qed (simp add: net_start_def)
  then show thesis using that by blast
qed

definition find_call :: "call_record list \<Rightarrow> addr \<Rightarrow> rpcKey \<Rightarrow> call_record option" where
  "find_call cs l k = find (\<lambda>c. c_from c = l \<and> c_key c = k) cs"

lemma find_call_Some: "find_call cs l k = Some c \<Longrightarrow> c \<in> set cs \<and> c_from c = l \<and> c_key c = k"
  by (auto simp: find_call_def find_Some_iff)

lemma find_own_call:
  assumes ok: "calls_ok cs e0 e" and even: "nextID e0 AND 1 = 0" and len: "length cs \<le> idCycle"
    and c: "c \<in> set cs" "c_from c = local e0"
  shows "find_call cs (local e0) (c_key c) = Some c"
proof -
  let ?own = "filter (\<lambda>c. c_from c = local e0) cs"
  have n: "length ?own \<le> idCycle" using length_filter_le len by (rule order_trans)
  have "inj_on (\<lambda>j. (next_id ^^ Suc j) (nextID e0)) {0..<length ?own}"
  proof (rule inj_onI, rule ccontr)
    fix i j
    assume "i \<in> {0..<length ?own}" "j \<in> {0..<length ?own}" "(next_id ^^ Suc i) (nextID e0) = (next_id ^^ Suc j) (nextID e0)" "i \<noteq> j"
    then show False
      using nth_id_inject [OF even, of "Suc i" "Suc j"] nth_id_inject [OF even, of "Suc j" "Suc i"] n
      by (cases "i < j") (auto simp del: funpow.simps)
  qed
  then have "distinct (map (\<lambda>j. (next_id ^^ Suc j) (nextID e0)) [0..<length ?own])"
    by (simp add: distinct_map del: funpow.simps)
  then have "inj_on (key_id \<circ> c_key) (set ?own)"
    using ok unfolding calls_ok_def Let_def by (metis distinct_map)
  then have one: "c' = c" if "c' \<in> set cs" "c_from c' = local e0" "c_key c' = c_key c" for c'
    using that c by (auto simp: inj_on_def)
  have "find_call cs (local e0) (c_key c) \<noteq> None" using c by (auto simp: find_call_def find_None_iff)
  then show ?thesis using find_call_Some one by blast
qed

section \<open>Messages on the network\<close>

text \<open>Given all calls that are made, what the endpoint at \<open>l\<close> transmits and receives under a key: requests and
  the answers to them.\<close>

definition net_tx :: "(addr \<Rightarrow> addr \<Rightarrow> bytes \<Rightarrow> bytes) \<Rightarrow> netip set \<Rightarrow> call_record list \<Rightarrow> addr \<Rightarrow> expected_tx" where
  "net_tx h H cs l k m \<longleftrightarrow>
     (if is_client k then map_option c_request (find_call cs l k) = Some m
      else IP (key_peer k) \<in> H \<longrightarrow>
        map_option (h l (key_peer k) \<circ> c_request) (find_call cs (key_peer k) \<lparr>key_peer = l, key_id = key_id k XOR 1\<rparr>) = Some m)"

definition net_rx :: "(addr \<Rightarrow> addr \<Rightarrow> bytes \<Rightarrow> bytes) \<Rightarrow> netip set \<Rightarrow> call_record list \<Rightarrow> addr \<Rightarrow> expected_rx" where
  "net_rx h H cs l k =
     (if IP (key_peer k) \<notin> H then None
      else Some (case (if is_client k then map_option (h (key_peer k) l \<circ> c_request) (find_call cs l k)
          else map_option c_request (find_call cs (key_peer k) \<lparr>key_peer = l, key_id = key_id k XOR 1\<rparr>)) of
        None \<Rightarrow> [] | Some m \<Rightarrow> m))"

lemma xor_one: "(x XOR 1) XOR 1 = x" "(x XOR 1) AND 1 = 0 \<longleftrightarrow> x AND 1 \<noteq> 0" for x :: u64
proof -
  show "(x XOR 1) XOR 1 = x" by (rule bit_eqI) (auto simp: bit_simps)
  show "(x XOR 1) AND 1 = 0 \<longleftrightarrow> x AND 1 \<noteq> 0"
    by (simp only: and_one_eq mod_2_eq_odd) (simp add: even_xor_iff)
qed

lemma tx_rx:
  assumes "net_tx h H cs l \<lparr>key_peer = l', key_id = i\<rparr> m" and "IP l \<in> H" and "IP l' \<in> H"
  shows "net_rx h H cs l' \<lparr>key_peer = l, key_id = i XOR 1\<rparr> = Some m"
  using assms by (auto simp: net_tx_def net_rx_def xor_one split: if_splits)

text \<open>A DATA packet on the wire is a segment of the message its sender transmits.\<close>

definition wire_ok :: "(addr \<Rightarrow> addr \<Rightarrow> bytes \<Rightarrow> bytes) \<Rightarrow> netip set \<Rightarrow> call_record list \<Rightarrow> network \<Rightarrow> bool" where
  "wire_ok h H cs N \<longleftrightarrow> (\<forall>(src, dst, b) \<in> set (wire N). \<exists>l out. src = IP l \<and> src \<in> H \<and> dst = o_peer out \<and> b = o_data out \<and>
     out_ok (net_tx h H cs l) l out)"

lemma wire_heard:
  assumes "wire_ok h H cs N" and "(ip, IP l, b) \<in> set (wire N)" and "IP l \<in> H"
  shows "hears (net_rx h H cs l) l ip b"
proof -
  from assms(1,2) have "\<exists>k out. ip = IP k \<and> ip \<in> H \<and> IP l = o_peer out \<and> b = o_data out \<and> out_ok (net_tx h H cs k) k out"
    unfolding wire_ok_def by fast
  then obtain k out where k: "ip = IP k" "ip \<in> H" "IP l = o_peer out" "b = o_data out" "out_ok (net_tx h H cs k) k out" by blast
  have "seg_of m d" if d: "Parse b = Inr (Data d)" "DestinationPort (d_common d) = Port l"
      and m: "net_rx h H cs l \<lparr>key_peer = \<lparr>IP = ip, Port = SourcePort (d_common d)\<rparr>, key_id = LocalID (d_common d)\<rparr> = Some m" for d m
  proof -
    have "built (net_tx h H cs k) k \<lparr>IP = IP l, Port = Port l\<rparr> (Data d)"
      using k(3-5) d by (auto simp: out_ok_def)
    then obtain m' where m': "net_tx h H cs k \<lparr>key_peer = l, key_id = SenderID (d_common d)\<rparr> m'" "data_ok m' d"
        and "SourcePort (d_common d) = Port k"
      by (auto simp: built_def)
    then show ?thesis using tx_rx [OF m'(1)] m k(1,2) assms(3) by (simp add: LocalID_def data_ok_def)
  qed
  then show ?thesis by (auto simp: hears_def)
qed

lemma handler_answers:
  assumes e: "faithful T (net_rx h H cs (local e)) e" and i: "i < length (handlers e)"
    and r: "response = h (local e) (key_peer (r_key (heap e ! fst (handlers e ! i)))) (snd (handlers e ! i))"
  shows "net_tx h H cs (local e) (r_key (heap e ! fst (handlers e ! i))) response"
proof -
  obtain p b where pb: "handlers e ! i = (p, b)" by (cases "handlers e ! i")
  then have "(p, b) \<in> set (handlers e)" using nth_mem [OF i] by simp
  then have "handed (net_rx h H cs (local e)) (r_key (heap e ! p)) b" using faithfulD(4) [OF e] by blast
  then show ?thesis
    using r pb by (auto simp: handed_def net_rx_def net_tx_def split: option.splits if_splits)
qed

lemma net_good_event:
  assumes en: "net_enabled h ev e N" and e: "faithful T (net_rx h (hosts N) cs (local e)) e"
    and w: "wire_ok h (hosts N) cs N" and l: "IP (local e) \<in> hosts N" and even: "nextID e AND 1 = 0"
    and c: "\<forall>c \<in> set (placed ev e). find_call cs (c_from c) (c_key c) = Some c"
  shows "good_event (net_tx h (hosts N) cs (local e)) (net_rx h (hosts N) cs (local e)) ev e"
proof (cases ev)
  case (CallStart x d peer request)
  have "is_client \<lparr>key_peer = peer, key_id = next_id (nextID e)\<rparr>" using next_id_even [OF even] by simp
  moreover have "find_call cs (local e) \<lparr>key_peer = peer, key_id = next_id (nextID e)\<rparr> = Some
      \<lparr>c_from = local e, c_ptr = length (heap e), c_key = \<lparr>key_peer = peer, key_id = next_id (nextID e)\<rparr>, c_request = request\<rparr>"
    if "call_accepted x peer request e"
    using c that by (simp add: CallStart call_start_accepted)
  ultimately show ?thesis by (simp add: CallStart net_tx_def)
next
  case (Datagram ip b)
  then consider "ip \<notin> hosts N" | "\<not> is_data b" | "(ip, IP (local e), b) \<in> set (wire N)" using en by auto
  then have "hears (net_rx h (hosts N) cs (local e)) (local e) ip b"
  proof cases
    case 3
    then show ?thesis by (rule wire_heard [OF w _ l])
  qed (auto simp: hears_def is_data_def net_rx_def)
  then show ?thesis by (simp add: Datagram)
next
  case (HandlerReturned i response)
  then show ?thesis using en handler_answers [OF e] by auto
qed simp_all

lemma wire_ok_written:
  assumes "wire_ok h H cs N" and "faithful (net_tx h H cs (local (nodes N ! i))) R (nodes N ! i)"
    and "IP (local (nodes N ! i)) \<in> H"
  shows "wire_ok h H cs (net_step i ev N)"
proof -
  have "\<exists>l out. src = IP l \<and> src \<in> H \<and> dst = o_peer out \<and> b = o_data out \<and> out_ok (net_tx h H cs l) l out"
    if w: "(src, dst, b) \<in> set (written ev (nodes N ! i))" for src dst b
  proof (cases ev)
    case (Wrote x)
    then obtain out where "writer_at (nodes N ! i) = WWriting out" "src = IP (local (nodes N ! i))" "dst = o_peer out" "b = o_data out"
      using w by (cases "writer_at (nodes N ! i)") simp_all
    then show ?thesis using faithfulD(6) [OF assms(2)] assms(3) by blast
  qed (use w in simp_all)
  then show ?thesis using assms(1) unfolding wire_ok_def net_step_fields by fastforce
qed

lemma net_faithful:
  assumes "net_run h N0 evs N" and start: "net_start N0"
    and "\<forall>c \<in> set (asked N). find_call cs (c_from c) (c_key c) = Some c"
  shows "wire_ok h (hosts N0) cs N \<and> (\<forall>e \<in> set (nodes N).
    faithful (net_tx h (hosts N0) cs (local e)) (net_rx h (hosts N0) cs (local e)) e)"
  using assms(1,3)
proof (induction rule: net_run.induct)
  case net_Nil
  then show ?case using start faith_New unfolding net_start_def wire_ok_def by auto
next
  case (net_snoc evs N i ev)
  let ?e = "nodes N ! i" and ?H = "hosts N0"
  let ?T = "net_tx h ?H cs (local ?e)" and ?R = "net_rx h ?H cs (local ?e)"
  have H: "hosts N = ?H" by (rule net_run_local [OF net_snoc.hyps(1)])
  have i0: "i < length (nodes N0)" using net_run_nodes [OF net_snoc.hyps(1)] net_snoc.hyps(2) by simp
  have "IP (local ?e) \<in> hosts N" using net_snoc.hyps(2) by (simp add: hosts_def)
  then have l: "IP (local ?e) \<in> ?H" by (simp only: H)
  have IH: "wire_ok h ?H cs N" "\<forall>e \<in> set (nodes N). faithful (net_tx h ?H cs (local e)) (net_rx h ?H cs (local e)) e"
    using net_snoc by (auto simp: net_step_fields)
  then have e: "faithful ?T ?R ?e" using net_snoc.hyps(2) by auto
  have "nextID ?e AND 1 = 0"
    using net_run_calls [OF net_snoc.hyps(1) start i0] nth_id_slot(1) net_start_even [OF start i0]
    by (auto simp: calls_ok_def Let_def)
  then have "good_event ?T ?R ev ?e"
    using net_snoc.prems net_good_event [OF net_snoc.hyps(3), of ?T cs] e IH(1) l by (auto simp: H net_step_fields)
  then have "faithful ?T ?R (step ev ?e)" by (rule faith_step [OF e net_enabled_enabled [OF net_snoc.hyps(3)]])
  moreover have "local (step ev ?e) = local ?e" by (simp add: fixed_step)
  moreover have "set (nodes (net_step i ev N)) \<subseteq> insert (step ev ?e) (set (nodes N))"
    using set_update_subset_insert by (simp add: net_step_def Let_def)
  ultimately show ?case using IH wire_ok_written [OF IH(1) e l] by auto
qed

lemma net_calls_found:
  assumes run: "net_run h N0 evs N" and start: "net_start N0" and bound: "calls (map snd evs) \<le> idCycle"
    and c: "c \<in> set (asked N)"
  shows "find_call (asked N) (c_from c) (c_key c) = Some c"
proof -
  obtain i where i: "i < length (nodes N0)" "c_from c = local (nodes N0 ! i)"
    using asked_from [OF run start c] .
  have "length (asked N) \<le> idCycle"
    using asked_length [OF run] start bound by (simp add: net_start_def)
  then show ?thesis
    using find_own_call [OF net_run_calls [OF run start i(1)] net_start_even [OF start i(1)] _ c] i(2) by simp
qed

lemma asked_rpc:
  assumes run: "net_run h N0 evs N" and start: "net_start N0" and e: "e \<in> set (nodes N)"
    and c: "c \<in> set (asked N)" "c_from c = local e"
  shows "c_ptr c < length (heap e)" and "r_key (heap e ! c_ptr c) = c_key c" and "is_client (c_key c)"
proof -
  obtain i where i: "i < length (nodes N)" "e = nodes N ! i" using e by (auto simp: in_set_conv_nth)
  then have i0: "i < length (nodes N0)" and l: "local e = local (nodes N0 ! i)"
    using net_run_nodes [OF run] fixed_run by auto
  let ?own = "filter (\<lambda>c. c_from c = local (nodes N0 ! i)) (asked N)"
  have c0: "c \<in> set ?own" using c l by simp
  have ok: "map (key_id \<circ> c_key) ?own = map (\<lambda>j. (next_id ^^ Suc j) (nextID (nodes N0 ! i))) [0..<length ?own]"
      "\<forall>c \<in> set ?own. c_ptr c < length (heap e) \<and> r_key (heap e ! c_ptr c) = c_key c"
    using net_run_calls [OF run start i0] i(2) unfolding calls_ok_def Let_def by blast+
  from ok(2) c0 show "c_ptr c < length (heap e)" "r_key (heap e ! c_ptr c) = c_key c" by blast+
  have "(key_id \<circ> c_key) c \<in> set (map (key_id \<circ> c_key) ?own)" using c0 unfolding set_map by (rule imageI)
  then obtain j where "key_id (c_key c) = (next_id ^^ Suc j) (nextID (nodes N0 ! i))" unfolding ok(1) by auto
  then show "is_client (c_key c)" using nth_id_slot(1) [OF net_start_even [OF start i0], of "Suc j"] by simp
qed

text \<open>C1. Any number of endpoints call each other over a network that may lose, repeat, delay and reorder what
  they write and deliver anything from other hosts and any control packet, and each handler is a function of
  the peer and the request that may also fail. Then what a handler is given is the whole request of a
  call its peer made, with not a byte changed, and a call that returns without an error returns what the
  handler of its peer makes of the request. At most \<open>2\<^sup>6\<^sup>3 - 1\<close> calls are made.\<close>

theorem end_to_end:
  assumes "net_start N0" and "net_run h N0 evs N" and "calls (map snd evs) \<le> idCycle" and "e \<in> set (nodes N)"
  shows "(\<forall>p b. (p, b) \<in> set (handlers e) \<and> IP (key_peer (r_key (heap e ! p))) \<in> hosts N \<longrightarrow>
        (\<exists>c \<in> set (asked N). c_from c = key_peer (r_key (heap e ! p)) \<and> key_peer (c_key c) = local e \<and> c_request c = b)) \<and>
      (\<forall>c q x. c \<in> set (asked N) \<and> c_from c = local e \<and> IP (key_peer (c_key c)) \<in> hosts N \<and>
        r_result (heap e ! c_ptr c) = Some q \<and> x \<in> set q \<and> res_err x = None \<longrightarrow>
        res_data x = h (key_peer (c_key c)) (local e) (c_request c))"
proof -
  let ?T = "net_tx h (hosts N) (asked N) (local e)" and ?R = "net_rx h (hosts N) (asked N) (local e)"
  note found = net_calls_found [OF assms(2,1,3)]
  have e: "faithful ?T ?R e"
    using net_faithful [OF assms(2,1)] found assms(4) net_run_local(2) [OF assms(2)] by auto
  have "\<exists>c \<in> set (asked N). c_from c = key_peer (r_key (heap e ! p)) \<and> key_peer (c_key c) = local e \<and> c_request c = b"
    if pb: "(p, b) \<in> set (handlers e)" "IP (key_peer (r_key (heap e ! p))) \<in> hosts N" for p b
  proof -
    let ?k = "r_key (heap e ! p)"
    have "handed ?R ?k b" using faithfulD(4) [OF e pb(1)] by simp
    then obtain c where "find_call (asked N) (key_peer ?k) \<lparr>key_peer = local e, key_id = key_id ?k XOR 1\<rparr> = Some c" "c_request c = b"
      using pb(2) by (auto simp: handed_def net_rx_def split: option.splits)
    then show ?thesis using find_call_Some by fastforce
  qed
  moreover have "res_data x = h (key_peer (c_key c)) (local e) (c_request c)"
    if "c \<in> set (asked N)" "c_from c = local e" "IP (key_peer (c_key c)) \<in> hosts N"
      "r_result (heap e ! c_ptr c) = Some q" "x \<in> set q" "res_err x = None" for c q x
  proof -
    note r = asked_rpc [OF assms(2,1,4) that(1,2)]
    have "?R (c_key c) = Some (h (key_peer (c_key c)) (local e) (c_request c))"
      using found [OF that(1)] that(2,3) r(3) by (simp add: net_rx_def)
    then show ?thesis using faithfulD(3) [OF e r(1)] that(4-6) r(2) by (auto simp: rpc_faith_def)
  qed
  ultimately show ?thesis by blast
qed

section \<open>An exchange\<close>

text \<open>The sample endpoint calls a second one, whose handler reverses the request.\<close>

definition sample_server :: endpoint where
  "sample_server = (case New sample_peer zero_config True 7 (\<lambda>n. int n * Millisecond) (\<lambda>_ ks. ks) of Inr e \<Rightarrow> e)"

definition sample_net :: network where
  "sample_net = \<lparr>nodes = [sample_endpoint, sample_server], wire = [], asked = []\<rparr>"

text \<open>The two packets.\<close>

definition sample_packet :: "u16 \<Rightarrow> u16 \<Rightarrow> u64 \<Rightarrow> bytes \<Rightarrow> data" where
  "sample_packet src dst i b = \<lparr>d_common = NewCommon DataType src dst i, MessageLength = 3, Incoming = 3, d_ack = no_ack,
     d_cutoff_version = 0, Retransmit = 0, Padding = [0, 0, 0], SegmentOffset = 0, Payload = b\<rparr>"

definition request_packet :: data where
  "request_packet = sample_packet 4000 4001 8 [1, 2, 3]"

definition reply_packet :: data where
  "reply_packet = sample_packet 4001 4000 9 [3, 2, 1]"

lemma sample_packet_bytes:
  assumes "length b = 3"
  shows "Parse (layout (Data (sample_packet src dst i b))) = Inr (Data (sample_packet src dst i b))"
    and "length (layout (Data (sample_packet src dst i b))) = 59"
proof -
  have s: "sendable (Data (sample_packet src dst i b))"
    using assms by (simp add: sendable_def wf_packet_def sample_packet_def maxInt_def size_defs)
  show "Parse (layout (Data (sample_packet src dst i b))) = Inr (Data (sample_packet src dst i b))"
    using Parse_Marshal [of "Data (sample_packet src dst i b)" _ "[]"] sendable_Marshal [OF s] s by (simp add: sendable_def)
  show "length (layout (Data (sample_packet src dst i b))) = 59"
    using length_layout [of "Data (sample_packet src dst i b)"] s assms by (simp add: sendable_def sample_packet_def size_defs)
qed

definition received :: "netip \<Rightarrow> data \<Rightarrow> endpoint \<Rightarrow> endpoint" where
  "received ip d e = receive ip (Data d) (upd_st (\<lambda>s. s\<lparr>ReceivedPackets := ReceivedPackets s + 1\<rparr>) e)"

lemma received_step:
  assumes "length b = 3" and "\<not> closed e"
  shows "step (Datagram ip (layout (Data (sample_packet src dst i b)))) e = received ip (sample_packet src dst i b) e"
  using sample_packet_bytes(1) [OF assms(1)] assms(2) by (simp add: read_packet_def received_def)

definition client1 :: endpoint where
  "client1 = step WriterTurn (step sample_call sample_endpoint)"

definition client2 :: endpoint where
  "client2 = step (Datagram (V4 0x0A000002) (layout (Data reply_packet))) (step (Wrote None) client1)"

definition server1 :: endpoint where
  "server1 = step (Datagram (V4 0x0A000001) (layout (Data request_packet))) sample_server"

definition server2 :: endpoint where
  "server2 = step WriterTurn (step (HandlerReturned 0 [3, 2, 1]) server1)"

lemma sample_server_fields: "closed sample_server = False" "local sample_server = sample_peer"
  by code_simp+

lemma sample_client_fields: "closed sample_endpoint = False" "local sample_endpoint = sample_local"
  by code_simp+

lemma sample_closed: "\<not> is_shutdown ev \<Longrightarrow> closed (step ev e) = closed e"
  using static_fields [OF static_step] by simp

lemma client2_eq: "client2 = received (V4 0x0A000002) reply_packet (step (Wrote None) client1)"
  unfolding client2_def reply_packet_def
  by (rule received_step) (simp_all add: sample_closed client1_def sample_call_def sample_client_fields del: step.simps)

lemma server1_eq: "server1 = received (V4 0x0A000001) request_packet sample_server"
  unfolding server1_def request_packet_def by (rule received_step) (simp_all add: sample_server_fields)

lemma sample_locals:
  "local (step ev e) = local e" "local client1 = sample_local" "local client2 = sample_local"
  "local server1 = sample_peer" "local server2 = sample_peer"
  by (simp_all add: fixed_step client1_def client2_def server1_def server2_def sample_server_fields sample_client_fields
      del: step.simps)

lemma sample_states:
  "writer_at (step sample_call sample_endpoint) = WTop" "writer_at (step (HandlerReturned 0 [3, 2, 1]) server1) = WTop"
  unfolding server1_eq by code_simp+

lemma client1_writes:
  "(case writer_at client1 of WWriting out \<Rightarrow> o_peer out = V4 0x0A000002 \<and> o_data out = layout (Data request_packet) | _ \<Rightarrow> False)"
  by code_simp

lemma server1_handles: "handlers server1 = [(0, [1, 2, 3])]"
  unfolding server1_eq by code_simp

lemma server2_writes:
  "(case writer_at server2 of WWriting out \<Rightarrow> o_peer out = V4 0x0A000001 \<and> o_data out = layout (Data reply_packet) | _ \<Rightarrow> False)"
  unfolding server2_def server1_eq by code_simp

lemma client2_result: "r_result (heap client2 ! 0) = Some [\<lparr>res_data = [3, 2, 1], res_err = None\<rparr>]"
  unfolding client2_eq by code_simp

definition sample_asked :: call_record where
  "sample_asked = \<lparr>c_from = sample_local, c_ptr = 0, c_key = \<lparr>key_peer = sample_peer, key_id = 8\<rparr>, c_request = [1, 2, 3]\<rparr>"

lemma sample_written:
  "written (Wrote None) client1 = [(V4 0x0A000001, V4 0x0A000002, layout (Data request_packet))]"
  "written (Wrote None) server2 = [(V4 0x0A000002, V4 0x0A000001, layout (Data reply_packet))]"
  "enabled (Wrote None) client1" "enabled (Wrote None) server2"
  using client1_writes server2_writes
  by (auto simp: sample_locals sample_local_def sample_peer_def split: writer.splits)

lemma sample_placed: "placed sample_call sample_endpoint = [sample_asked]"
  using call_start_accepted [OF sample_accepted, of None]
  by (simp add: sample_call_def sample_asked_def sample_client_fields sample_fields next_id_def)

lemma net_run_next:
  assumes "net_run h N0 evs N" and "i < length (nodes N)" and "net_enabled h ev (nodes N ! i) N" and "net_step i ev N = N'"
  shows "net_run h N0 (evs @ [(i, ev)]) N'"
  using net_snoc [OF assms(1-3)] assms(4) by simp

definition sample_events :: "(nat \<times> event) list" where
  "sample_events = [(0, sample_call), (0, WriterTurn), (0, Wrote None),
     (1, Datagram (V4 0x0A000001) (layout (Data request_packet))), (1, HandlerReturned 0 [3, 2, 1]), (1, WriterTurn),
     (1, Wrote None), (0, Datagram (V4 0x0A000002) (layout (Data reply_packet)))]"

definition sample_final :: network where
  "sample_final = \<lparr>nodes = [client2, step (Wrote None) server2],
     wire = [(V4 0x0A000001, V4 0x0A000002, layout (Data request_packet)), (V4 0x0A000002, V4 0x0A000001, layout (Data reply_packet))],
     asked = [sample_asked]\<rparr>"

lemma request_half:
  "net_run (\<lambda>_ _. rev) sample_net [(0, sample_call), (0, WriterTurn), (0, Wrote None),
     (1, Datagram (V4 0x0A000001) (layout (Data request_packet)))]
   \<lparr>nodes = [step (Wrote None) client1, server1],
     wire = [(V4 0x0A000001, V4 0x0A000002, layout (Data request_packet))], asked = [sample_asked]\<rparr>"
proof -
  let ?N = "\<lambda>a b w. \<lparr>nodes = [a, b], wire = w, asked = [sample_asked]\<rparr>"
  let ?w = "[(V4 0x0A000001, V4 0x0A000002, layout (Data request_packet))]"
  have "net_run (\<lambda>_ _. rev) sample_net ([] @ [(0, sample_call)]) (?N (step sample_call sample_endpoint) sample_server [])"
    by (rule net_run_next, rule net_Nil)
      (simp_all add: sample_net_def net_step_def sample_placed, simp_all add: sample_call_def)
  then have "net_run (\<lambda>_ _. rev) sample_net (([] @ [(0, sample_call)]) @ [(0, WriterTurn)]) (?N client1 sample_server [])"
    by (rule net_run_next) (simp_all add: net_step_def sample_states client1_def del: step.simps)
  then have "net_run (\<lambda>_ _. rev) sample_net ((([] @ [(0, sample_call)]) @ [(0, WriterTurn)]) @ [(0, Wrote None)])
      (?N (step (Wrote None) client1) sample_server ?w)"
    by (rule net_run_next) (simp_all add: net_step_def sample_written del: step.simps enabled.simps written.simps)
  then have "net_run (\<lambda>_ _. rev) sample_net (((([] @ [(0, sample_call)]) @ [(0, WriterTurn)]) @ [(0, Wrote None)]) @
      [(1, Datagram (V4 0x0A000001) (layout (Data request_packet)))]) (?N (step (Wrote None) client1) server1 ?w)"
    by (rule net_run_next)
      (simp_all add: net_step_def sample_server_fields sample_packet_bytes request_packet_def server1_def
        sample_peer_def del: step.simps)
  then show ?thesis by simp
qed

lemma sample_exchange: "net_run (\<lambda>_ _. rev) sample_net sample_events sample_final"
proof -
  let ?N = "\<lambda>a b w. \<lparr>nodes = [a, b], wire = w, asked = [sample_asked]\<rparr>"
  let ?c = "step (Wrote None) client1" and ?s = "step (Wrote None) server2"
  let ?w = "[(V4 0x0A000001, V4 0x0A000002, layout (Data request_packet))]"
  let ?ww = "?w @ [(V4 0x0A000002, V4 0x0A000001, layout (Data reply_packet))]"
  note request_half
  then have "net_run (\<lambda>_ _. rev) sample_net ([(0, sample_call), (0, WriterTurn), (0, Wrote None),
      (1, Datagram (V4 0x0A000001) (layout (Data request_packet)))] @ [(1, HandlerReturned 0 [3, 2, 1])])
      (?N ?c (step (HandlerReturned 0 [3, 2, 1]) server1) ?w)"
    by (rule net_run_next) (simp_all add: net_step_def server1_handles del: step.simps)
  then have "net_run (\<lambda>_ _. rev) sample_net (([(0, sample_call), (0, WriterTurn), (0, Wrote None),
      (1, Datagram (V4 0x0A000001) (layout (Data request_packet)))] @ [(1, HandlerReturned 0 [3, 2, 1])]) @
      [(1, WriterTurn)]) (?N ?c server2 ?w)"
    by (rule net_run_next) (simp_all add: net_step_def sample_states server2_def del: step.simps)
  then have "net_run (\<lambda>_ _. rev) sample_net ((([(0, sample_call), (0, WriterTurn), (0, Wrote None),
      (1, Datagram (V4 0x0A000001) (layout (Data request_packet)))] @ [(1, HandlerReturned 0 [3, 2, 1])]) @
      [(1, WriterTurn)]) @ [(1, Wrote None)]) (?N ?c ?s ?ww)"
    by (rule net_run_next) (simp_all add: net_step_def sample_written del: step.simps enabled.simps written.simps)
  then have "net_run (\<lambda>_ _. rev) sample_net (((([(0, sample_call), (0, WriterTurn), (0, Wrote None),
      (1, Datagram (V4 0x0A000001) (layout (Data request_packet)))] @ [(1, HandlerReturned 0 [3, 2, 1])]) @
      [(1, WriterTurn)]) @ [(1, Wrote None)]) @ [(0, Datagram (V4 0x0A000002) (layout (Data reply_packet)))])
      (?N client2 ?s ?ww)"
    by (rule net_run_next)
      (simp_all add: net_step_def sample_packet_bytes reply_packet_def client2_def sample_locals sample_local_def
        del: step.simps)
  then show ?thesis by (simp add: sample_events_def sample_final_def)
qed

lemma sample_net_start: "net_start sample_net"
proof -
  have "\<not> (\<not> Is4 (IP sample_peer) \<or> Port sample_peer = 0)" "\<not> (True \<and> Port sample_peer \<ge> 32768)"
    by (simp_all add: sample_peer_def)
  moreover obtain d where "defaults zero_config = Some d" using sample_New by (auto simp: New_def split: option.splits if_splits)
  ultimately have "New sample_peer zero_config True 7 (\<lambda>n. int n * Millisecond) (\<lambda>_ ks. ks) = Inr sample_server"
    by (simp add: sample_server_def New_def)
  then have "\<exists>l c has seed clk ord. New l c has seed clk ord = Inr sample_server" by blast
  moreover have "\<exists>l c has seed clk ord. New l c has seed clk ord = Inr sample_endpoint" using sample_New by blast
  moreover have "sample_local \<noteq> sample_peer" by (simp add: sample_local_def sample_peer_def)
  ultimately show ?thesis by (simp add: net_start_def sample_net_def sample_server_fields sample_client_fields)
qed

lemma sample_events_calls: "calls (map snd sample_events) \<le> idCycle"
  by (simp add: sample_events_def calls_def sample_call_def idCycle_def)

theorem end_to_end_witness:
  "r_result (heap client2 ! c_ptr sample_asked) = Some [\<lparr>res_data = rev (c_request sample_asked), res_err = None\<rparr>]"
proof -
  have "client2 \<in> set (nodes sample_final)" by (simp add: sample_final_def)
  note answer = end_to_end [OF sample_net_start sample_exchange sample_events_calls this, THEN conjunct2, rule_format]
  have "sample_asked \<in> set (asked sample_final)" by (simp add: sample_final_def)
  moreover have "c_from sample_asked = local client2" by (simp add: sample_asked_def sample_locals)
  moreover have "IP (key_peer (c_key sample_asked)) \<in> hosts sample_final"
    by (simp add: sample_asked_def hosts_def sample_final_def sample_locals del: step.simps)
  moreover have "r_result (heap client2 ! c_ptr sample_asked) = Some [\<lparr>res_data = [3, 2, 1], res_err = None\<rparr>]"
    by (simp add: sample_asked_def client2_result)
  ultimately show ?thesis
    using answer [of sample_asked "[\<lparr>res_data = [3, 2, 1], res_err = None\<rparr>]" "\<lparr>res_data = [3, 2, 1], res_err = None\<rparr>"]
      client2_result
    by (simp add: sample_asked_def sample_locals)
qed

theorem datagrams_well_formed_witness:
  "\<exists>out p. out \<in> leaving client1 \<and> Parse (o_data out) = Inr p \<and> PacketType (Header p) = o_typ out \<and>
     SourcePort (Header p) = 4000 \<and> length (o_data out) \<le> 1480"
proof -
  have "run sample_endpoint ([sample_call] @ [WriterTurn]) client1"
    unfolding client1_def by (rule run_snoc [OF sample_run]) (simp add: sample_states)
  moreover obtain out where "out \<in> leaving client1"
    using client1_writes by (auto simp: leaving_def split: writer.splits)
  ultimately show ?thesis using datagrams_well_formed [OF sample_New] by (fastforce simp: sample_local_def)
qed

end
