(* ===== verification/Address.thy ===== *)
theory Address
  imports Config
begin

unbundle bit_operations_syntax

text \<open>
  Addresses as text: \<^verbatim>\<open>Addr.String\<close> and \<^verbatim>\<open>ParseAddr\<close> of \<^verbatim>\<open>api.go\<close>, with what they use of Go's \<^verbatim>\<open>net/netip\<close> and
  \<^verbatim>\<open>strconv\<close>. Strings are byte strings, as in Go. MacHoma accepts IPv4 only, so the text form of IPv6
  addresses is a parameter of the model: a parser that may return any IPv6 address, and a printer.
\<close>

section \<open>Decimal numbers\<close>

definition digit_char :: "nat \<Rightarrow> char" where
  "digit_char d = char_of (48 + d)"

definition is_digit :: "char \<Rightarrow> bool" where
  "is_digit c \<longleftrightarrow> 48 \<le> (of_char c :: nat) \<and> (of_char c :: nat) \<le> 57"

definition digit_val :: "char \<Rightarrow> nat" where
  "digit_val c = of_char c - 48"

text \<open>\<^verbatim>\<open>strconv.Itoa\<close> of a number that is not negative.\<close>

fun itoa :: "nat \<Rightarrow> string" where
  "itoa n = (if n < 10 then [digit_char n] else itoa (n div 10) @ [digit_char (n mod 10)])"

declare itoa.simps [simp del]

text \<open>The value of a string of digits.\<close>

definition decimal :: "string \<Rightarrow> nat" where
  "decimal s = foldl (\<lambda>n c. n * 10 + digit_val c) 0 s"

text \<open>\<^verbatim>\<open>strconv.ParseUint(s, 10, bits)\<close>: digits only, at least one, and a value that fits.\<close>

definition ParseUint :: "string \<Rightarrow> nat \<Rightarrow> nat option" where
  "ParseUint s bits =
     (if s = [] \<or> \<not> list_all is_digit s \<or> 2 ^ bits \<le> decimal s then None else Some (decimal s))"

text \<open>\<^verbatim>\<open>strconv.Atoi\<close>: an optional sign, then digits, and a value of 64 bits.\<close>

definition Atoi :: "string \<Rightarrow> int option" where
  "Atoi s =
     (let (neg, ds) = (case s of
        [] \<Rightarrow> (False, [])
      | c # t \<Rightarrow> if c = CHR ''-'' then (True, t) else if c = CHR ''+'' then (False, t) else (False, s));
          n = int (decimal ds); v = (if neg then - n else n)
      in if ds = [] \<or> \<not> list_all is_digit ds \<or> v < - (2 ^ 63) \<or> 2 ^ 63 \<le> v then None else Some v)"

section \<open>Package netip\<close>

text \<open>\<^verbatim>\<open>netip.Addr.AsSlice\<close>: the bytes of an address.\<close>

fun AsSlice :: "netip \<Rightarrow> bytes" where
  "AsSlice NoAddr = []"
| "AsSlice (V4 a) = PutUint32 a"
| "AsSlice (V6 a z) = PutUint64 (ucast (drop_bit 64 a)) @ PutUint64 (ucast a)"

text \<open>The fields of an IPv4 address: \<open>val\<close> and \<open>digLen\<close> are the value and the number of digits of the
  current field, \<open>fs\<close> the fields before it.\<close>

fun parseIPv4Fields :: "string \<Rightarrow> nat \<Rightarrow> nat \<Rightarrow> nat list \<Rightarrow> nat list option" where
  "parseIPv4Fields [] val digLen fs = (if length fs < 3 then None else Some (fs @ [val]))"
| "parseIPv4Fields (c # s) val digLen fs =
     (if is_digit c then
        if digLen = 1 \<and> val = 0 then None
        else if val * 10 + digit_val c > 255 then None
        else parseIPv4Fields s (val * 10 + digit_val c) (Suc digLen) fs
      else if c = CHR ''.'' then
        if digLen = 0 \<or> s = [] then None
        else if length fs = 3 then None
        else parseIPv4Fields s 0 0 (fs @ [val])
      else None)"

definition parseIPv4 :: "string \<Rightarrow> netip option" where
  "parseIPv4 s = map_option (\<lambda>fs. V4 (Uint32 (map of_nat fs))) (parseIPv4Fields s 0 0 [])"

type_synonym ipv6_parser = "string \<Rightarrow> (128 word \<times> string) option"

definition parseIPv6 :: "ipv6_parser \<Rightarrow> string \<Rightarrow> netip option" where
  "parseIPv6 p6 s = map_option (\<lambda>(a, z). V6 a z) (p6 s)"

text \<open>\<^verbatim>\<open>netip.ParseAddr\<close>: the first of \<open>.\<close>, \<open>:\<close> and \<open>%\<close> decides.\<close>

fun netip_kind :: "string \<Rightarrow> char option" where
  "netip_kind [] = None"
| "netip_kind (c # s) = (if c \<in> {CHR ''.'', CHR '':'', CHR ''%''} then Some c else netip_kind s)"

definition netip_ParseAddr :: "ipv6_parser \<Rightarrow> string \<Rightarrow> netip option" where
  "netip_ParseAddr p6 s =
     (case netip_kind s of
        None \<Rightarrow> None
      | Some c \<Rightarrow> if c = CHR ''.'' then parseIPv4 s else if c = CHR '':'' then parseIPv6 p6 s else None)"

text \<open>The text before and after the last colon.\<close>

fun last_colon :: "string \<Rightarrow> (string \<times> string) option" where
  "last_colon [] = None"
| "last_colon (c # s) =
     (case last_colon s of
        Some (a, b) \<Rightarrow> Some (c # a, b)
      | None \<Rightarrow> if c = CHR '':'' then Some ([], s) else None)"

text \<open>\<^verbatim>\<open>splitAddrPort\<close>: address, port, and whether the address stood in brackets.\<close>

definition splitAddrPort :: "string \<Rightarrow> (string \<times> string \<times> bool) option" where
  "splitAddrPort s =
     (case last_colon s of
        None \<Rightarrow> None
      | Some (ip, port) \<Rightarrow>
          if ip = [] \<or> port = [] then None
          else if hd ip = CHR ''['' then
            if length ip < 2 \<or> last ip \<noteq> CHR '']'' then None else Some (butlast (tl ip), port, True)
          else Some (ip, port, False))"

definition ParseAddrPort :: "ipv6_parser \<Rightarrow> string \<Rightarrow> (netip \<times> u16) option" where
  "ParseAddrPort p6 s =
     (case splitAddrPort s of
        None \<Rightarrow> None
      | Some (ip, port, ipv6) \<Rightarrow>
         (case ParseUint port 16 of
            None \<Rightarrow> None
          | Some port16 \<Rightarrow>
             (case netip_ParseAddr p6 ip of
                None \<Rightarrow> None
              | Some a \<Rightarrow> if ipv6 = Is4 a then None else Some (a, of_nat port16))))"

section \<open>The code\<close>

datatype addr_error = NetipError | RequireIPv4

definition ParseAddr :: "ipv6_parser \<Rightarrow> string \<Rightarrow> addr_error + addr" where
  "ParseAddr p6 s =
     (case ParseAddrPort p6 s of
        None \<Rightarrow> Inl NetipError
      | Some (ip, port) \<Rightarrow>
          if \<not> Is4 ip \<or> port = 0 then Inl RequireIPv4 else Inr \<lparr>IP = ip, Port = port\<rparr>)"

text \<open>\<^verbatim>\<open>Addr.String\<close>, which is \<^verbatim>\<open>netip.AddrPort.String\<close>.\<close>

definition ipv4_text :: "u32 \<Rightarrow> string" where
  "ipv4_text a = (case map (itoa \<circ> unat) (PutUint32 a) of
     [w, x, y, z] \<Rightarrow> w @ ''.'' @ x @ ''.'' @ y @ ''.'' @ z)"

fun netip_String :: "(128 word \<Rightarrow> string \<Rightarrow> string) \<Rightarrow> netip \<Rightarrow> string" where
  "netip_String s6 NoAddr = ''invalid IP''"
| "netip_String s6 (V4 a) = ipv4_text a"
| "netip_String s6 (V6 a z) = s6 a z"

definition Addr_String :: "(128 word \<Rightarrow> string \<Rightarrow> string) \<Rightarrow> addr \<Rightarrow> string" where
  "Addr_String s6 a =
     (case IP a of
        NoAddr \<Rightarrow> ''invalid AddrPort''
      | V4 ip \<Rightarrow> ipv4_text ip @ '':'' @ itoa (unat (Port a))
      | V6 ip z \<Rightarrow> ''['' @ s6 ip z @ '']:'' @ itoa (unat (Port a)))"

section \<open>Decimal text\<close>

lemma digit_char_simps [simp]:
  assumes "d < 10"
  shows "is_digit (digit_char d)" and "digit_val (digit_char d) = d"
  using assms by (simp_all add: is_digit_def digit_char_def digit_val_def)

lemma digit_val_less: "is_digit c \<Longrightarrow> digit_val c < 10"
  by (auto simp: is_digit_def digit_val_def)

lemma digit_char_0: "digit_char 0 = CHR ''0''"
  by code_simp

lemma digit_char_val: "is_digit c \<Longrightarrow> digit_char (digit_val c) = c"
  by (simp add: is_digit_def digit_val_def digit_char_def)

lemma not_digit [simp]: "\<not> is_digit CHR ''.''" "\<not> is_digit CHR '':''" "\<not> is_digit CHR ''[''"
  by (simp_all add: is_digit_def)

lemma itoa_digits: "list_all is_digit (itoa n)"
proof (induction n rule: itoa.induct)
  case (1 n)
  then show ?case by (subst itoa.simps) simp
qed

lemma itoa_not_Nil [simp]: "itoa n \<noteq> []"
  by (subst itoa.simps) simp

lemma itoa_snoc: "0 < n \<Longrightarrow> d < 10 \<Longrightarrow> itoa (n * 10 + d) = itoa n @ [digit_char d]"
  by (subst itoa.simps) simp

lemma decimal_snoc [simp]: "decimal [] = 0" "decimal (s @ [c]) = decimal s * 10 + digit_val c"
  by (simp_all add: decimal_def)

lemma decimal_itoa [simp]: "decimal (itoa n) = n"
proof (induction n rule: itoa.induct)
  case (1 n)
  then show ?case using decimal_snoc(2) [of "[]"] by (subst itoa.simps) simp
qed

lemma decimal_zeros [simp]: "decimal (replicate z CHR ''0'' @ s) = decimal s"
proof -
  have "foldl (\<lambda>n c. n * 10 + digit_val c) 0 (replicate z CHR ''0'') = 0"
    by (induction z) (simp_all add: digit_val_def)
  then show ?thesis by (simp add: decimal_def)
qed

lemma digits_decimal:
  "list_all is_digit s \<Longrightarrow> \<exists>z. s = replicate z CHR ''0'' @ (if decimal s = 0 then [] else itoa (decimal s))"
proof (induction s rule: rev_induct)
  case (snoc c s)
  then obtain z where z: "s = replicate z CHR ''0'' @ (if decimal s = 0 then [] else itoa (decimal s))" by auto
  have c: "digit_val c < 10" "digit_char (digit_val c) = c" using snoc.prems digit_val_less digit_char_val by simp_all
  show ?case
  proof (cases "decimal s = 0")
    case True
    have zero: "c = CHR ''0''" if "digit_val c = 0" using c(2) that by (simp add: digit_char_0)
    have one: "itoa (digit_val c) = [c]" using c by (subst itoa.simps) simp
    show ?thesis using z True zero one
      by (intro exI [of _ "if digit_val c = 0 then Suc z else z"]) (simp add: replicate_append_same [symmetric])
  next
    case False
    then show ?thesis using z c itoa_snoc [of "decimal s" "digit_val c"] by (intro exI [of _ z]) simp
  qed
qed (simp add: exI [of _ 0])

lemma zeros_are_digits: "list_all is_digit (replicate z CHR ''0'')"
  by (simp add: list_all_iff is_digit_def)

text \<open>The port: a number up to 65535, possibly with leading zeros.\<close>

lemma ParseUint_iff:
  assumes "0 < n"
  shows "ParseUint s b = Some n \<longleftrightarrow> n < 2 ^ b \<and> (\<exists>z. s = replicate z CHR ''0'' @ itoa n)"
proof
  assume "ParseUint s b = Some n"
  then have *: "list_all is_digit s" "decimal s = n" "n < 2 ^ b" by (auto simp: ParseUint_def split: if_splits)
  then show "n < 2 ^ b \<and> (\<exists>z. s = replicate z CHR ''0'' @ itoa n)"
    using digits_decimal [OF *(1)] assms by simp
next
  assume "n < 2 ^ b \<and> (\<exists>z. s = replicate z CHR ''0'' @ itoa n)"
  then show "ParseUint s b = Some n"
    using itoa_digits [of n] zeros_are_digits by (auto simp: ParseUint_def)
qed

section \<open>IPv4 text\<close>

fun dotted :: "nat list \<Rightarrow> string" where
  "dotted [] = []"
| "dotted [v] = itoa v"
| "dotted (v # vs) = itoa v @ ''.'' @ dotted vs"

lemma dotted_Cons: "vs \<noteq> [] \<Longrightarrow> dotted (v # vs) = itoa v @ ''.'' @ dotted vs"
  by (cases vs) simp_all

lemma dotted_not_Nil [simp]: "dotted vs = [] \<longleftrightarrow> vs = []"
  by (cases vs rule: dotted.cases) simp_all

lemma fields_number:
  "v \<le> 255 \<Longrightarrow> parseIPv4Fields (itoa v @ s) 0 0 fs = parseIPv4Fields s v (length (itoa v)) fs"
proof (induction v arbitrary: s rule: itoa.induct)
  case (1 v)
  show ?case
  proof (cases "v < 10")
    case True
    then show ?thesis by (simp add: itoa.simps [of v])
  next
    case False
    then have e: "itoa v = itoa (v div 10) @ [digit_char (v mod 10)]" by (subst itoa.simps) simp
    have "v div 10 \<noteq> 0" using False by (simp add: div_eq_0_iff)
    then show ?thesis using 1 False e by simp
  qed
qed

lemma fields_dotted:
  "vs \<noteq> [] \<Longrightarrow> list_all (\<lambda>v. v \<le> 255) vs \<Longrightarrow> length fs + length vs = 4 \<Longrightarrow>
   parseIPv4Fields (dotted vs) 0 0 fs = Some (fs @ vs)"
proof (induction vs arbitrary: fs)
  case (Cons v vs)
  show ?case
  proof (cases "vs = []")
    case True
    then show ?thesis using Cons.prems fields_number [of v "[]" fs] by simp
  next
    case False
    then have "length fs \<noteq> 3" using Cons.prems by (cases vs) auto
    then show ?thesis using False Cons fields_number [of v "CHR ''.'' # dotted vs" fs]
      by (simp add: dotted_Cons)
  qed
qed simp

lemma fields_inv:
  assumes "parseIPv4Fields s val digLen fs = Some r"
    and "if digLen = 0 then val = 0 \<and> s \<noteq> [] else digLen = length (itoa val) \<and> val \<le> 255"
    and "length fs \<le> 3"
  shows "\<exists>vs. r = fs @ vs \<and> length r = 4 \<and> list_all (\<lambda>v. v \<le> 255) vs \<and>
    (if digLen = 0 then [] else itoa val) @ s = dotted vs"
  using assms
proof (induction s val digLen fs rule: parseIPv4Fields.induct)
  case (1 val digLen fs)
  then show ?case by (intro exI [of _ "[val]"]) (auto split: if_splits)
next
  case (2 c s val digLen fs)
  show ?case
  proof (cases "is_digit c")
    case True
    let ?v = "val * 10 + digit_val c"
    have cont: "parseIPv4Fields s ?v (Suc digLen) fs = Some r" "\<not> (digLen = 1 \<and> val = 0)" "?v \<le> 255"
      using 2(3) True by (auto split: if_splits)
    have c: "digit_val c < 10" "digit_char (digit_val c) = c" using True digit_val_less digit_char_val by simp_all
    have pre: "(if digLen = 0 then [] else itoa val) @ [c] = itoa ?v"
    proof (cases "digLen = 0")
      case True
      then show ?thesis using 2(4) c by (simp add: itoa.simps [of "digit_val c"])
    next
      case False
      have "0 < val"
      proof (rule ccontr)
        assume "\<not> 0 < val"
        then have "digLen = 1" using 2(4) False by (simp add: itoa.simps [of 0])
        then show False using cont(2) \<open>\<not> 0 < val\<close> by simp
      qed
      then show ?thesis using False c itoa_snoc [of val "digit_val c"] by simp
    qed
    have "length (itoa ?v) = Suc digLen" using 2(4) unfolding pre [symmetric] by (auto split: if_splits)
    then obtain vs where "r = fs @ vs" "length r = 4" "list_all (\<lambda>v. v \<le> 255) vs" "itoa ?v @ s = dotted vs"
      using 2(1) [OF True] cont 2(5) by auto
    then show ?thesis unfolding pre [symmetric] by (intro exI [of _ vs]) simp
  next
    case False
    have c: "c = CHR ''.''" "digLen \<noteq> 0" "s \<noteq> []" "length fs \<noteq> 3" "parseIPv4Fields s 0 0 (fs @ [val]) = Some r"
      using 2(3) False by (auto split: if_splits)
    then obtain vs where vs: "r = (fs @ [val]) @ vs" "length r = 4" "list_all (\<lambda>v. v \<le> 255) vs" "s = dotted vs"
      using 2(2) [OF False] 2(5) by auto
    then have "vs \<noteq> []" using c(3) by auto
    then show ?thesis using vs c 2(4) by (intro exI [of _ "val # vs"]) (simp add: dotted_Cons)
  qed
qed

lemma ipv4_text_dotted: "ipv4_text a = dotted (map unat (PutUint32 a))"
  by (simp add: ipv4_text_def PutUint32_def)

lemma unat_byte: "unat (x :: byte) \<le> 255"
  using unat_u8 [of x] by simp

lemma parseIPv4_iff: "parseIPv4 s = Some ip \<longleftrightarrow> (\<exists>a. ip = V4 a \<and> s = ipv4_text a)"
proof
  assume "parseIPv4 s = Some ip"
  then obtain fs where fs: "parseIPv4Fields s 0 0 [] = Some fs" "ip = V4 (Uint32 (map of_nat fs))"
    by (auto simp: parseIPv4_def)
  moreover have "s \<noteq> []" using fs(1) by auto
  ultimately have f: "length fs = 4" "list_all (\<lambda>v. v \<le> 255) fs" "s = dotted fs"
    using fields_inv [OF fs(1)] by auto
  then have "map unat (PutUint32 (Uint32 (map of_nat fs))) = fs"
    by (simp add: PutUint32_Uint32 o_def list_all_iff) (auto intro!: map_idI simp: unsigned_of_nat take_bit_nat_eq_self)
  then show "\<exists>a. ip = V4 a \<and> s = ipv4_text a" using fs(2) f(3) by (auto simp: ipv4_text_dotted)
next
  assume "\<exists>a. ip = V4 a \<and> s = ipv4_text a"
  then obtain a where a: "ip = V4 a" "s = ipv4_text a" by blast
  have "parseIPv4Fields s 0 0 [] = Some (map unat (PutUint32 a))"
    using fields_dotted [of "map unat (PutUint32 a)" "[]"] unat_byte
    by (simp add: a ipv4_text_dotted PutUint32_def)
  then show "parseIPv4 s = Some ip" by (simp add: parseIPv4_def a o_def)
qed

text \<open>The text of an IPv4 address is digits and dots; it begins with a digit and holds a dot.\<close>

lemma netip_kind_number: "list_all is_digit s \<Longrightarrow> netip_kind (s @ CHR ''.'' # t) = Some CHR ''.''"
  by (induction s) (auto simp: is_digit_def)

lemma ipv4_text_shape:
  "netip_kind (ipv4_text a) = Some CHR ''.''" "hd (ipv4_text a) \<noteq> CHR ''[''" "ipv4_text a \<noteq> []"
proof -
  obtain w t where wt: "ipv4_text a = itoa w @ CHR ''.'' # t"
    using ipv4_text_def [of a] by (simp add: PutUint32_def)
  show "netip_kind (ipv4_text a) = Some CHR ''.''" unfolding wt by (rule netip_kind_number [OF itoa_digits])
  show "ipv4_text a \<noteq> []" by (simp add: wt)
  have "is_digit (hd (itoa w))" using itoa_digits [of w] by (cases "itoa w") auto
  then have "is_digit (hd (ipv4_text a))" by (simp add: wt)
  then show "hd (ipv4_text a) \<noteq> CHR ''[''" by auto
qed

lemma netip_ParseAddr_Is4:
  "netip_ParseAddr p6 s = Some ip \<and> Is4 ip \<longleftrightarrow> (\<exists>a. ip = V4 a \<and> s = ipv4_text a)"
proof
  assume "netip_ParseAddr p6 s = Some ip \<and> Is4 ip"
  then show "\<exists>a. ip = V4 a \<and> s = ipv4_text a"
    by (auto simp: netip_ParseAddr_def parseIPv6_def parseIPv4_iff split: option.splits if_splits)
next
  assume "\<exists>a. ip = V4 a \<and> s = ipv4_text a"
  then show "netip_ParseAddr p6 s = Some ip \<and> Is4 ip"
    using ipv4_text_shape(1) by (auto simp: netip_ParseAddr_def parseIPv4_iff)
qed

lemma last_colon_Some: "last_colon s = Some (a, b) \<Longrightarrow> s = a @ CHR '':'' # b"
  by (induction s arbitrary: a) (auto split: option.splits if_splits prod.splits)

lemma last_colon_None: "CHR '':'' \<notin> set s \<Longrightarrow> last_colon s = None"
  by (induction s) auto

lemma last_colon_append: "CHR '':'' \<notin> set b \<Longrightarrow> last_colon (a @ CHR '':'' # b) = Some (a, b)"
  by (induction a) (simp_all add: last_colon_None)

section \<open>Properties\<close>

lemma port_no_colon: "CHR '':'' \<notin> set (replicate z CHR ''0'' @ itoa n)"
  using itoa_digits [of n] not_digit(2) by (auto simp: list_all_iff)

lemma splitAddrPort_IPv4:
  "splitAddrPort s = Some (ipv4_text ip, port, False) \<longleftrightarrow>
   last_colon s = Some (ipv4_text ip, port) \<and> port \<noteq> []"
  using ipv4_text_shape [of ip] by (auto simp: splitAddrPort_def split: option.splits if_splits)

lemma ParseAddrPort_IPv4:
  assumes "port \<noteq> 0"
  shows "ParseAddrPort p6 s = Some (V4 ip, port) \<longleftrightarrow>
    (\<exists>z. s = ipv4_text ip @ '':'' @ replicate z CHR ''0'' @ itoa (unat port))"
proof
  have pos: "0 < unat port" using assms by (simp add: unat_gt_0)
  {
    assume "ParseAddrPort p6 s = Some (V4 ip, port)"
    then obtain t u n where *: "splitAddrPort s = Some (t, u, False)" "ParseUint u 16 = Some n"
      "netip_ParseAddr p6 t = Some (V4 ip)" "port = of_nat n"
      by (auto simp: ParseAddrPort_def split: option.splits if_splits)
    then have t: "t = ipv4_text ip" using netip_ParseAddr_Is4 [of p6 t "V4 ip"] by simp
    have "n < 2 ^ 16" using *(2) by (auto simp: ParseUint_def split: if_splits)
    then have n: "unat port = n" using *(4) by (simp add: unsigned_of_nat take_bit_nat_eq_self)
    then have "\<exists>z. u = replicate z CHR ''0'' @ itoa n" using ParseUint_iff [of n u 16] *(2) pos by simp
    moreover have "last_colon s = Some (t, u)" using *(1) t splitAddrPort_IPv4 by simp
    ultimately show "\<exists>z. s = ipv4_text ip @ '':'' @ replicate z CHR ''0'' @ itoa (unat port)"
      using last_colon_Some t n by fastforce
  }
  assume "\<exists>z. s = ipv4_text ip @ '':'' @ replicate z CHR ''0'' @ itoa (unat port)"
  then obtain z where s: "s = ipv4_text ip @ CHR '':'' # (replicate z CHR ''0'' @ itoa (unat port))" by auto
  have "last_colon s = Some (ipv4_text ip, replicate z CHR ''0'' @ itoa (unat port))"
    unfolding s by (rule last_colon_append [OF port_no_colon])
  then have "splitAddrPort s = Some (ipv4_text ip, replicate z CHR ''0'' @ itoa (unat port), False)"
    by (simp add: splitAddrPort_IPv4)
  moreover have "ParseUint (replicate z CHR ''0'' @ itoa (unat port)) 16 = Some (unat port)"
    using ParseUint_iff [OF pos] unat_u16 [of port] by simp
  moreover have "netip_ParseAddr p6 (ipv4_text ip) = Some (V4 ip)"
    using netip_ParseAddr_Is4 [of p6 "ipv4_text ip" "V4 ip"] by simp
  ultimately show "ParseAddrPort p6 s = Some (V4 ip, port)" by (simp add: ParseAddrPort_def)
qed

lemma Is4_iff: "Is4 ip \<longleftrightarrow> (\<exists>a. ip = V4 a)"
  by (cases ip) simp_all

text \<open>C40. \<^verbatim>\<open>ParseAddr\<close> accepts exactly the text of an IPv4 address and a port other than 0 in decimal, the
  port possibly with leading zeros, and returns that address; no IPv6 text is ever accepted. Every
  address it can return is printed and parsed back to itself.\<close>

theorem parse_addr_exact:
  "(ParseAddr p6 s = Inr a \<longleftrightarrow>
     (\<exists>ip z. IP a = V4 ip \<and> Port a \<noteq> 0 \<and>
        s = ipv4_text ip @ '':'' @ replicate z CHR ''0'' @ itoa (unat (Port a)))) \<and>
   (Is4 (IP a) \<and> Port a \<noteq> 0 \<longrightarrow> ParseAddr p6 (Addr_String s6 a) = Inr a)"
proof
  have eq: "ParseAddr p6 s = Inr a \<longleftrightarrow> Is4 (IP a) \<and> Port a \<noteq> 0 \<and> ParseAddrPort p6 s = Some (IP a, Port a)" for s
    by (cases a) (auto simp: ParseAddr_def split: option.splits if_splits)
  show iff: "ParseAddr p6 s = Inr a \<longleftrightarrow>
     (\<exists>ip z. IP a = V4 ip \<and> Port a \<noteq> 0 \<and>
        s = ipv4_text ip @ '':'' @ replicate z CHR ''0'' @ itoa (unat (Port a)))"
    unfolding eq by (cases "IP a"; cases "Port a = 0") (simp_all add: ParseAddrPort_IPv4)
  show "Is4 (IP a) \<and> Port a \<noteq> 0 \<longrightarrow> ParseAddr p6 (Addr_String s6 a) = Inr a"
    unfolding eq Is4_iff using ParseAddrPort_IPv4 [of "Port a" p6] 
    by (auto simp: Addr_String_def intro!: exI [of _ 0])
qed

theorem parse_addr_exact_witness:
  "ParseAddr (\<lambda>_. None) ''127.0.0.1:04000'' = Inr \<lparr>IP = V4 0x7f000001, Port = 4000\<rparr>"
proof -
  let ?a = "\<lparr>IP = V4 0x7f000001, Port = 4000\<rparr>"
  have "''127.0.0.1:04000'' = ipv4_text 0x7f000001 @ '':'' @ replicate 1 CHR ''0'' @ itoa (unat (Port ?a))"
    by code_simp
  moreover have "IP ?a = V4 0x7f000001" "Port ?a \<noteq> 0" by simp_all
  ultimately show ?thesis using parse_addr_exact by blast
qed

end
