(* ===== verification/Float64.thy ===== *)
theory Float64
  imports Complex_Main "HOL-Library.Log_Nat"
begin

text \<open>
  Go's \<^verbatim>\<open>float64\<close> arithmetic, as far as the benchmark's report uses it: the result of an operation is the exact
  result rounded to 53 significant bits, to nearest, ties to even. Numbers are rational; overflow, subnormal
  numbers and NaN are out of the range of the quantities modelled here: integers up to 2^63, and quotients of
  these by powers of ten and by times of at least a nanosecond.
\<close>

section \<open>Rounding\<close>

text \<open>To the nearest integer, ties to even.\<close>

definition round_even :: "rat \<Rightarrow> int" where
  "round_even x =
     (let n = \<lfloor>x\<rfloor>; r = x - of_int n in
      if r < 1 / 2 then n else if r > 1 / 2 then n + 1 else if even n then n else n + 1)"

text \<open>The binary exponent of a positive number: \<open>2 ^ e \<le> x < 2 ^ (e + 1)\<close>.\<close>

definition exponent :: "rat \<Rightarrow> int" where
  "exponent x =
     (case quotient_of x of (a, b) \<Rightarrow>
        let k = int (floorlog 2 (nat a)) - int (floorlog 2 (nat b)) in
        if 2 powi k \<le> x then k else k - 1)"

definition fl :: "rat \<Rightarrow> rat" where
  "fl x = (if x \<le> 0 then x else let e = exponent x - 52 in of_int (round_even (x / 2 powi e)) * 2 powi e)"

section \<open>Laws\<close>

lemma round_even_bound: "\<bar>of_int (round_even x) - x\<bar> \<le> 1 / 2"
proof -
  define n r where "n = \<lfloor>x\<rfloor>" and "r = x - of_int n"
  have "x = of_int n + r" "0 \<le> r" "r < 1" unfolding n_def r_def by linarith+
  then show ?thesis unfolding round_even_def Let_def n_def [symmetric] r_def [symmetric] by (auto simp: abs_if)
qed

lemma round_even_le:
  assumes "x \<le> of_int k"
  shows "round_even x \<le> k"
proof (cases "x = of_int k")
  case False
  then have "\<lfloor>x\<rfloor> < k" using assms by linarith
  then show ?thesis by (auto simp: round_even_def Let_def)
qed (simp add: round_even_def Let_def)

lemma round_even_ge:
  assumes "of_int k \<le> x"
  shows "k \<le> round_even x"
proof -
  have "k \<le> \<lfloor>x\<rfloor>" using assms by linarith
  then show ?thesis by (auto simp: round_even_def Let_def)
qed

lemma floorlog_powi:
  assumes "0 < (a :: int)"
  shows "2 powi (int (floorlog 2 (nat a)) - 1) \<le> (of_int a :: rat)" and "(of_int a :: rat) < 2 powi int (floorlog 2 (nat a))"
proof -
  let ?n = "floorlog 2 (nat a)"
  have b: "2 ^ (?n - 1) \<le> nat a" "nat a < 2 ^ ?n" using floorlog_bounds [of "nat a" 2] assms by auto
  have p: "0 < ?n" using assms by (simp add: floorlog_def)
  have "(of_nat (2 ^ (?n - 1)) :: rat) \<le> of_nat (nat a)" "(of_nat (nat a) :: rat) < of_nat (2 ^ ?n)"
    using b by (simp_all only: of_nat_le_iff of_nat_less_iff)
  moreover have "(2 :: rat) powi (int ?n - 1) = of_nat (2 ^ (?n - 1))"
    using p by (simp add: power_int_def of_nat_diff nat_diff_distrib)
  ultimately show "2 powi (int ?n - 1) \<le> (of_int a :: rat)" "(of_int a :: rat) < 2 powi int ?n"
    using assms by (simp_all add: power_int_def)
qed

lemma exponent_bounds:
  assumes "0 < x"
  shows "2 powi exponent x \<le> x" and "x < 2 powi (exponent x + 1)"
proof -
  obtain a b where q: "quotient_of x = (a, b)" by (cases "quotient_of x")
  have b: "0 < b" using quotient_of_denom_pos [OF q] .
  have x: "x = of_int a / of_int b" using quotient_of_div [OF q] .
  have a: "0 < a" using assms b by (simp add: x zero_less_divide_iff)
  define k where "k = int (floorlog 2 (nat a)) - int (floorlog 2 (nat b))"
  have "x < 2 powi (k + 1)"
  proof -
    have "x < 2 powi int (floorlog 2 (nat a)) / of_int b"
      unfolding x using floorlog_powi(2) [OF a] b by (intro divide_strict_right_mono) simp_all
    also have "\<dots> \<le> 2 powi int (floorlog 2 (nat a)) / 2 powi (int (floorlog 2 (nat b)) - 1)"
      using floorlog_powi(1) [OF b] by (intro divide_left_mono) (simp_all add: b)
    also have "\<dots> = 2 powi (int (floorlog 2 (nat a)) - (int (floorlog 2 (nat b)) - 1))"
      by (rule power_int_diff [symmetric]) simp
    also have "int (floorlog 2 (nat a)) - (int (floorlog 2 (nat b)) - 1) = k + 1" by (simp add: k_def)
    finally show ?thesis .
  qed
  moreover have "2 powi (k - 1) \<le> x"
  proof -
    have "2 powi (k - 1) = 2 powi (int (floorlog 2 (nat a)) - 1) / (2 :: rat) powi int (floorlog 2 (nat b))"
    proof -
      have k: "k - 1 = (int (floorlog 2 (nat a)) - 1) - int (floorlog 2 (nat b))" by (simp add: k_def)
      show ?thesis unfolding k by (rule power_int_diff) simp
    qed
    also have "\<dots> \<le> of_int a / 2 powi int (floorlog 2 (nat b))"
      using floorlog_powi(1) [OF a] by (intro divide_right_mono) simp_all
    also have "\<dots> \<le> x"
      unfolding x using floorlog_powi(2) [OF b] a b by (intro divide_left_mono) simp_all
    finally show ?thesis .
  qed
  ultimately show "2 powi exponent x \<le> x" "x < 2 powi (exponent x + 1)"
    by (auto simp: exponent_def q k_def [symmetric] Let_def)
qed

lemma fl_error:
  assumes "0 < x"
  shows "\<bar>fl x - x\<bar> \<le> x / 2 ^ 53"
proof -
  define e where "e = exponent x - 52"
  have pos: "(0 :: rat) < 2 powi e" by simp
  have "\<bar>of_int (round_even (x / 2 powi e)) - x / 2 powi e\<bar> * 2 powi e \<le> 1 / 2 * 2 powi e"
    using round_even_bound by (rule mult_right_mono) (simp add: less_imp_le [OF pos])
  moreover have "\<bar>of_int (round_even (x / 2 powi e)) - x / 2 powi e\<bar> * 2 powi e =
      \<bar>(of_int (round_even (x / 2 powi e)) - x / 2 powi e) * 2 powi e\<bar>"
    using pos by (simp add: abs_mult)
  moreover have "(of_int (round_even (x / 2 powi e)) - x / 2 powi e) * 2 powi e = fl x - x"
    using assms by (simp add: fl_def e_def [symmetric] Let_def left_diff_distrib)
  ultimately have "\<bar>fl x - x\<bar> \<le> 2 powi e / 2" by simp
  also have "(2 :: rat) powi e = 2 powi exponent x / 2 powi 52" unfolding e_def by (rule power_int_diff) simp
  finally have "\<bar>fl x - x\<bar> \<le> 2 powi exponent x / 2 ^ 53" by simp
  also have "\<dots> \<le> x / 2 ^ 53" using exponent_bounds(1) [OF assms] by (rule divide_right_mono) simp
  finally show ?thesis .
qed

text \<open>An integer below \<open>2 ^ 53\<close> bounds the rounded value of everything it bounds, and is itself exact.\<close>

lemma integer_grid:
  assumes "0 < x" and "exponent x \<le> 52"
  shows "\<exists>m. of_int k / 2 powi (exponent x - 52) = (of_int m :: rat)"
proof -
  define j where "j = nat (52 - exponent x)"
  have e: "exponent x - 52 = - int j" using assms(2) by (simp add: j_def)
  have "of_int k / 2 powi (exponent x - 52) = (of_int (k * 2 ^ j) :: rat)"
    unfolding e by (simp add: power_int_minus divide_inverse)
  then show ?thesis by blast
qed

lemma exponent_le:
  assumes "0 < x" and "x < 2 ^ 53"
  shows "exponent x \<le> 52"
proof (rule ccontr)
  assume "\<not> exponent x \<le> 52"
  then have "(2 :: rat) powi 53 \<le> 2 powi exponent x" by (intro power_int_increasing) simp_all
  then show False using exponent_bounds(1) [OF assms(1)] assms(2) by simp
qed

lemma fl_le_integer:
  assumes "0 < x" and "x \<le> of_int k" and "k < 2 ^ 53"
  shows "fl x \<le> of_int k"
proof -
  define e where "e = exponent x - 52"
  have pos: "(0 :: rat) < 2 powi e" by simp
  have "(of_int k :: rat) < 2 ^ 53" using assms(3) by (metis of_int_less_iff of_int_numeral of_int_power)
  then have "exponent x \<le> 52" using exponent_le assms by simp
  then obtain m where m: "of_int k / 2 powi e = (of_int m :: rat)" using integer_grid [OF assms(1)] e_def by blast
  have "x / 2 powi e \<le> of_int m" unfolding m [symmetric] using assms(2) by (rule divide_right_mono) (simp add: less_imp_le [OF pos])
  then have "round_even (x / 2 powi e) \<le> m" by (rule round_even_le)
  then have "of_int (round_even (x / 2 powi e)) * 2 powi e \<le> (of_int m :: rat) * 2 powi e"
    by (intro mult_right_mono) (simp_all add: less_imp_le [OF pos])
  also have "\<dots> = of_int k" using m pos by (simp add: field_simps)
  finally show ?thesis using assms(1) by (simp add: fl_def e_def [symmetric] Let_def)
qed

lemma fl_integer:
  assumes "0 \<le> k" and "k < 2 ^ 53"
  shows "fl (of_int k) = of_int k"
proof (cases "k = 0")
  case False
  then have pos: "(0 :: rat) < of_int k" using assms(1) by simp
  define e where "e = exponent (of_int k :: rat) - 52"
  have "(of_int k :: rat) < 2 ^ 53" using assms(2) by (metis of_int_less_iff of_int_numeral of_int_power)
  then obtain m where m: "of_int k / 2 powi e = (of_int m :: rat)"
    using integer_grid [OF pos] exponent_le [OF pos] e_def by blast
  have "round_even (of_int m) = m" by (simp add: round_even_def Let_def)
  then have "fl (of_int k) = of_int m * 2 powi e" using pos m by (simp add: fl_def e_def [symmetric] Let_def)
  also have "\<dots> = of_int k" using m by (simp add: field_simps)
  finally show ?thesis .
qed (simp add: fl_def)

section \<open>Relative error\<close>

definition near :: "rat \<Rightarrow> rat \<Rightarrow> rat \<Rightarrow> bool" where
  "near a x y \<longleftrightarrow> y * (1 - a) \<le> x \<and> x \<le> y * (1 + a)"

lemma near_fl: "0 \<le> x \<Longrightarrow> near (1 / 2 ^ 53) (fl x) x"
proof (cases "x = 0")
  case False
  moreover assume "0 \<le> x"
  ultimately have "\<bar>fl x - x\<bar> \<le> x / 2 ^ 53" by (intro fl_error) simp
  then show ?thesis unfolding near_def right_diff_distrib distrib_left abs_le_iff mult_1_right times_divide_eq_right by linarith
qed (simp add: near_def fl_def)

lemma near_trans:
  assumes "near a x y" and "near b y z" and "0 \<le> z" and "0 \<le> a" and "a \<le> 1" and "0 \<le> b" and "a + b + a * b \<le> c"
  shows "near c x z"
proof -
  have "x \<le> y * (1 + a)" using assms(1) by (simp add: near_def)
  also have "\<dots> \<le> (z * (1 + b)) * (1 + a)" using assms(2,4) by (intro mult_right_mono) (simp_all add: near_def)
  also have "\<dots> = z * (1 + (a + b + a * b))" by (simp add: algebra_simps)
  also have "\<dots> \<le> z * (1 + c)" using assms(3,7) by (intro mult_left_mono) simp_all
  finally have upper: "x \<le> z * (1 + c)" .
  have "a + b - a * b \<le> c" using assms(7) mult_nonneg_nonneg [OF assms(4,6)] by linarith
  then have "z * (1 - c) \<le> z * (1 - (a + b - a * b))" using assms(3) by (intro mult_left_mono) simp_all
  also have "\<dots> = (z * (1 - b)) * (1 - a)" by (simp add: algebra_simps)
  also have "\<dots> \<le> y * (1 - a)" using assms(2,5) by (intro mult_right_mono) (simp_all add: near_def)
  also have "\<dots> \<le> x" using assms(1) by (simp add: near_def)
  finally show ?thesis using upper by (simp add: near_def)
qed

lemma near_pos: "near a x y \<Longrightarrow> 0 < y \<Longrightarrow> a < 1 \<Longrightarrow> 0 < x"
  unfolding near_def by (metis diff_gt_0_iff_gt less_le_trans mult_pos_pos)

lemma near_scale: "near a x y \<Longrightarrow> 0 < c \<Longrightarrow> near a (x / c) (y / c)"
  by (simp add: near_def divide_right_mono)

lemma near_inverse:
  assumes "near a x y" and "0 < y" and "0 \<le> a" and "a < 1" and "0 \<le> n" and "1 \<le> (1 - a) * (1 + b)" and "a \<le> b"
  shows "near b (n / x) (n / y)"
proof -
  have x: "0 < x" by (rule near_pos) (use assms in auto)
  have "n * y \<le> n * (y * ((1 - a) * (1 + b)))"
    using assms(2,5,6) by (intro mult_left_mono) simp_all
  also have "\<dots> = n * (1 + b) * (y * (1 - a))" by (simp add: algebra_simps)
  also have "\<dots> \<le> n * (1 + b) * x" using assms by (intro mult_left_mono) (simp_all add: near_def)
  finally have upper: "n / x \<le> n / y * (1 + b)" using x assms(2) by (simp add: field_simps)
  have "n * (1 - b) * x \<le> n * y"
  proof (cases "b \<le> 1")
    case True
    have "n * (1 - b) * x \<le> n * (1 - b) * (y * (1 + a))" using assms True by (intro mult_left_mono) (simp_all add: near_def)
    also have "\<dots> = n * y * ((1 - b) * (1 + a))" by (simp add: algebra_simps)
    also have "\<dots> \<le> n * y * 1"
    proof (rule mult_left_mono)
      have "(1 - b) * (1 + a) \<le> (1 - a) * (1 + a)" using assms(3,7) by (intro mult_right_mono) simp_all
      also have "\<dots> = 1 - a * a" by (simp add: algebra_simps)
      finally show "(1 - b) * (1 + a) \<le> 1" by (simp add: order_trans)
    qed (use assms in simp)
    finally show ?thesis by simp
  next
    case False
    then have "n * (1 - b) * x \<le> 0" using assms(5) x by (simp add: mult_nonneg_nonpos mult_nonpos_nonneg)
    also have "\<dots> \<le> n * y" using assms by simp
    finally show ?thesis .
  qed
  then have "n / y * (1 - b) \<le> n / x" using x assms(2) by (simp add: field_simps)
  with upper show ?thesis by (simp add: near_def)
qed

end
