(* ===== verification/Flags.thy ===== *)
theory Flags
  imports Address Float64
begin

unbundle bit_operations_syntax

text \<open>
  Command lines: what the tools use of Go's package \<^verbatim>\<open>flag\<close>, with the numbers of \<^verbatim>\<open>strconv.ParseInt(s, 0, 64)\<close> and the
  durations of \<^verbatim>\<open>time.ParseDuration\<close> it reads. Any error of these parsers is \<open>None\<close>.
\<close>

section \<open>Integers\<close>

text \<open>\<^verbatim>\<open>lower(c)\<close> of \<^verbatim>\<open>strconv\<close>: the code of the character with bit 5 set.\<close>

definition lower :: "char \<Rightarrow> nat" where
  "lower c = of_char c OR 32"

definition digit_of :: "char \<Rightarrow> nat option" where
  "digit_of c =
     (if is_digit c then Some (digit_val c)
      else if 97 \<le> lower c \<and> lower c \<le> 122 then Some (lower c - 97 + 10) else None)"

text \<open>The digits of a number; underscores are skipped here and checked below.\<close>

fun number :: "nat \<Rightarrow> nat \<Rightarrow> string \<Rightarrow> nat option" where
  "number base n [] = Some n"
| "number base n (c # cs) =
     (if c = CHR ''_'' then number base n cs
      else case digit_of c of
        None \<Rightarrow> None
      | Some d \<Rightarrow> if base \<le> d then None else number base (n * base + d) cs)"

definition base_prefix :: "string \<Rightarrow> nat \<times> string" where
  "base_prefix s =
     (case s of
        [] \<Rightarrow> (10, [])
      | c # cs \<Rightarrow>
          if c \<noteq> CHR ''0'' then (10, s)
          else if 3 \<le> length s \<and> lower (s ! 1) = 98 then (2, drop 2 s)
          else if 3 \<le> length s \<and> lower (s ! 1) = 111 then (8, drop 2 s)
          else if 3 \<le> length s \<and> lower (s ! 1) = 120 then (16, drop 2 s)
          else (8, cs))"

text \<open>\<^verbatim>\<open>underscoreOK\<close>: every underscore stands between digits, the prefix of the base counting as one. \<open>saw\<close> is
  the class of the character before.\<close>

datatype saw = SawStart | SawDigit | SawUnderscore | SawOther

fun underscores_ok :: "bool \<Rightarrow> saw \<Rightarrow> string \<Rightarrow> bool" where
  "underscores_ok hex saw [] \<longleftrightarrow> saw \<noteq> SawUnderscore"
| "underscores_ok hex saw (c # cs) \<longleftrightarrow>
     (if is_digit c \<or> hex \<and> 97 \<le> lower c \<and> lower c \<le> 102 then underscores_ok hex SawDigit cs
      else if c = CHR ''_'' then saw = SawDigit \<and> underscores_ok hex SawUnderscore cs
      else saw \<noteq> SawUnderscore \<and> underscores_ok hex SawOther cs)"

definition underscoreOK :: "string \<Rightarrow> bool" where
  "underscoreOK s =
     (let s = (case s of c # cs \<Rightarrow> if c = CHR ''-'' \<or> c = CHR ''+'' then cs else s | [] \<Rightarrow> s) in
      if 2 \<le> length s \<and> s ! 0 = CHR ''0'' \<and> lower (s ! 1) \<in> {98, 111, 120}
      then underscores_ok (lower (s ! 1) = 120) SawDigit (drop 2 s)
      else underscores_ok False SawStart s)"

definition ParseUint0 :: "string \<Rightarrow> nat option" where
  "ParseUint0 s =
     (if s = [] then None
      else case base_prefix s of (base, t) \<Rightarrow>
        (case number base 0 t of
           None \<Rightarrow> None
         | Some n \<Rightarrow> if CHR ''_'' \<in> set t \<and> \<not> underscoreOK s then None else if 2 ^ 64 \<le> n then None else Some n))"

definition sign :: "string \<Rightarrow> bool \<times> string" where
  "sign s =
     (case s of
        [] \<Rightarrow> (False, [])
      | c # cs \<Rightarrow> if c = CHR ''+'' then (False, cs) else if c = CHR ''-'' then (True, cs) else (False, s))"

definition ParseInt0 :: "string \<Rightarrow> int option" where
  "ParseInt0 s =
     (case sign s of (neg, t) \<Rightarrow>
        (case ParseUint0 t of
           None \<Rightarrow> None
         | Some n \<Rightarrow>
             if \<not> neg \<and> 2 ^ 63 \<le> n \<or> neg \<and> 2 ^ 63 < n then None
             else Some (if neg then - int n else int n)))"

section \<open>Durations\<close>

text \<open>The units, the micro sign and the Greek letter in UTF-8.\<close>

definition unitMap :: "string \<Rightarrow> nat option" where
  "unitMap u = map_of
     [(''ns'', 1), (''us'', 1000), ([CHR 0xC2, CHR 0xB5, CHR ''s''], 1000), ([CHR 0xCE, CHR 0xBC, CHR ''s''], 1000),
      (''ms'', 1000000), (''s'', 1000000000), (''m'', 60000000000), (''h'', 3600000000000)] u"

text \<open>\<^verbatim>\<open>leadingInt\<close>: the number at the front, at most \<open>2\<^sup>6\<^sup>3\<close>, and the rest.\<close>

fun leadingInt :: "nat \<Rightarrow> string \<Rightarrow> (nat \<times> string) option" where
  "leadingInt x [] = Some (x, [])"
| "leadingInt x (c # cs) =
     (if \<not> is_digit c then Some (x, c # cs)
      else if x > 2 ^ 63 div 10 then None
      else let x = x * 10 + digit_val c in if x > 2 ^ 63 then None else leadingInt x cs)"

text \<open>\<^verbatim>\<open>leadingFraction\<close>: digits that do not fit are skipped.\<close>

fun leadingFraction :: "nat \<Rightarrow> rat \<Rightarrow> bool \<Rightarrow> string \<Rightarrow> nat \<times> rat \<times> string" where
  "leadingFraction x scale over [] = (x, scale, [])"
| "leadingFraction x scale over (c # cs) =
     (if \<not> is_digit c then (x, scale, c # cs)
      else if over \<or> x > (2 ^ 63 - 1) div 10 \<or> x * 10 + digit_val c > 2 ^ 63 then leadingFraction x scale True cs
      else leadingFraction (x * 10 + digit_val c) (fl (scale * 10)) False cs)"

definition unit_char :: "char \<Rightarrow> bool" where
  "unit_char c \<longleftrightarrow> \<not> (c = CHR ''.'' \<or> is_digit c)"

text \<open>One number with its unit, in nanoseconds, and the rest.\<close>

definition one_duration :: "string \<Rightarrow> (u64 \<times> string) option" where
  "one_duration s =
     (if s = [] \<or> unit_char (hd s) then None
      else case leadingInt 0 s of
        None \<Rightarrow> None
      | Some (v, t) \<Rightarrow>
         (let pre = (length t \<noteq> length s);
              (f, scale, post, t) = (if t \<noteq> [] \<and> hd t = CHR ''.''
                then case leadingFraction 0 1 False (tl t) of (f, scale, r) \<Rightarrow> (f, scale, length r \<noteq> length (tl t), r)
                else (0, 1, False, t));
              u = takeWhile unit_char t; t = dropWhile unit_char t
          in if \<not> pre \<and> \<not> post then None
             else if u = [] then None
             else case unitMap u of
               None \<Rightarrow> None
             | Some unit \<Rightarrow>
                if v > 2 ^ 63 div unit then None
                else let v = v * unit;
                         v = (if f > 0 then v + nat \<lfloor>fl (fl (of_nat f) * fl (of_nat unit / scale))\<rfloor> else v)
                     in if f > 0 \<and> v > 2 ^ 63 then None else Some (of_nat v, t)))"

lemma leadingInt_shorter: "leadingInt x s = Some (y, t) \<Longrightarrow> length t \<le> length s"
  by (induction x s rule: leadingInt.induct) (auto simp: Let_def split: if_splits)

lemma leadingFraction_shorter: "leadingFraction x sc ov s = (y, sc', t) \<Longrightarrow> length t \<le> length s"
  by (induction x sc ov s rule: leadingFraction.induct) (auto split: if_splits)

lemma one_duration_shorter: "one_duration s = Some (v, t) \<Longrightarrow> length t < length s"
proof -
  assume *: "one_duration s = Some (v, t)"
  then obtain x r where r: "leadingInt 0 s = Some (x, r)" by (auto simp: one_duration_def split: if_splits option.splits)
  obtain f sc r' where f: "leadingFraction 0 1 False (tl r) = (f, sc, r')" by (cases "leadingFraction 0 1 False (tl r)")
  let ?q = "if r \<noteq> [] \<and> hd r = CHR ''.'' then r' else r"
  have q: "length ?q \<le> length r" using leadingFraction_shorter [OF f] by auto
  have t: "t = dropWhile unit_char ?q" "takeWhile unit_char ?q \<noteq> []"
    using * r f by (auto simp: one_duration_def Let_def split: if_splits option.splits)
  have "length (takeWhile unit_char ?q) + length (dropWhile unit_char ?q) = length ?q"
    by (metis length_append takeWhile_dropWhile_id)
  moreover have "0 < length (takeWhile unit_char ?q)" using t(2) by (rule length_greater_0_conv [THEN iffD2])
  ultimately have "length t < length ?q" unfolding t(1) by linarith
  then show ?thesis using q leadingInt_shorter [OF r] by linarith
qed

text \<open>The loop; the sum is a 64-bit number.\<close>

function durations :: "u64 \<Rightarrow> string \<Rightarrow> u64 option" where
  "durations d s =
     (if s = [] then Some d
      else case one_duration s of
        None \<Rightarrow> None
      | Some (v, t) \<Rightarrow> if d + v > 2 ^ 63 then None else durations (d + v) t)"
  by pat_completeness auto
termination
  by (relation "measure (\<lambda>(d, s). length s)") (auto dest: one_duration_shorter)

declare durations.simps [simp del]

definition ParseDuration :: "string \<Rightarrow> int option" where
  "ParseDuration s0 =
     (case sign s0 of (neg, s) \<Rightarrow>
        if s = ''0'' then Some 0
        else if s = [] then None
        else case durations 0 s of
          None \<Rightarrow> None
        | Some d \<Rightarrow> if neg then Some (- uint d) else if d > 2 ^ 63 - 1 then None else Some (uint d))"

section \<open>Flags\<close>

datatype flag_value = FString string | FInt int | FDuration int

datatype flag_error = BadSyntax string | NotDefined string | NeedsArgument string | InvalidValue string string | ErrHelp

type_synonym flag_set = "(string \<times> flag_value) list"

text \<open>\<^verbatim>\<open>Value.Set\<close> for the three types of flags the tools have.\<close>

fun set_value :: "flag_value \<Rightarrow> string \<Rightarrow> flag_value option" where
  "set_value (FString x) s = Some (FString s)"
| "set_value (FInt i) s = map_option FInt (ParseInt0 s)"
| "set_value (FDuration i) s = map_option FDuration (ParseDuration s)"

text \<open>The name and the value of \<^verbatim>\<open>name=value\<close>; the equals sign cannot come first.\<close>

definition split_flag :: "string \<Rightarrow> string \<times> string option" where
  "split_flag s =
     (case s of
        [] \<Rightarrow> ([], None)
      | c # cs \<Rightarrow> (c # takeWhile (\<lambda>c. c \<noteq> CHR ''='') cs,
          case dropWhile (\<lambda>c. c \<noteq> CHR ''='') cs of [] \<Rightarrow> None | x # v \<Rightarrow> Some v))"

definition set_flag :: "string \<Rightarrow> string \<Rightarrow> flag_set \<Rightarrow> flag_error + flag_set" where
  "set_flag name v fs =
     (case map_of fs name of
        None \<Rightarrow> Inl (NotDefined name)
      | Some old \<Rightarrow>
         (case set_value old v of
            None \<Rightarrow> Inl (InvalidValue v name)
          | Some new \<Rightarrow> Inr (map (\<lambda>(n, x). if n = name then (n, new) else (n, x)) fs)))"

text \<open>\<^verbatim>\<open>FlagSet.parseOne\<close>: whether a flag was seen, the flags and the arguments that are left.\<close>

definition parseOne :: "flag_set \<Rightarrow> string list \<Rightarrow> flag_error + (bool \<times> flag_set \<times> string list)" where
  "parseOne fs args0 =
     (case args0 of
        [] \<Rightarrow> Inr (False, fs, [])
      | s # args \<Rightarrow>
         (if length s < 2 \<or> hd s \<noteq> CHR ''-'' then Inr (False, fs, args0)
          else if s = ''--'' then Inr (False, fs, args)
          else
           (let name = (if s ! 1 = CHR ''-'' then drop 2 s else drop 1 s) in
            if name = [] \<or> hd name = CHR ''-'' \<or> hd name = CHR ''='' then Inl (BadSyntax s)
            else
             (let (name, value) = split_flag name in
              if map_of fs name = None then Inl (if name = ''help'' \<or> name = ''h'' then ErrHelp else NotDefined name)
              else
               (case value of
                  Some v \<Rightarrow> map_sum id (\<lambda>fs. (True, fs, args)) (set_flag name v fs)
                | None \<Rightarrow>
                   (case args of
                      [] \<Rightarrow> Inl (NeedsArgument name)
                    | v # args \<Rightarrow> map_sum id (\<lambda>fs. (True, fs, args)) (set_flag name v fs)))))))"

lemma map_sum_Inr: "map_sum id g x = Inr y \<longleftrightarrow> (\<exists>z. x = Inr z \<and> y = g z)"
  by (cases x) auto

lemma parseOne_shorter: "parseOne fs args = Inr (True, fs', args') \<Longrightarrow> length args' < length args"
  by (cases args) (auto simp: parseOne_def Let_def map_sum_Inr split: if_splits prod.splits option.splits list.splits)

text \<open>\<^verbatim>\<open>FlagSet.Parse\<close>: the flags with their values, and the arguments that are left.\<close>

function parse_flags :: "flag_set \<Rightarrow> string list \<Rightarrow> flag_error + (flag_set \<times> string list)" where
  "parse_flags fs args =
     (case parseOne fs args of
        Inl e \<Rightarrow> Inl e
      | Inr (seen, fs', args') \<Rightarrow> if seen then parse_flags fs' args' else Inr (fs', args'))"
  by pat_completeness auto
termination by (relation "measure (\<lambda>(fs, args). length args)") (auto dest: parseOne_shorter)

declare parse_flags.simps [simp del]

section \<open>Reading numbers back\<close>

lemma is_digit_range: "is_digit c \<Longrightarrow> c \<noteq> CHR ''_'' \<and> c \<noteq> CHR ''+'' \<and> c \<noteq> CHR ''-'' \<and> c \<noteq> CHR ''.''"
  by (auto simp: is_digit_def)

lemma itoa_hd: "is_digit (hd (itoa n))" and itoa_hd_nonzero: "0 < n \<Longrightarrow> hd (itoa n) \<noteq> CHR ''0''"
proof -
  show "is_digit (hd (itoa n))" using itoa_digits [of n] by (cases "itoa n") simp_all
  show "0 < n \<Longrightarrow> hd (itoa n) \<noteq> CHR ''0''"
  proof (induction n rule: itoa.induct)
    case (1 n)
    show ?case
    proof (cases "n < 10")
      case True
      have "digit_char n \<noteq> digit_char 0" using 1(2) True by (auto dest: arg_cong [where f = digit_val])
      then show ?thesis using True by (simp add: itoa.simps [of n] digit_char_0)
    next
      case False
      then show ?thesis using 1 by (simp add: itoa.simps [of n])
    qed
  qed
qed

lemma number_digits: "list_all is_digit ds \<Longrightarrow> number 10 n ds = Some (foldl (\<lambda>n c. n * 10 + digit_val c) n ds)"
  by (induction ds arbitrary: n) (auto simp: digit_of_def is_digit_range dest: digit_val_less)

lemma ParseUint0_itoa: "n < 2 ^ 64 \<Longrightarrow> ParseUint0 (itoa n) = Some n"
proof (cases "n = 0")
  case True
  then show ?thesis by (simp add: itoa.simps digit_char_0 ParseUint0_def base_prefix_def)
next
  case False
  obtain c cs where s: "itoa n = c # cs" by (cases "itoa n") simp_all
  have "c \<noteq> CHR ''0''" using itoa_hd_nonzero [of n] False s by simp
  then have b: "base_prefix (itoa n) = (10, itoa n)" by (simp add: base_prefix_def s)
  have "number 10 0 (itoa n) = Some n"
    using number_digits [OF itoa_digits, of 0 n] decimal_itoa [of n] by (simp add: decimal_def)
  moreover have "CHR ''_'' \<notin> set (itoa n)" using itoa_digits [of n] is_digit_range by (auto simp: list_all_iff)
  moreover assume "n < 2 ^ 64"
  ultimately show ?thesis by (simp add: ParseUint0_def b)
qed

definition show_int :: "int \<Rightarrow> string" where
  "show_int i = (if i < 0 then CHR ''-'' # itoa (nat (- i)) else itoa (nat i))"

lemma sign_number: "sign (itoa n @ u) = (False, itoa n @ u)" "sign (CHR ''-'' # s) = (True, s)"
proof -
  obtain c cs where s: "itoa n = c # cs" by (cases "itoa n") simp_all
  then show "sign (itoa n @ u) = (False, itoa n @ u)" using itoa_hd [of n] is_digit_range [of c] by (simp add: sign_def)
qed (simp add: sign_def)

lemma ParseInt0_show:
  assumes "- (2 ^ 63) \<le> i" and "i < 2 ^ 63"
  shows "ParseInt0 (show_int i) = Some i"
proof -
  have "nat (- i) \<le> 2 ^ 63" "nat i < 2 ^ 63" using assms by auto
  then show ?thesis
    using ParseUint0_itoa [of "nat i"] ParseUint0_itoa [of "nat (- i)"] sign_number(1) [of _ "[]"]
    by (auto simp: ParseInt0_def show_int_def sign_number(2))
qed

lemma foldl_digits_mono: "x \<le> foldl (\<lambda>n c. n * 10 + digit_val c) x ds"
proof (induction ds arbitrary: x)
  case (Cons c ds)
  have "x \<le> x * 10 + digit_val c" by simp
  then show ?case using Cons [of "x * 10 + digit_val c"] by simp
qed simp

lemma leadingInt_digits:
  assumes "list_all is_digit ds" and "foldl (\<lambda>n c. n * 10 + digit_val c) x ds \<le> 2 ^ 63" and "u = [] \<or> \<not> is_digit (hd u)"
  shows "leadingInt x (ds @ u) = Some (foldl (\<lambda>n c. n * 10 + digit_val c) x ds, u)"
  using assms
proof (induction ds arbitrary: x)
  case Nil
  then show ?case by (cases u) simp_all
next
  case (Cons c ds)
  have "x * 10 + digit_val c \<le> 2 ^ 63"
    using foldl_digits_mono [of "x * 10 + digit_val c" ds] Cons.prems(2) by simp
  then show ?case using Cons by simp
qed

text \<open>A number with a unit is read exactly, as long as it fits.\<close>

lemma one_duration_unit:
  assumes u: "unitMap u = Some k" "u \<noteq> []" "list_all unit_char u" "0 < k" and n: "n * k \<le> 2 ^ 63"
  shows "one_duration (itoa n @ u) = Some (of_nat (n * k), [])"
proof -
  have "n * 1 \<le> n * k" using u(4) by (intro mult_le_mono2) simp
  then have "n \<le> 2 ^ 63" using n by linarith
  moreover have "\<not> is_digit (hd u)" "hd u \<noteq> CHR ''.''" using u(2,3) by (cases u; simp add: unit_char_def)+
  ultimately have lead: "leadingInt 0 (itoa n @ u) = Some (n, u)"
    using leadingInt_digits [OF itoa_digits, of 0 n u] decimal_itoa [of n] by (simp add: decimal_def)
  have start: "\<not> unit_char (hd (itoa n @ u))" using itoa_hd [of n] by (simp add: unit_char_def hd_append)
  have tw: "takeWhile unit_char u = u" "dropWhile unit_char u = []"
    using u(3) by (simp_all add: takeWhile_eq_all_conv dropWhile_eq_Nil_conv list_all_iff)
  have "n \<le> 2 ^ 63 div k" using n u(4) by (simp only: less_eq_div_iff_mult_less_eq)
  then show ?thesis using u(1,2) \<open>hd u \<noteq> CHR ''.''\<close> start by (simp add: one_duration_def Let_def lead tw)
qed

lemma durations_one:
  assumes "one_duration s = Some (of_nat v, [])" and "s \<noteq> []" and "v \<le> 2 ^ 63"
  shows "durations 0 s = Some (of_nat v)"
proof -
  have "unat (of_nat v :: u64) = v" using assms(3) by (simp add: unsigned_of_nat take_bit_nat_eq_self)
  then have "\<not> (of_nat v :: u64) > 2 ^ 63" using assms(3) by (simp add: word_less_nat_alt)
  then show ?thesis using assms(1,2) by (simp add: durations.simps [of 0 s] durations.simps [of _ "[]"])
qed

lemma ParseDuration_unit:
  assumes u: "unitMap u = Some k" "u \<noteq> []" "list_all unit_char u" "0 < k"
    and n: "n * k < 2 ^ 63 \<or> neg \<and> n * k = 2 ^ 63"
  shows "ParseDuration ((if neg then ''-'' else []) @ itoa n @ u) = Some (if neg then - int (n * k) else int (n * k))"
proof -
  let ?s = "itoa n @ u"
  have le: "n * k \<le> 2 ^ 63" using n by auto
  have v: "uint (of_nat (n * k) :: u64) = int (n * k)"
    using le by (simp add: unsigned_of_nat take_bit_nat_eq_self del: of_nat_mult)
  have d: "durations 0 ?s = Some (of_nat (n * k))" by (rule durations_one [OF one_duration_unit [OF u le] _ le]) simp
  have "?s \<noteq> ''0''" using u(2) itoa_not_Nil [of n] by (cases "itoa n"; cases u) auto
  moreover have "sign ((if neg then ''-'' else []) @ ?s) = (neg, ?s)" using sign_number by simp
  moreover have "\<not> (of_nat (n * k) :: u64) > 2 ^ 63 - 1" if "\<not> neg"
    using n that v by (simp add: word_less_def del: of_nat_mult)
  ultimately show ?thesis using d v by (simp add: ParseDuration_def del: of_nat_mult)
qed

lemma ParseDuration_show:
  assumes "- (2 ^ 63) \<le> i" and "i < 2 ^ 63"
  shows "ParseDuration (show_int i @ ''ns'') = Some i"
proof -
  have u: "unitMap ''ns'' = Some 1" "list_all unit_char ''ns''" by (simp_all add: unitMap_def unit_char_def is_digit_def)
  show ?thesis
  proof (cases "i < 0")
    case True
    then have "nat (- i) * 1 < 2 ^ 63 \<or> True \<and> nat (- i) * 1 = 2 ^ 63" using assms by auto
    from ParseDuration_unit [OF u(1) _ u(2) _ this] True show ?thesis by (simp add: show_int_def)
  next
    case False
    then have "nat i * 1 < 2 ^ 63 \<or> False \<and> nat i * 1 = 2 ^ 63" using assms by auto
    from ParseDuration_unit [OF u(1) _ u(2) _ this] False show ?thesis by (simp add: show_int_def)
  qed
qed

section \<open>Command lines\<close>

text \<open>A flag with its value as one argument.\<close>

fun show_value :: "flag_value \<Rightarrow> string" where
  "show_value (FString s) = s"
| "show_value (FInt i) = show_int i"
| "show_value (FDuration i) = show_int i @ ''ns''"

fun flag_arg :: "string \<times> flag_value \<Rightarrow> string" where
  "flag_arg (n, v) = CHR ''-'' # n @ CHR ''='' # show_value v"

fun same_kind :: "flag_value \<Rightarrow> flag_value \<Rightarrow> bool" where
  "same_kind (FString a) (FString b) \<longleftrightarrow> True"
| "same_kind (FInt a) (FInt b) \<longleftrightarrow> - (2 ^ 63) \<le> b \<and> b < 2 ^ 63"
| "same_kind (FDuration a) (FDuration b) \<longleftrightarrow> - (2 ^ 63) \<le> b \<and> b < 2 ^ 63"
| "same_kind _ _ \<longleftrightarrow> False"

definition name_ok :: "string \<Rightarrow> bool" where
  "name_ok n \<longleftrightarrow> n \<noteq> [] \<and> hd n \<noteq> CHR ''-'' \<and> CHR ''='' \<notin> set n"

definition put_flag :: "string \<Rightarrow> flag_value \<Rightarrow> flag_set \<Rightarrow> flag_set" where
  "put_flag name v fs = map (\<lambda>(n, x). if n = name then (n, v) else (n, x)) fs"

lemma set_value_show: "same_kind old v \<Longrightarrow> set_value old (show_value v) = Some v"
  by (cases old; cases v) (simp_all add: ParseInt0_show ParseDuration_show)

lemma parseOne_flag:
  assumes "name_ok n" and "map_of fs n = Some old" and "same_kind old v"
  shows "parseOne fs (flag_arg (n, v) # args) = Inr (True, put_flag n v fs, args)"
proof -
  obtain c cs where n: "n = c # cs" "c \<noteq> CHR ''-''" "c \<noteq> CHR ''=''" "CHR ''='' \<notin> set cs"
    using assms(1) by (cases n) (auto simp: name_ok_def)
  have tw: "takeWhile (\<lambda>c. c \<noteq> CHR ''='') (cs @ CHR ''='' # v) = cs"
    "dropWhile (\<lambda>c. c \<noteq> CHR ''='') (cs @ CHR ''='' # v) = CHR ''='' # v" for v
    using n(4) by (induction cs) auto
  have "split_flag (n @ CHR ''='' # show_value v) = (n, Some (show_value v))"
    by (simp add: split_flag_def n(1) tw)
  moreover have "set_flag n (show_value v) fs = Inr (put_flag n v fs)"
    using assms(2,3) by (simp add: set_flag_def set_value_show put_flag_def)
  ultimately show ?thesis using n(1-3) assms(2) by (simp add: parseOne_def Let_def)
qed

lemma map_of_put: "map_of (put_flag n v fs) m = (if m = n \<and> map_of fs m \<noteq> None then Some v else map_of fs m)"
  by (induction fs) (auto simp: put_flag_def)

lemma same_kind_trans: "same_kind a b \<Longrightarrow> same_kind a c \<Longrightarrow> same_kind b c"
  by (cases a; cases b; cases c) simp_all

lemma parse_flags_args:
  assumes "list_all (\<lambda>(n, v). name_ok n \<and> (\<exists>old. map_of fs n = Some old \<and> same_kind old v)) vs"
    and "parseOne (fold (\<lambda>(n, v). put_flag n v) vs fs) rest = Inr (False, fold (\<lambda>(n, v). put_flag n v) vs fs, left)"
  shows "parse_flags fs (map flag_arg vs @ rest) = Inr (fold (\<lambda>(n, v). put_flag n v) vs fs, left)"
  using assms
proof (induction vs arbitrary: fs)
  case Nil
  then show ?case by (simp add: parse_flags.simps)
next
  case (Cons nv vs)
  obtain n v where nv: "nv = (n, v)" by (cases nv)
  obtain old where old: "name_ok n" "map_of fs n = Some old" "same_kind old v" using Cons.prems(1) nv by auto
  have "name_ok m \<and> (\<exists>old. map_of (put_flag n v fs) m = Some old \<and> same_kind old w)" if mw: "(m, w) \<in> set vs" for m w
  proof -
    obtain old' where "name_ok m" "map_of fs m = Some old'" "same_kind old' w"
      using Cons.prems(1) mw by (auto simp: list_all_iff)
    then show ?thesis using old same_kind_trans [of old v w] by (cases "m = n") (simp_all add: map_of_put)
  qed
  then have "list_all (\<lambda>(m, w). name_ok m \<and> (\<exists>old. map_of (put_flag n v fs) m = Some old \<and> same_kind old w)) vs"
    by (auto simp: list_all_iff)
  then have "parse_flags (put_flag n v fs) (map flag_arg vs @ rest) = Inr (fold (\<lambda>(n, v). put_flag n v) vs (put_flag n v fs), left)"
    using Cons.prems(2) nv by (intro Cons.IH) simp_all
  then show ?case
    using parseOne_flag [OF old, of "map flag_arg vs @ rest"] by (simp add: parse_flags.simps [of fs] nv del: flag_arg.simps)
qed

lemma fold_put_names: "map fst (fold (\<lambda>(n, v). put_flag n v) vs fs) = map fst fs"
  by (induction vs arbitrary: fs) (auto simp: put_flag_def comp_def split_beta intro!: map_cong)

lemma map_of_fold_put:
  assumes "distinct (map fst vs)" and "map_of fs m \<noteq> None"
  shows "map_of (fold (\<lambda>(n, v). put_flag n v) vs fs) m = (case map_of vs m of None \<Rightarrow> map_of fs m | Some v \<Rightarrow> Some v)"
  using assms
proof (induction vs arbitrary: fs)
  case (Cons nv vs)
  obtain n v where nv: "nv = (n, v)" by (cases nv)
  have "map_of (put_flag n v fs) m \<noteq> None" using Cons.prems(2) by (simp add: map_of_put)
  moreover have "m = n \<Longrightarrow> map_of vs m = None" using Cons.prems(1) nv by (auto simp: map_of_eq_None_iff)
  ultimately show ?case using Cons nv by (auto simp: map_of_put split: option.splits)
qed simp

lemma map_of_distinct_eq:
  assumes "map fst xs = map fst ys" and "distinct (map fst ys)" and "\<And>k. k \<in> fst ` set ys \<Longrightarrow> map_of xs k = map_of ys k"
  shows "xs = ys"
proof (rule nth_equalityI)
  show len: "length xs = length ys" using assms(1) by (metis length_map)
  fix i
  assume i: "i < length xs"
  have f: "fst (xs ! i) = fst (ys ! i)" using assms(1) i len by (metis nth_map)
  have "map_of xs (fst (xs ! i)) = Some (snd (xs ! i))" "map_of ys (fst (ys ! i)) = Some (snd (ys ! i))"
    using assms(1,2) i len by (auto intro!: map_of_is_SomeI)
  moreover have "map_of xs (fst (ys ! i)) = map_of ys (fst (ys ! i))" using assms(3) i len by simp
  ultimately show "xs ! i = ys ! i" using f by (metis option.inject prod.expand)
qed

text \<open>Whatever values a tool's flags are to have, there is a command line that gives them exactly these.\<close>

lemma flags_roundtrip:
  assumes "distinct (map fst fs)" and "list_all2 (\<lambda>(n, old) (m, v). n = m \<and> name_ok n \<and> same_kind old v) fs vs"
  shows "parse_flags fs (map flag_arg vs) = Inr (vs, [])" and "parse_flags fs (map flag_arg vs @ ''--'' # rest) = Inr (vs, rest)"
proof -
  have names: "map fst vs = map fst fs"
    using assms(2) by (induction rule: list_all2_induct) auto
  have kind: "name_ok n \<and> (\<exists>old. map_of fs n = Some old \<and> same_kind old v)" if nv: "(n, v) \<in> set vs" for n v
  proof -
    obtain i where i: "i < length vs" "vs ! i = (n, v)" using nv by (auto simp: in_set_conv_nth)
    obtain old where old: "fs ! i = (n, old)" "name_ok n" "same_kind old v"
      using list_all2_nthD2 [OF assms(2) i(1)] i(2) by (cases "fs ! i") auto
    have "i < length fs" using i(1) list_all2_lengthD [OF assms(2)] by simp
    then have "(n, old) \<in> set fs" using old(1) nth_mem by metis
    then show ?thesis using old assms(1) by auto
  qed
  let ?f = "fold (\<lambda>(n, v). put_flag n v) vs fs"
  have eq: "?f = vs"
  proof (rule map_of_distinct_eq)
    show "map fst ?f = map fst vs" by (simp add: fold_put_names names)
    show "distinct (map fst vs)" using assms(1) names by simp
    fix k
    assume "k \<in> fst ` set vs"
    then obtain v where v: "(k, v) \<in> set vs" by auto
    then have "map_of vs k = Some v" using \<open>distinct (map fst vs)\<close> by simp
    moreover obtain old where "map_of fs k = Some old" using kind [OF v] by blast
    ultimately show "map_of ?f k = map_of vs k" using map_of_fold_put [of vs fs k] \<open>distinct (map fst vs)\<close> by simp
  qed
  have "list_all (\<lambda>(n, v). name_ok n \<and> (\<exists>old. map_of fs n = Some old \<and> same_kind old v)) vs"
    using kind by (auto simp: list_all_iff)
  from parse_flags_args [OF this, of "[]" "[]"] parse_flags_args [OF this, of "''--'' # rest" rest]
  show "parse_flags fs (map flag_arg vs) = Inr (vs, [])" "parse_flags fs (map flag_arg vs @ ''--'' # rest) = Inr (vs, rest)"
    by (simp_all add: parseOne_def eq)
qed

end
