(* ===== verification/Conn.thy ===== *)
theory Conn
  imports Config
begin

unbundle bit_operations_syntax

text \<open>
  The network of the tools. Raw IPv4 sockets on their sending side, and stream connections (Go's \<^verbatim>\<open>net.Conn\<close>) as the tools of the repository use them: \<^verbatim>\<open>io.ReadFull\<close>, the write
  loop of \<^verbatim>\<open>nic.write\<close> (\<^verbatim>\<open>interop/lanrelay/main.go\<close>) and \<^verbatim>\<open>nic.frame\<close> (\<^verbatim>\<open>interop/vmcheck/main.go\<close>), and
  frames with a 32-bit length in front. The locale \<open>framing\<close> is the contract between a frame writer
  and a frame reader at the two ends of a stream.
\<close>

section \<open>Connections\<close>

text \<open>Errors of package \<^verbatim>\<open>io\<close>, errors of the network (an opaque number), and the refusal of a frame
  length.\<close>

datatype io_error =
    EOF
  | ErrUnexpectedEOF
  | ErrShortWrite
  | ErrShortBuffer
  | ENOBUFS
  | EAGAIN
  | NetErr nat
  | InvalidLength u32

text \<open>\<open>c_in\<close> are the bytes still to be read, \<open>c_fin\<close> what a read returns after them, \<open>c_out\<close> the bytes the
  network has taken. What the \<open>i\<close>-th operation returns is up to the network: \<open>c_write\<close> the count and
  error of a write, \<open>c_deadline\<close> the error of setting a deadline.\<close>

record conn =
  c_in :: bytes
  c_fin :: io_error
  c_out :: bytes
  c_calls :: nat
  c_write :: "nat \<Rightarrow> nat \<times> io_error option"
  c_deadline :: "nat \<Rightarrow> io_error option"

text \<open>\<^verbatim>\<open>io.ReadFull\<close>: all \<open>n\<close> bytes, or an error; an end of file in the middle is unexpected.\<close>

definition ReadFull :: "nat \<Rightarrow> conn \<Rightarrow> (io_error + bytes) \<times> conn" where
  "ReadFull n c =
     (if n \<le> length (c_in c) then (Inr (take n (c_in c)), c\<lparr>c_in := drop n (c_in c)\<rparr>)
      else (Inl (if c_in c \<noteq> [] \<and> c_fin c = EOF then ErrUnexpectedEOF else c_fin c), c\<lparr>c_in := []\<rparr>))"

text \<open>One \<^verbatim>\<open>Write\<close> takes at most the bytes it is given.\<close>

definition conn_write :: "bytes \<Rightarrow> conn \<Rightarrow> nat \<times> io_error option \<times> conn" where
  "conn_write b c =
     (case c_write c (c_calls c) of (n, err) \<Rightarrow>
        let count = min n (length b) in
        (count, err, c\<lparr>c_out := c_out c @ take count b, c_calls := Suc (c_calls c)\<rparr>))"

text \<open>\<^verbatim>\<open>SetWriteDeadline\<close> and its relatives.\<close>

definition set_deadline :: "conn \<Rightarrow> io_error option \<times> conn" where
  "set_deadline c = (c_deadline c (c_calls c), c\<lparr>c_calls := Suc (c_calls c)\<rparr>)"

text \<open>The loop of \<^verbatim>\<open>nic.write\<close> and \<^verbatim>\<open>nic.frame\<close>: write what is left until nothing is, an error comes, or a
  write makes no progress.\<close>

function write_loop :: "bytes \<Rightarrow> conn \<Rightarrow> io_error option \<times> conn" where
  "write_loop b c =
     (if b = [] then (None, c)
      else case conn_write b c of (count, err, c') \<Rightarrow>
        (case err of
           Some e \<Rightarrow> (Some e, c')
         | None \<Rightarrow> if count = 0 then (Some ErrShortWrite, c') else write_loop (drop count b) c'))"
  by pat_completeness auto
termination by (relation "measure (\<lambda>(b, c). length b)") auto

declare write_loop.simps [simp del]

definition length_prefixed :: "bytes \<Rightarrow> bytes" where
  "length_prefixed f =
     (let b = replicate (4 + length f) 0;
          b = put_at 0 (PutUint32 (of_nat (length f))) b
      in put_at 4 f b)"

text \<open>Reading a frame: the length, its check, the body.\<close>

definition read_sized :: "u32 \<Rightarrow> u32 \<Rightarrow> conn \<Rightarrow> (io_error + bytes) \<times> conn" where
  "read_sized lo hi c =
     (case ReadFull 4 c of
        (Inl e, c) \<Rightarrow> (Inl e, c)
      | (Inr head, c) \<Rightarrow>
          let size = Uint32 head in
          if size < lo \<or> size > hi then (Inl (InvalidLength size), c) else ReadFull (unat size) c)"

section \<open>Raw sockets\<close>

text \<open>A raw IPv4 socket (\<^verbatim>\<open>net.IPConn\<close>) on the sending side: the value of its option \<^verbatim>\<open>IP_TOS\<close>, and the
  datagrams given to the network, each with its destination and the class in force when it was sent.
  What the \<open>i\<close>-th system call returns is up to the system.\<close>

record raw =
  rw_tos :: int
  rw_sent :: "(bytes \<times> netip \<times> int) list"
  rw_calls :: nat
  rw_syscall :: "nat \<Rightarrow> io_error option"
  rw_write :: "nat \<Rightarrow> nat \<times> io_error option"

text \<open>A call that returns only an error.\<close>

definition raw_call :: "raw \<Rightarrow> io_error option \<times> raw" where
  "raw_call r = (rw_syscall r (rw_calls r), r\<lparr>rw_calls := Suc (rw_calls r)\<rparr>)"

text \<open>\<^verbatim>\<open>setsockopt(IP_TOS)\<close>, which takes effect when it succeeds.\<close>

definition set_tos :: "int \<Rightarrow> raw \<Rightarrow> io_error option \<times> raw" where
  "set_tos tos r =
     (case raw_call r of (None, r') \<Rightarrow> (None, r'\<lparr>rw_tos := tos\<rparr>) | (Some e, r') \<Rightarrow> (Some e, r'))"

text \<open>\<^verbatim>\<open>WriteToIP\<close>: one datagram, or an error and none; the count it returns is the system's.\<close>

definition WriteToIP :: "bytes \<Rightarrow> netip \<Rightarrow> raw \<Rightarrow> (io_error + nat) \<times> raw" where
  "WriteToIP p dst r =
     (case rw_write r (rw_calls r) of
        (n, None) \<Rightarrow> (Inr (min n (length p)), r\<lparr>rw_calls := Suc (rw_calls r),
           rw_sent := rw_sent r @ [(take n p, dst, rw_tos r)]\<rparr>)
      | (n, Some e) \<Rightarrow> (Inl e, r\<lparr>rw_calls := Suc (rw_calls r)\<rparr>))"

section \<open>Writing\<close>

lemma length_prefixed_eq: "length_prefixed f = PutUint32 (of_nat (length f)) @ f"
  by (simp add: length_prefixed_def put_at_def)

lemma write_loop_bytes:
  "write_loop b c = (r, c') \<Longrightarrow>
   \<exists>k n. k \<le> length b \<and> n \<le> length b \<and> c' = c\<lparr>c_out := c_out c @ take k b, c_calls := c_calls c + n\<rparr> \<and>
     (r = None \<longrightarrow> k = length b)"
proof (induction b c arbitrary: r c' rule: write_loop.induct)
  case (1 b c)
  show ?case
  proof (cases "b = []")
    case True
    then show ?thesis using 1(2) by (intro exI [of _ 0]) (simp add: write_loop.simps)
  next
    case False
    obtain count err d where w: "conn_write b c = (count, err, d)" by (cases "conn_write b c")
    then have d: "d = c\<lparr>c_out := c_out c @ take count b, c_calls := Suc (c_calls c)\<rparr>" "count \<le> length b"
      by (auto simp: conn_write_def Let_def split: prod.splits)
    show ?thesis
    proof (cases "err = None \<and> 0 < count")
      case False
      then have "c' = d" "r \<noteq> None" using 1(2) \<open>b \<noteq> []\<close> w
        by (auto simp: write_loop.simps [of b c] split: option.splits if_splits)
      then show ?thesis using d \<open>b \<noteq> []\<close> by (intro exI [of _ count] exI [of _ 1]) (auto simp: Suc_le_eq)
    next
      case True
      then have "write_loop (drop count b) d = (r, c')" using 1(2) \<open>b \<noteq> []\<close> w by (simp add: write_loop.simps [of b c])
      with 1(1) [OF \<open>b \<noteq> []\<close> w [symmetric] refl] True obtain k n where kn: "k \<le> length (drop count b)"
        "n \<le> length (drop count b)" "c' = d\<lparr>c_out := c_out d @ take k (drop count b), c_calls := c_calls d + n\<rparr>"
        "r = None \<longrightarrow> k = length (drop count b)" by blast
      then show ?thesis using d True
        by (intro exI [of _ "count + k"] exI [of _ "Suc n"]) (auto simp: take_add)
    qed
  qed
qed

text \<open>A connection whose writes all succeed and make progress takes the whole frame.\<close>

lemma write_loop_succeeds:
  "(\<And>i. \<exists>n. c_write c i = (Suc n, None)) \<Longrightarrow> fst (write_loop b c) = None"
proof (induction b c rule: write_loop.induct)
  case (1 b c)
  obtain n where n: "c_write c (c_calls c) = (Suc n, None)" using 1(2) by blast
  let ?d = "c\<lparr>c_out := c_out c @ take (min (Suc n) (length b)) b, c_calls := Suc (c_calls c)\<rparr>"
  show ?case
  proof (cases "b = []")
    case False
    then have w: "conn_write b c = (min (Suc n) (length b), None, ?d)" "min (Suc n) (length b) \<noteq> 0"
      using n by (simp_all add: conn_write_def Let_def)
    have "fst (write_loop (drop (min (Suc n) (length b)) b) ?d) = None"
      using 1(1) [OF False w(1) [symmetric] refl refl w(2)] 1(2) by simp
    then show ?thesis using False w by (simp add: write_loop.simps [of b c])
  qed (simp add: write_loop.simps)
qed

section \<open>Framing\<close>

text \<open>\<open>read_many dec n\<close> reads \<open>n\<close> frames, and stops at the first error.\<close>

fun read_many :: "(conn \<Rightarrow> (io_error + bytes) \<times> conn) \<Rightarrow> nat \<Rightarrow> conn \<Rightarrow> (io_error + bytes list) \<times> conn" where
  "read_many dec 0 c = (Inr [], c)"
| "read_many dec (Suc n) c =
     (case dec c of
        (Inl e, c) \<Rightarrow> (Inl e, c)
      | (Inr f, c) \<Rightarrow>
          (case read_many dec n c of (Inl e, c) \<Rightarrow> (Inl e, c) | (Inr fs, c) \<Rightarrow> (Inr (f # fs), c)))"

locale framing =
  fixes enc :: "bytes \<Rightarrow> bytes" and dec :: "conn \<Rightarrow> (io_error + bytes) \<times> conn" and ok :: "bytes \<Rightarrow> bool"
  assumes dec_enc: "ok f \<Longrightarrow> c_in c = enc f @ rest \<Longrightarrow> dec c = (Inr f, c\<lparr>c_in := rest\<rparr>)"
    and dec_cut: "ok f \<Longrightarrow> k < length (enc f) \<Longrightarrow> c_in c = take k (enc f) \<Longrightarrow>
      (\<exists>e. dec c = (Inl e, c\<lparr>c_in := []\<rparr>))"
begin

lemma enc_inject:
  assumes "ok f" and "ok g" and "enc f = enc g"
  shows "f = g"
  using dec_enc [OF assms(1), of "undefined\<lparr>c_in := enc f\<rparr>" "[]"] dec_enc [OF assms(2), of "undefined\<lparr>c_in := enc f\<rparr>" "[]"]
  by (simp add: assms(3))

text \<open>A stream of frames is read back frame by frame, whatever follows it.\<close>

lemma read_many_enc:
  "list_all ok fs \<Longrightarrow> c_in c = concat (map enc fs) @ rest \<Longrightarrow>
   read_many dec (length fs) c = (Inr fs, c\<lparr>c_in := rest\<rparr>)"
proof (induction fs arbitrary: c)
  case (Cons f fs)
  have "dec c = (Inr f, c\<lparr>c_in := concat (map enc fs) @ rest\<rparr>)"
    by (rule dec_enc) (use Cons.prems in simp_all)
  then show ?case using Cons by simp
qed simp

text \<open>A stream that breaks off inside a frame yields the frames before it and then an error, never a
  frame that was not sent.\<close>

lemma read_many_cut:
  assumes "list_all ok fs" and "ok f" and "k < length (enc f)" and "c_in c = concat (map enc fs) @ take k (enc f)"
  shows "read_many dec (length fs) c = (Inr fs, c\<lparr>c_in := take k (enc f)\<rparr>)"
    and "\<exists>e. dec (c\<lparr>c_in := take k (enc f)\<rparr>) = (Inl e, c\<lparr>c_in := []\<rparr>)"
  using read_many_enc [OF assms(1,4)] dec_cut [OF assms(2,3), of "c\<lparr>c_in := take k (enc f)\<rparr>"] by simp_all

end

lemma read_sized_framing:
  assumes "lo \<le> of_nat (length f)" and "of_nat (length f) \<le> hi" and "length f < 2 ^ 32"
  shows "c_in c = length_prefixed f @ rest \<Longrightarrow> read_sized lo hi c = (Inr f, c\<lparr>c_in := rest\<rparr>)"
    and "k < length (length_prefixed f) \<Longrightarrow> c_in c = take k (length_prefixed f) \<Longrightarrow>
      \<exists>e. read_sized lo hi c = (Inl e, c\<lparr>c_in := []\<rparr>)"
proof -
  have n: "unat (of_nat (length f) :: u32) = length f" using assms(3) by (simp add: unsigned_of_nat take_bit_nat_eq_self)
  show "c_in c = length_prefixed f @ rest \<Longrightarrow> read_sized lo hi c = (Inr f, c\<lparr>c_in := rest\<rparr>)"
    using assms n by (simp add: read_sized_def ReadFull_def Let_def not_less length_prefixed_eq)
  show "\<exists>e. read_sized lo hi c = (Inl e, c\<lparr>c_in := []\<rparr>)"
    if k: "k < length (length_prefixed f)" and c: "c_in c = take k (length_prefixed f)"
  proof (cases "k < 4")
    case True
    then show ?thesis using k c by (simp add: read_sized_def ReadFull_def Let_def not_less length_prefixed_eq)
  next
    case False
    then obtain j where "k = 4 + j" using le_Suc_ex [of 4 k] by auto
    then show ?thesis using k c n assms by (simp add: read_sized_def ReadFull_def Let_def not_less length_prefixed_eq take_add)
  qed
qed

text \<open>Ethernet frames on the connection to QEMU.\<close>

definition frame_ok :: "bytes \<Rightarrow> bool" where
  "frame_ok f \<longleftrightarrow> 14 \<le> length f \<and> length f \<le> 65549"

lemma ethernet_framing: "framing length_prefixed (read_sized 14 (65535 + 14)) frame_ok"
proof
  fix f c rest
  assume "frame_ok f"
  then have *: "14 \<le> (of_nat (length f) :: u32)" "(of_nat (length f) :: u32) \<le> 65535 + 14" "length f < 2 ^ 32"
    by (simp_all add: frame_ok_def word_le_nat_alt unsigned_of_nat take_bit_nat_eq_self)
  show "c_in c = length_prefixed f @ rest \<Longrightarrow> read_sized 14 (65535 + 14) c = (Inr f, c\<lparr>c_in := rest\<rparr>)"
    by (rule read_sized_framing(1) [OF *])
  show "k < length (length_prefixed f) \<Longrightarrow> c_in c = take k (length_prefixed f) \<Longrightarrow>
      \<exists>e. read_sized 14 (65535 + 14) c = (Inl e, c\<lparr>c_in := []\<rparr>)" for k
    by (rule read_sized_framing(2) [OF *])
qed

lemma read_sized_Inr:
  assumes "read_sized lo hi c = (Inr f, c')"
  shows "c_in c = length_prefixed f @ c_in c'" and "c_out c' = c_out c" and "lo \<le> of_nat (length f)"
proof -
  obtain d head where 4: "ReadFull 4 c = (Inr head, d)" using assms by (auto simp: read_sized_def split: prod.splits sum.splits)
  then have r: "ReadFull (unat (Uint32 head)) d = (Inr f, c')" "lo \<le> Uint32 head"
    using assms by (auto simp: read_sized_def Let_def split: if_splits)
  have h: "length head = 4" "c_in c = head @ c_in d" "c_out d = c_out c"
    using 4 by (auto simp: ReadFull_def split: if_splits)
  have f: "length f = unat (Uint32 head)" "c_in d = f @ c_in c'" "c_out c' = c_out d"
    using r(1) by (auto simp: ReadFull_def split: if_splits)
  show "c_in c = length_prefixed f @ c_in c'" "c_out c' = c_out c" "lo \<le> of_nat (length f)"
    using h f r(2) by (simp_all add: length_prefixed_eq PutUint32_Uint32)
qed

section \<open>Sending datagrams\<close>

lemma raw_call_fields:
  "raw_call w = (r, w') \<Longrightarrow> rw_sent w' = rw_sent w \<and> rw_tos w' = rw_tos w"
  "set_tos t w = (r, w') \<Longrightarrow> rw_sent w' = rw_sent w \<and> (r = None \<longrightarrow> rw_tos w' = t)"
  by (auto simp: raw_call_def set_tos_def split: option.splits)

lemma WriteToIP_cases:
  "WriteToIP p dst w = (Inl e, w') \<Longrightarrow> rw_sent w' = rw_sent w"
  "WriteToIP p dst w = (Inr n, w') \<Longrightarrow> n = length p \<Longrightarrow> rw_sent w' = rw_sent w @ [(p, dst, rw_tos w)]"
  by (auto simp: WriteToIP_def split: prod.splits option.splits)

end
