(* ===== verification/PacketIO.thy ===== *)
theory PacketIO
  imports Endpoint_Steps Conn Address
begin

unbundle bit_operations_syntax

text \<open>
  The interface \<^verbatim>\<open>PacketIO\<close> of \<^verbatim>\<open>api.go\<close> between the endpoint and the network, as a contract, and its first
  implementation, the raw IPv4 socket of \<^verbatim>\<open>rawip.go\<close>, with \<^verbatim>\<open>Listen\<close>, which combines the two. The socket
  itself belongs to the operating system: what its calls return is part of the state, and arbitrary.
\<close>

section \<open>The contract\<close>

datatype pio_error =
    Net io_error
  | BadPeer
  | BadPriority
  | BadSize
  | BadSource
  | NotIPv4
  | Unsupported
  | Panic

text \<open>\<open>sent\<close> is what the network got from this side: packets with destination and traffic class; \<open>usable\<close>
  says that the connection can still carry packets, \<open>writable\<close> which packets it is made for.
  Reading gives at most as many bytes as the caller's buffer holds, and an IPv4 source. A write that
  succeeds puts exactly the packet on the network, to its peer and in the class of its priority; a write
  that fails puts at most one datagram there, the packet or its beginning.\<close>

locale packet_io =
  fixes rd :: "nat \<Rightarrow> 's \<Rightarrow> (pio_error + bytes \<times> netip) \<times> 's"
    and wr :: "bytes \<Rightarrow> netip \<Rightarrow> u8 \<Rightarrow> 's \<Rightarrow> pio_error option \<times> 's"
    and sent :: "'s \<Rightarrow> (bytes \<times> netip \<times> int) list"
    and usable :: "'s \<Rightarrow> bool"
    and writable :: "bytes \<Rightarrow> netip \<Rightarrow> u8 \<Rightarrow> bool"
  assumes rd_fits: "rd n s = (Inr (b, ip), s') \<Longrightarrow> length b \<le> n \<and> Is4 ip"
    and rd_sends: "usable s \<Longrightarrow> rd n s = (r, s') \<Longrightarrow> usable s' \<Longrightarrow> sent s' = sent s"
    and rd_usable: "usable s \<Longrightarrow> rd n s = (Inr x, s') \<Longrightarrow> usable s'"
    and wr_ok: "usable s \<Longrightarrow> writable p ip pr \<Longrightarrow> wr p ip pr s = (None, s') \<Longrightarrow>
      usable s' \<and> sent s' = sent s @ [(p, ip, 32 * int (unat pr))]"
    and wr_fails: "usable s \<Longrightarrow> writable p ip pr \<Longrightarrow> wr p ip pr s = (Some e, s') \<Longrightarrow>
      sent s' = sent s \<or> (\<exists>k t. sent s' = sent s @ [(take k p, ip, t)])"
begin

text \<open>What the endpoint relies on: a packet it reads into its buffer of 65535 bytes is an event it can
  take.\<close>

lemma rd_enabled: "rd 65535 s = (Inr (b, ip), s') \<Longrightarrow> enabled (Datagram ip b) e"
  using rd_fits [of 65535 s b ip s'] by simp

end

text \<open>Writing a sequence of packets; the writer of the endpoint goes on after an error.\<close>

fun write_all :: "(bytes \<Rightarrow> netip \<Rightarrow> u8 \<Rightarrow> 's \<Rightarrow> pio_error option \<times> 's) \<Rightarrow> (bytes \<times> netip \<times> u8) list \<Rightarrow> 's \<Rightarrow>
    pio_error option list \<times> 's" where
  "write_all wr [] s = ([], s)"
| "write_all wr ((p, ip, pr) # ps) s =
     (case wr p ip pr s of (r, s) \<Rightarrow> (case write_all wr ps s of (rs, s) \<Rightarrow> (r # rs, s)))"

context packet_io
begin

text \<open>A sequence of writes that all succeed delivers exactly the packets, in order.\<close>

lemma write_all_ok:
  assumes "usable s" and "\<forall>(p, ip, pr) \<in> set ps. writable p ip pr"
    and "write_all wr ps s = (rs, s')" and "set rs \<subseteq> {None}"
  shows "usable s' \<and> sent s' = sent s @ map (\<lambda>(p, ip, pr). (p, ip, 32 * int (unat pr))) ps"
  using assms
proof (induction ps arbitrary: s rs)
  case (Cons x ps)
  obtain p ip pr where x: "x = (p, ip, pr)" by (cases x)
  obtain r s1 where w: "wr p ip pr s = (r, s1)" by (cases "wr p ip pr s")
  obtain rs1 where a: "write_all wr ps s1 = (rs1, s')" "rs = r # rs1"
    using Cons.prems(3) x w by (auto split: prod.splits)
  then have "r = None" "set rs1 \<subseteq> {None}" using Cons.prems(4) by auto
  then have s1: "usable s1" "sent s1 = sent s @ [(p, ip, 32 * int (unat pr))]"
    using wr_ok [OF Cons.prems(1) _ w [unfolded \<open>r = None\<close>]] Cons.prems(2) x by auto
  then show ?case using Cons.IH [OF s1(1) _ a(1)] Cons.prems(2) \<open>set rs1 \<subseteq> {None}\<close> x by simp
qed simp

end

section \<open>The raw socket\<close>

text \<open>The receiving side: the datagrams to come, each with its source as the library reports it, and what a
  read returns after them. \<^verbatim>\<open>ReadFromIP\<close> copies the payload into the buffer of the socket, cut to its
  65535 bytes.\<close>

record rawIP =
  ri_in :: "(bytes \<times> bytes) list"
  ri_fin :: io_error
  ri_sock :: raw
  ri_open :: bool

text \<open>\<^verbatim>\<open>OpenRaw\<close>: \<open>listen\<close> and \<open>setbuf\<close> are what the system returns for opening the socket and for sizing its
  receive queue.\<close>

definition Close :: "rawIP \<Rightarrow> rawIP" where
  "Close r = r\<lparr>ri_open := False\<rparr>"

definition OpenRaw :: "netip \<Rightarrow> io_error option \<Rightarrow> io_error option \<Rightarrow> rawIP \<Rightarrow> pio_error option \<times> rawIP" where
  "OpenRaw ip listen setbuf r =
     (if \<not> Is4 ip then (Some NotIPv4, r)
      else case listen of
        Some e \<Rightarrow> (Some (Net e), r)
      | None \<Rightarrow>
          let r = r\<lparr>ri_open := True\<rparr> in
          case setbuf of Some e \<Rightarrow> (Some (Net e), Close r) | None \<Rightarrow> (None, r))"

text \<open>The one of \<^verbatim>\<open>rawip_unsupported.go\<close>, on platforms without the transport.\<close>

definition OpenRaw_unsupported :: "netip \<Rightarrow> rawIP \<Rightarrow> pio_error option \<times> rawIP" where
  "OpenRaw_unsupported ip r = (Some Unsupported, r)"

definition ReadFromIP :: "nat \<Rightarrow> rawIP \<Rightarrow> (io_error + bytes \<times> bytes) \<times> rawIP" where
  "ReadFromIP limit r =
     (case ri_in r of
        [] \<Rightarrow> (Inl (ri_fin r), r)
      | (b, from_ip) # rest \<Rightarrow> (Inr (take limit b, from_ip), r\<lparr>ri_in := rest\<rparr>))"

text \<open>\<^verbatim>\<open>netip.AddrFromSlice\<close>.\<close>

definition AddrFromSlice :: "bytes \<Rightarrow> netip option" where
  "AddrFromSlice b =
     (if length b = 4 then Some (V4 (Uint32 b))
      else if length b = 16 then
        Some (V6 (push_bit 64 (ucast (Uint64 (subslice 0 8 b))) OR ucast (Uint64 (subslice 8 16 b))) [])
      else None)"

definition ReadPacket :: "nat \<Rightarrow> rawIP \<Rightarrow> (pio_error + bytes \<times> netip) \<times> rawIP" where
  "ReadPacket buf r =
     (case ReadFromIP 65535 r of
        (Inl e, r) \<Rightarrow> (Inl (Net e), r)
      | (Inr (b, from_ip), r) \<Rightarrow>
         (case AddrFromSlice from_ip of
            None \<Rightarrow> (Inl BadSource, r)
          | Some ip \<Rightarrow>
              if \<not> Is4 (Unmap ip) then (Inl BadSource, r)
              else if length b > buf then (Inl (Net ErrShortBuffer), r)
              else (Inr (b, Unmap ip), r)))"

definition unicast_peer :: "netip \<Rightarrow> bool" where
  "unicast_peer peer \<longleftrightarrow> Is4 peer \<and> \<not> IsUnspecified peer \<and> \<not> IsMulticast peer \<and> peer \<noteq> limitedBroadcast"

text \<open>The system calls of \<^verbatim>\<open>WritePacket\<close>, under its lock: the deadline, the handle, the priority, the datagram.\<close>

definition raw_write :: "bytes \<Rightarrow> netip \<Rightarrow> u8 \<Rightarrow> raw \<Rightarrow> pio_error option \<times> raw" where
  "raw_write packet peer priority w =
     (case raw_call w of
        (Some e, w) \<Rightarrow> (Some (Net e), w)
      | (None, w) \<Rightarrow>
     (case raw_call w of
        (Some e, w) \<Rightarrow> (Some (Net e), w)
      | (None, w) \<Rightarrow>
     (case raw_call w of
        (Some e, w) \<Rightarrow> (Some (Net e), w)
      | (None, w) \<Rightarrow>
     (case set_tos (push_bit 5 (int (unat priority))) w of
        (Some e, w) \<Rightarrow> (Some (Net e), w)
      | (None, w) \<Rightarrow>
     (case WriteToIP packet peer w of
        (Inl e, w) \<Rightarrow> (Some (Net e), w)
      | (Inr n, w) \<Rightarrow> (if n \<noteq> length packet then Some (Net ErrShortWrite) else None, w))))))"

definition WritePacket :: "bytes \<Rightarrow> netip \<Rightarrow> u8 \<Rightarrow> rawIP \<Rightarrow> pio_error option \<times> rawIP" where
  "WritePacket packet peer priority r =
     (if \<not> unicast_peer peer then (Some BadPeer, r)
      else if priority > 7 then (Some BadPriority, r)
      else if packet = [] \<or> length packet > 65535 - 20 then (Some BadSize, r)
      else case raw_write packet peer priority (ri_sock r) of (err, w) \<Rightarrow> (err, r\<lparr>ri_sock := w\<rparr>))"

section \<open>Opening an endpoint\<close>

datatype listen_error = OpenError pio_error | NewError new_error

definition Listen :: "addr \<Rightarrow> config \<Rightarrow> bool \<Rightarrow> io_error option \<Rightarrow> io_error option \<Rightarrow> u64 \<Rightarrow> (nat \<Rightarrow> int) \<Rightarrow>
    (nat \<Rightarrow> rpcKey list \<Rightarrow> rpcKey list) \<Rightarrow> rawIP \<Rightarrow> (listen_error + endpoint) \<times> rawIP" where
  "Listen l c handler listen setbuf seed clk ord r =
     (case OpenRaw (IP l) listen setbuf r of
        (Some e, r) \<Rightarrow> (Inl (OpenError e), r)
      | (None, r) \<Rightarrow>
         (case New l c handler seed clk ord of
            Inl e \<Rightarrow> (Inl (NewError e), Close r)
          | Inr e \<Rightarrow> (Inr e, r)))"

text \<open>The socket is left open exactly when an endpoint owns it.\<close>

lemma Listen_owns_socket:
  assumes "Listen l c handler listen setbuf seed clk ord r = (res, r')" and "\<not> ri_open r"
  shows "ri_open r' \<longleftrightarrow> (\<exists>e. res = Inr e)"
  using assms
  by (auto simp: Listen_def OpenRaw_def Close_def Let_def split: option.splits if_splits sum.splits prod.splits)

section \<open>The raw socket keeps the contract\<close>

lemma raw_write_sent:
  assumes "raw_write p ip pr w = (err, w')"
  shows "err = None \<longrightarrow> rw_sent w' = rw_sent w @ [(p, ip, 32 * int (unat pr))]"
    and "err \<noteq> None \<longrightarrow> rw_sent w' = rw_sent w \<or> (\<exists>k < length p. \<exists>t. rw_sent w' = rw_sent w @ [(take k p, ip, t)])"
proof -
  have tos: "push_bit 5 (uint pr) = 32 * uint pr" by (simp add: push_bit_eq_mult)
  have short: "rw_sent w' = rw_sent w \<or> (\<exists>k < length p. \<exists>t. rw_sent w' = rw_sent w @ [(take k p, ip, t)])"
    if "WriteToIP p ip v = (Inr n, w')" "n \<noteq> length p" "rw_sent v = rw_sent w" for v n
  proof -
    from that(1) obtain m where "n = min m (length p)" "rw_sent w' = rw_sent v @ [(take m p, ip, rw_tos v)]"
      by (auto simp: WriteToIP_def split: prod.splits option.splits)
    moreover from this that(2) have "m < length p" by (simp add: min_def split: if_splits)
    ultimately show ?thesis using that(3) by auto
  qed
  show "err = None \<longrightarrow> rw_sent w' = rw_sent w @ [(p, ip, 32 * int (unat pr))]"
    using assms raw_call_fields(1) raw_call_fields(2) WriteToIP_cases(2)
    by (auto simp: raw_write_def tos split: prod.splits option.splits sum.splits if_splits)
  show "err \<noteq> None \<longrightarrow> rw_sent w' = rw_sent w \<or> (\<exists>k < length p. \<exists>t. rw_sent w' = rw_sent w @ [(take k p, ip, t)])"
    using assms short raw_call_fields(1) raw_call_fields(2) WriteToIP_cases(1)
    by (auto simp: raw_write_def tos split: prod.splits option.splits sum.splits if_splits)
qed

definition raw_writable :: "bytes \<Rightarrow> netip \<Rightarrow> u8 \<Rightarrow> bool" where
  "raw_writable p ip pr \<longleftrightarrow> unicast_peer ip \<and> pr \<le> 7 \<and> p \<noteq> [] \<and> length p \<le> 65515"

lemma WritePacket_eq:
  "WritePacket p ip pr r =
     (if raw_writable p ip pr then
        (case raw_write p ip pr (ri_sock r) of (err, w) \<Rightarrow> (err, r\<lparr>ri_sock := w\<rparr>))
      else (Some (if \<not> unicast_peer ip then BadPeer else if pr > 7 then BadPriority else BadSize), r))"
  by (auto simp: WritePacket_def raw_writable_def not_less not_le)

lemma ReadPacket_sent: "ReadPacket n r = (res, r') \<Longrightarrow> ri_sock r' = ri_sock r"
  by (auto simp: ReadPacket_def ReadFromIP_def split: list.splits option.splits if_splits)

interpretation raw: packet_io ReadPacket WritePacket "\<lambda>r. rw_sent (ri_sock r)" "\<lambda>r. True" raw_writable
proof
  fix n r b ip r' x res p pr e
  show "ReadPacket n r = (Inr (b, ip), r') \<Longrightarrow> length b \<le> n \<and> Is4 ip"
    by (auto simp: ReadPacket_def split: prod.splits sum.splits option.splits if_splits)
  show "ReadPacket n r = (res, r') \<Longrightarrow> rw_sent (ri_sock r') = rw_sent (ri_sock r)"
    by (simp add: ReadPacket_sent)
  show "raw_writable p ip pr \<Longrightarrow> WritePacket p ip pr r = (None, r') \<Longrightarrow>
      True \<and> rw_sent (ri_sock r') = rw_sent (ri_sock r) @ [(p, ip, 32 * int (unat pr))]"
    using raw_write_sent(1) by (auto simp: WritePacket_eq split: prod.splits)
  show "WritePacket p ip pr r = (Some e, r') \<Longrightarrow> rw_sent (ri_sock r') = rw_sent (ri_sock r) \<or>
      (\<exists>k t. rw_sent (ri_sock r') = rw_sent (ri_sock r) @ [(take k p, ip, t)])"
    using raw_write_sent(2) by (fastforce simp: WritePacket_eq split: prod.splits if_splits)
qed simp

lemma raw_write_succeeds:
  assumes "\<And>i. rw_syscall w i = None" and "\<And>i. \<exists>n. rw_write w i = (n, None) \<and> length p \<le> n"
  shows "fst (raw_write p ip pr w) = None"
proof -
  have r: "raw_call v = (None, v\<lparr>rw_calls := Suc (rw_calls v)\<rparr>)" if "rw_syscall v = rw_syscall w" for v
    using assms(1) that by (simp add: raw_call_def)
  obtain n where n: "rw_write w (Suc (Suc (Suc (Suc (rw_calls w))))) = (n, None)" "length p \<le> n" using assms(2) by blast
  show ?thesis using n by (simp add: raw_write_def r set_tos_def WriteToIP_def)
qed

text \<open>C23. \<^verbatim>\<open>WritePacket\<close> of the raw socket refuses, without touching the socket, exactly what is no unicast IPv4
  peer, no priority up to 7, or no payload that fits an IPv4 datagram. Otherwise it succeeds only when the
  whole packet went to the peer with the precedence bits of its own priority; after an error at most the
  beginning of the packet went out; and it does succeed when the system does.\<close>

theorem raw_write_correct:
  assumes "WritePacket p ip pr r = (err, r')"
  shows "(err \<in> {Some BadPeer, Some BadPriority, Some BadSize} \<longleftrightarrow> \<not> raw_writable p ip pr) \<and>
    (\<not> raw_writable p ip pr \<longrightarrow> r' = r) \<and>
    (err = None \<longrightarrow> rw_sent (ri_sock r') = rw_sent (ri_sock r) @ [(p, ip, 32 * int (unat pr))]) \<and>
    (err \<noteq> None \<longrightarrow> rw_sent (ri_sock r') = rw_sent (ri_sock r) \<or>
       (\<exists>k < length p. \<exists>t. rw_sent (ri_sock r') = rw_sent (ri_sock r) @ [(take k p, ip, t)])) \<and>
    (raw_writable p ip pr \<and> (\<forall>i. rw_syscall (ri_sock r) i = None) \<and>
       (\<forall>i. \<exists>n. rw_write (ri_sock r) i = (n, None) \<and> length p \<le> n) \<longrightarrow> err = None)"
proof (cases "raw_writable p ip pr")
  case True
  obtain w where w: "raw_write p ip pr (ri_sock r) = (err, w)" "r' = r\<lparr>ri_sock := w\<rparr>"
    using assms True by (auto simp: WritePacket_eq split: prod.splits)
  have net: "err \<notin> {Some BadPeer, Some BadPriority, Some BadSize}"
    using w(1) by (auto simp: raw_write_def split: prod.splits option.splits sum.splits if_splits)
  have "err = None \<longrightarrow> rw_sent (ri_sock r') = rw_sent (ri_sock r) @ [(p, ip, 32 * int (unat pr))]"
    "err \<noteq> None \<longrightarrow> rw_sent (ri_sock r') = rw_sent (ri_sock r) \<or>
       (\<exists>k < length p. \<exists>t. rw_sent (ri_sock r') = rw_sent (ri_sock r) @ [(take k p, ip, t)])"
    using raw_write_sent [OF w(1)] by (simp_all add: w(2))
  then show ?thesis using True net raw_write_succeeds [of "ri_sock r" p ip pr] w(1) by auto
next
  case False
  then show ?thesis using assms by (auto simp: WritePacket_eq split: if_splits)
qed

definition sample_raw :: rawIP where
  "sample_raw = \<lparr>ri_in = [], ri_fin = EOF, ri_sock = \<lparr>rw_tos = 0, rw_sent = [], rw_calls = 0,
     rw_syscall = (\<lambda>_. None), rw_write = (\<lambda>_. (65535, None))\<rparr>, ri_open = True\<rparr>"

theorem raw_write_correct_witness:
  "fst (WritePacket [1, 2, 3] (V4 0x0a000002) 5 sample_raw) = None \<and>
   rw_sent (ri_sock (snd (WritePacket [1, 2, 3] (V4 0x0a000002) 5 sample_raw))) = [([1, 2, 3], V4 0x0a000002, 160)] \<and>
   snd (WritePacket [1, 2, 3] limitedBroadcast 5 sample_raw) = sample_raw"
proof -
  have w: "raw_writable [1, 2, 3] (V4 0x0a000002) 5"
    by (simp add: raw_writable_def unicast_peer_def limitedBroadcast_def drop_bit_eq_div)
  have n: "\<not> raw_writable [1, 2, 3] limitedBroadcast 5" by (simp add: raw_writable_def unicast_peer_def)
  show ?thesis
    using raw_write_correct [OF surjective_pairing [of "WritePacket [1, 2, 3] (V4 0x0a000002) 5 sample_raw"]]
      raw_write_correct [OF surjective_pairing [of "WritePacket [1, 2, 3] limitedBroadcast 5 sample_raw"]] w n
    by (simp add: sample_raw_def)
qed

end
