(* ===== verification/Calls.thy ===== *)
theory Calls
  imports Float64 PacketIO
begin

text \<open>
  Verified echo calls, the work both command-line tools do (\<^verbatim>\<open>cmd/homa-echo/main.go\<close>,
  \<^verbatim>\<open>cmd/homa-bench/main.go\<close>): what it means for a sequence of calls to have echoed, the times a tool keeps,
  and the statistics their reports derive from them. Most of these are reference definitions; the endpoint both
  tools open and the conversion of their times are code.
\<close>

section \<open>Sequences of calls\<close>

text \<open>The \<open>k\<close>-th call of a run with a payload returns an error or a reply, and takes some time. What it returns
  is up to the transport.\<close>

type_synonym caller = "nat \<Rightarrow> bytes \<Rightarrow> (error + bytes) \<times> int"

text \<open>A planned call: how it is made, its payload, and whether its time is kept.\<close>

type_synonym planned = "caller \<times> bytes \<times> bool"

fun echoed :: "nat \<Rightarrow> planned list \<Rightarrow> bool" where
  "echoed k [] = True"
| "echoed k ((f, p, keep) # cs) \<longleftrightarrow> fst (f k p) = Inr p \<and> echoed (Suc k) cs"

fun timed :: "nat \<Rightarrow> planned list \<Rightarrow> int list" where
  "timed k [] = []"
| "timed k ((f, p, keep) # cs) = (if keep then [snd (f k p)] else []) @ timed (Suc k) cs"

lemma echoed_append [simp]: "echoed k (cs @ ds) \<longleftrightarrow> echoed k cs \<and> echoed (k + length cs) ds"
  by (induction k cs rule: echoed.induct) auto

lemma timed_append [simp]: "timed k (cs @ ds) = timed k cs @ timed (k + length cs) ds"
  by (induction k cs rule: timed.induct) auto

lemma echoed_nth:
  "echoed k cs \<longleftrightarrow> (\<forall>i < length cs. case cs ! i of (f, p, keep) \<Rightarrow> fst (f (k + i) p) = Inr p)"
proof (induction k cs rule: echoed.induct)
  case (2 k f p keep cs)
  then show ?case by (simp add: All_less_Suc2)
qed simp

lemma length_timed [simp]: "length (timed k cs) = length (filter (\<lambda>(f, p, keep). keep) cs)"
  by (induction k cs rule: timed.induct) auto

section \<open>The endpoint of a tool\<close>

text \<open>What the host contributes to \<^verbatim>\<open>homa.Listen\<close>: the results of its system calls, the random seed, the clock
  and the order of map iterations; and what a tool reads while it makes its calls: the nanoseconds that
  passed between two of them, and the statistics of its endpoint before a call.\<close>

record host =
  h_listen :: "io_error option"
  h_setbuf :: "io_error option"
  h_seed :: u64
  h_clock :: "nat \<Rightarrow> int"
  h_order :: "nat \<Rightarrow> rpcKey list \<Rightarrow> rpcKey list"
  h_since :: "nat \<Rightarrow> nat \<Rightarrow> int"
  h_stats :: "nat \<Rightarrow> stats"

text \<open>Both tools set the timeout only.\<close>

definition tool_listen :: "host \<Rightarrow> addr \<Rightarrow> int \<Rightarrow> bool \<Rightarrow> rawIP \<Rightarrow> (listen_error + endpoint) \<times> rawIP" where
  "tool_listen h l timeout handler r =
     Listen l (zero_config\<lparr>Timeout := timeout\<rparr>) handler (h_listen h) (h_setbuf h) (h_seed h) (h_clock h) (h_order h) r"

lemma defaults_timeout:
  assumes "t \<noteq> 0"
  shows "(\<exists>c. defaults (zero_config\<lparr>Timeout := t\<rparr>) = Some c) \<longleftrightarrow> 5 * Millisecond \<le> t \<and> t \<le> Minute"
  using assms by (auto simp: defaults_def with_defaults_def Let_def zero_config_def fill_def invalid_config_def
      maxMessage_def duration_defs)

lemma tool_listen_ok:
  assumes "t \<noteq> 0" and "Is4 (IP l)" and "Port l \<noteq> 0" and "handler \<longrightarrow> Port l < 32768"
    and "h_listen h = None" and "h_setbuf h = None"
  shows "(\<exists>e r'. tool_listen h l t handler r = (Inr e, r')) \<longleftrightarrow> 5 * Millisecond \<le> t \<and> t \<le> Minute"
    and "t < 5 * Millisecond \<or> t > Minute \<Longrightarrow>
      tool_listen h l t handler r = (Inl (NewError InvalidConfiguration), r\<lparr>ri_open := False\<rparr>)"
proof -
  have "\<exists>e. New l c handler s k ord = Inr e" if "defaults c = Some d" for c d s k ord
    using assms that by (auto simp: New_def not_le)
  then show "(\<exists>e r'. tool_listen h l t handler r = (Inr e, r')) \<longleftrightarrow> 5 * Millisecond \<le> t \<and> t \<le> Minute"
    using defaults_timeout [OF assms(1)] assms
    by (cases "defaults (zero_config\<lparr>Timeout := t\<rparr>)")
      (force simp: tool_listen_def Listen_def OpenRaw_def Let_def New_def split: sum.splits)+
  show "tool_listen h l t handler r = (Inl (NewError InvalidConfiguration), r\<lparr>ri_open := False\<rparr>)"
    if "t < 5 * Millisecond \<or> t > Minute"
  proof -
    have "defaults (zero_config\<lparr>Timeout := t\<rparr>) = None"
      using defaults_timeout [OF assms(1)] that by (cases "defaults (zero_config\<lparr>Timeout := t\<rparr>)") auto
    then show ?thesis using assms by (simp add: tool_listen_def Listen_def OpenRaw_def Let_def New_def Close_def)
  qed
qed

section \<open>Statistics\<close>

definition Protocol :: int where "Protocol = 146"

lemma wire_constants: "Protocol = int IPProtocol" "maxMessage = int MaxMessageLength"
  by (simp_all add: Protocol_def IPProtocol_def maxMessage_def MaxMessageLength_def)

text \<open>Nanoseconds to microseconds, in floating point.\<close>

definition microseconds :: "int \<Rightarrow> rat" where
  "microseconds t = fl (fl (of_int t) / 1000)"

text \<open>\<^verbatim>\<open>Duration.Seconds\<close>, for the times a monotonic clock yields.\<close>

definition Seconds :: "int \<Rightarrow> rat" where
  "Seconds d = fl (fl (of_int (d div Second)) + fl (fl (of_int (d mod Second)) / 1000000000))"

lemma Seconds_near:
  assumes "0 \<le> d" and "d < 2 ^ 63"
  shows "near (3 / 2 ^ 53) (Seconds d) (of_int d / 1000000000)"
proof -
  let ?s = "d div Second" and ?n = "d mod Second"
  let ?q = "of_int ?n / 1000000000 :: rat" and ?x = "of_int d / 1000000000 :: rat"
  have n: "0 \<le> ?n" "?n < 1000000000" "0 \<le> ?s" "?s < 2 ^ 53"
    using assms by (simp_all add: duration_defs pos_imp_zdiv_nonneg_iff div_less_iff_less_mult)
  have "of_int d = (of_int ?s * of_int Second + of_int ?n :: rat)"
    unfolding of_int_mult [symmetric] of_int_add [symmetric] by simp
  moreover have "(of_int Second :: rat) = 1000000000" by (simp add: duration_defs)
  ultimately have d: "?x = of_int ?s + ?q" by (simp add: field_simps)
  have S: "Seconds d = fl (of_int ?s + fl ?q)" using n by (simp add: Seconds_def fl_integer)
  have q: "near (1 / 2 ^ 53) (fl ?q) ?q" using n by (intro near_fl) simp
  have sum: "near (1 / 2 ^ 53) (of_int ?s + fl ?q) ?x"
  proof -
    have "0 \<le> (of_int ?s :: rat)" using n(3) by simp
    then have "of_int ?s * (1 - 1 / 2 ^ 53) \<le> (of_int ?s :: rat)" "(of_int ?s :: rat) \<le> of_int ?s * (1 + 1 / 2 ^ 53)" by simp_all
    then show ?thesis using q unfolding d near_def distrib_right by linarith
  qed
  then have "0 \<le> of_int ?s + fl ?q" using assms(1) by (auto simp: near_def intro: order_trans)
  from near_trans [OF near_fl [OF this] sum] show ?thesis unfolding S using assms(1) by simp
qed

lemma Seconds_pos: "0 < d \<Longrightarrow> d < 2 ^ 63 \<Longrightarrow> 0 < Seconds d"
  using near_pos [OF Seconds_near [of d]] by simp

text \<open>The nearest-rank percentile: a sample such that at least \<open>a\<close> in a hundred samples are no larger, and
  fewer than that are smaller.\<close>

definition is_percentile :: "nat \<Rightarrow> int \<Rightarrow> int list \<Rightarrow> bool" where
  "is_percentile a v xs \<longleftrightarrow> v \<in> set xs \<and> a * length xs \<le> 100 * length (filter (\<lambda>x. x \<le> v) xs) \<and>
     100 * length (filter (\<lambda>x. x < v) xs) < a * length xs"

lemma sorted_rank:
  assumes "sorted (ys :: int list)" and "i < length ys"
  shows "Suc i \<le> length (filter (\<lambda>x. x \<le> ys ! i) ys)" and "length (filter (\<lambda>x. x < ys ! i) ys) \<le> i"
proof -
  have "{0..i} \<subseteq> {k. k < length ys \<and> ys ! k \<le> ys ! i}"
    using assms by (auto simp: sorted_iff_nth_mono)
  then have "card {0..i} \<le> card {k. k < length ys \<and> ys ! k \<le> ys ! i}" by (intro card_mono) auto
  then show "Suc i \<le> length (filter (\<lambda>x. x \<le> ys ! i) ys)" by (simp add: length_filter_conv_card)
  have "{k. k < length ys \<and> ys ! k < ys ! i} \<subseteq> {0..<i}"
  proof
    fix k
    assume "k \<in> {k. k < length ys \<and> ys ! k < ys ! i}"
    then have "\<not> i \<le> k" using assms(1) sorted_nth_mono [of ys i k] by auto
    then show "k \<in> {0..<i}" by simp
  qed
  then have "card {k. k < length ys \<and> ys ! k < ys ! i} \<le> card {0..<i}" by (intro card_mono) auto
  then show "length (filter (\<lambda>x. x < ys ! i) ys) \<le> i" by (simp add: length_filter_conv_card)
qed

lemma is_percentile_unique: "is_percentile a v xs \<Longrightarrow> is_percentile a w xs \<Longrightarrow> v = w"
proof (rule ccontr)
  have no: False if v: "is_percentile a v xs" and w: "is_percentile a w xs" and less: "v < w" for v w :: int
  proof -
    have "filter (\<lambda>x. x \<le> v) xs = filter (\<lambda>x. x \<le> v) (filter (\<lambda>x. x < w) xs)"
      using less by (auto simp: filter_filter intro!: filter_cong)
    then have "length (filter (\<lambda>x. x \<le> v) xs) \<le> length (filter (\<lambda>x. x < w) xs)" by (metis length_filter_le)
    then show False using v w unfolding is_percentile_def by linarith
  qed
  assume "is_percentile a v xs" "is_percentile a w xs" "v \<noteq> w"
  then show False using no [of v w] no [of w v] by linarith
qed

end
