(* ===== verification/Echo.thy ===== *)
theory Echo
  imports Calls
begin

text \<open>
  The echo command, \<^verbatim>\<open>cmd/homa-echo/main.go\<close>: its modes \<^verbatim>\<open>serve\<close> and \<^verbatim>\<open>call\<close> and its self-test, from the
  checked arguments to the numbers of the report. What a call returns and the clock are arguments of
  the model; the flags and the exit status are in \<open>Commands\<close>.
\<close>

section \<open>The code\<close>

datatype echo_error =
    EchoPositional
  | EchoCounts
  | EchoTimeout
  | EchoListenAddr addr_error
  | EchoPeerAddr addr_error
  | EchoSameAddr
  | EchoListen listen_error
  | EchoCall nat nat error
  | EchoDiffers nat nat nat
  | EchoPanic

datatype mode = Serve | Call

text \<open>The checks of \<^verbatim>\<open>run\<close>; the second address is meant for mode \<open>Call\<close>.\<close>

definition echo_args :: "ipv6_parser \<Rightarrow> mode \<Rightarrow> nat \<Rightarrow> int \<Rightarrow> int \<Rightarrow> int \<Rightarrow> string \<Rightarrow> string \<Rightarrow>
    echo_error + addr \<times> addr option" where
  "echo_args p6 m nargs n cnt timeout listen peer =
     (if nargs \<noteq> 0 then Inl EchoPositional
      else if n < 1 \<or> n > maxMessage \<or> cnt < 1 \<or> cnt > 1000000 then Inl EchoCounts
      else if timeout \<le> 0 \<or> timeout > Minute then Inl EchoTimeout
      else case ParseAddr p6 listen of
        Inl e \<Rightarrow> Inl (EchoListenAddr e)
      | Inr l \<Rightarrow>
         (case m of
            Serve \<Rightarrow> Inr (l, None)
          | Call \<Rightarrow>
             (case ParseAddr p6 peer of
                Inl e \<Rightarrow> Inl (EchoPeerAddr e)
              | Inr remote \<Rightarrow> if l = remote then Inl EchoSameAddr else Inr (l, Some remote))))"

definition echo_payload :: "nat \<Rightarrow> nat \<Rightarrow> bytes" where
  "echo_payload i n = map (\<lambda>j. of_nat (i * 17 + j * 31)) [0..<n]"

text \<open>The loop over the calls: \<open>left\<close> calls remain, \<open>i\<close> were made.\<close>

fun echo_loop :: "caller \<Rightarrow> nat \<Rightarrow> nat \<Rightarrow> nat \<Rightarrow> int list \<Rightarrow> echo_error + int list" where
  "echo_loop f n 0 i latencies = Inr latencies"
| "echo_loop f n (Suc left) i latencies =
     (let payload = echo_payload i n in
      case f i payload of
        (Inl e, t) \<Rightarrow> Inl (EchoCall (Suc i) (length latencies) e)
      | (Inr reply, t) \<Rightarrow>
          if reply \<noteq> payload then Inl (EchoDiffers (Suc i) (length payload) (length reply))
          else echo_loop f n left (Suc i) (latencies @ [t]))"

record echo_report =
  er_protocol :: int
  er_local :: string
  er_peer :: string
  er_calls :: nat
  er_bytes :: nat
  er_elapsed :: rat
  er_median :: rat
  er_max :: rat
  er_stats :: stats

definition make_report :: "(128 word \<Rightarrow> string \<Rightarrow> string) \<Rightarrow> host \<Rightarrow> addr \<Rightarrow> addr \<Rightarrow> nat \<Rightarrow> int list \<Rightarrow> echo_error + echo_report" where
  "make_report s6 h l remote n latencies =
     (let latencies = sort latencies; k = length latencies in
      if latencies = [] then Inl EchoPanic
      else Inr \<lparr>er_protocol = Protocol, er_local = Addr_String s6 l, er_peer = Addr_String s6 remote, er_calls = k, er_bytes = n,
        er_elapsed = Seconds (h_since h 0 k), er_median = microseconds (latencies ! ((k - 1) div 2)),
        er_max = microseconds (latencies ! (k - 1)), er_stats = h_stats h k\<rparr>)"

text \<open>\<^verbatim>\<open>run\<close>, after its flags are parsed; a server returns without a report when it is told to stop. The deferred
  \<^verbatim>\<open>endpoint.Close()\<close> closes the raw socket.\<close>

definition echo_run ::
  "ipv6_parser \<Rightarrow> (128 word \<Rightarrow> string \<Rightarrow> string) \<Rightarrow> host \<Rightarrow> caller \<Rightarrow> mode \<Rightarrow> nat \<Rightarrow> int \<Rightarrow> int \<Rightarrow> int \<Rightarrow> string \<Rightarrow> string \<Rightarrow> rawIP \<Rightarrow>
   (echo_error + echo_report option) \<times> rawIP" where
  "echo_run p6 s6 h f m nargs n cnt timeout listen peer r =
     (case echo_args p6 m nargs n cnt timeout listen peer of
        Inl e \<Rightarrow> (Inl e, r)
      | Inr (l, remote) \<Rightarrow>
     (case tool_listen h l timeout (m = Serve) r of
        (Inl e, r) \<Rightarrow> (Inl (EchoListen e), r)
      | (Inr ep, r) \<Rightarrow>
         (case remote of
            None \<Rightarrow> (Inr None, Close r)
          | Some remote \<Rightarrow>
             (case echo_loop f (nat n) (nat cnt) 0 [] of
                Inl e \<Rightarrow> (Inl e, Close r)
              | Inr latencies \<Rightarrow>
                 (case make_report s6 h l remote (nat n) latencies of
                    Inl e \<Rightarrow> (Inl e, Close r)
                  | Inr report \<Rightarrow> (Inr (Some report), Close r))))))"

text \<open>\<^verbatim>\<open>selftest\<close>: two endpoints on the loopback address, and one echo of every size.\<close>

datatype selftest_error =
    SelfPositional
  | SelfTimeout
  | SelfServer listen_error
  | SelfClient listen_error
  | SelfCall nat nat error
  | SelfDiffers nat nat

definition serverAddr :: addr where "serverAddr = \<lparr>IP = V4 0x7f000001, Port = 4000\<rparr>"
definition clientAddr :: addr where "clientAddr = \<lparr>IP = V4 0x7f000001, Port = 4001\<rparr>"

definition selftest_sizes :: "nat list" where
  "selftest_sizes = [1, 100, 1424, 65535, 65536, 65537, 100000, 1000000]"

fun selftest_loop :: "caller \<Rightarrow> nat \<Rightarrow> nat list \<Rightarrow> (nat \<times> rat) list \<Rightarrow> selftest_error + (nat \<times> rat) list" where
  "selftest_loop f i [] results = Inr results"
| "selftest_loop f i (n # ns) results =
     (let payload = echo_payload i n in
      case f i payload of
        (Inl e, t) \<Rightarrow> Inl (SelfCall n (length results) e)
      | (Inr reply, t) \<Rightarrow>
          if reply \<noteq> payload then Inl (SelfDiffers n (length reply))
          else selftest_loop f (Suc i) ns (results @ [(n, microseconds t)]))"

definition selftest ::
  "host \<Rightarrow> host \<Rightarrow> caller \<Rightarrow> nat \<Rightarrow> int \<Rightarrow> rawIP \<Rightarrow> rawIP \<Rightarrow> (selftest_error + (nat \<times> rat) list) \<times> rawIP \<times> rawIP" where
  "selftest hs hc f nargs timeout rs rc =
     (if nargs \<noteq> 0 then (Inl SelfPositional, rs, rc)
      else if timeout \<le> 0 \<or> timeout > Minute then (Inl SelfTimeout, rs, rc)
      else case tool_listen hs serverAddr timeout True rs of
        (Inl e, rs) \<Rightarrow> (Inl (SelfServer e), rs, rc)
      | (Inr server, rs) \<Rightarrow>
         (case tool_listen hc clientAddr timeout False rc of
            (Inl e, rc) \<Rightarrow> (Inl (SelfClient e), Close rs, rc)
          | (Inr client, rc) \<Rightarrow> (selftest_loop f 0 selftest_sizes [], Close rs, Close rc)))"

text \<open>The two addresses are those \<^verbatim>\<open>selftest\<close> parses.\<close>

lemma selftest_addrs:
  "ParseAddr p6 ''127.0.0.1:4000'' = Inr serverAddr" "ParseAddr p6 ''127.0.0.1:4001'' = Inr clientAddr"
proof -
  have a: "ipv4_text 0x7f000001 = ''127.0.0.1''"
    by (simp add: ipv4_text_def PutUint32_def itoa.simps digit_char_def) code_simp
  have d: "itoa 4000 = ''4000''" "itoa 4001 = ''4001''" by (simp_all add: itoa.simps digit_char_def) code_simp+
  have "ParseAddrPort p6 ''127.0.0.1:4000'' = Some (V4 0x7f000001, 4000)"
    "ParseAddrPort p6 ''127.0.0.1:4001'' = Some (V4 0x7f000001, 4001)"
    by (subst ParseAddrPort_IPv4; simp add: a d exI [of _ 0])+
  then show "ParseAddr p6 ''127.0.0.1:4000'' = Inr serverAddr" "ParseAddr p6 ''127.0.0.1:4001'' = Inr clientAddr"
    by (simp_all add: ParseAddr_def serverAddr_def clientAddr_def)
qed

section \<open>The reports are evidence\<close>

definition echo_plan :: "caller \<Rightarrow> nat \<Rightarrow> nat \<Rightarrow> nat \<Rightarrow> planned list" where
  "echo_plan f n i left = map (\<lambda>k. (f, echo_payload k n, True)) [i..<i + left]"

definition selftest_plan :: "caller \<Rightarrow> nat \<Rightarrow> nat list \<Rightarrow> planned list" where
  "selftest_plan f i ns = map (\<lambda>(k, n). (f, echo_payload k n, True)) (enumerate i ns)"

lemma echo_plan_simps [simp]:
  "echo_plan f n i 0 = []" "echo_plan f n i (Suc left) = (f, echo_payload i n, True) # echo_plan f n (Suc i) left"
  by (simp_all add: echo_plan_def upt_conv_Cons del: upt_Suc)

lemma echo_plan_kept [simp]: "length (filter (\<lambda>(f, p, keep). keep) (echo_plan f n i left)) = left"
  by (simp add: echo_plan_def filter_map o_def)

lemma selftest_plan_simps [simp]:
  "selftest_plan f i [] = []" "selftest_plan f i (n # ns) = (f, echo_payload i n, True) # selftest_plan f (Suc i) ns"
  by (simp_all add: selftest_plan_def)

lemma echo_loop_echoed:
  "echoed i (echo_plan f n i left) \<Longrightarrow>
     echo_loop f n left i latencies = Inr (latencies @ timed i (echo_plan f n i left))"
  "\<not> echoed i (echo_plan f n i left) \<Longrightarrow> \<exists>e. echo_loop f n left i latencies = Inl e"
  by (induction left arbitrary: i latencies) (auto simp: Let_def split: prod.splits sum.splits)

lemma selftest_loop_echoed:
  "echoed i (selftest_plan f i ns) \<Longrightarrow>
     selftest_loop f i ns results = Inr (results @ zip ns (map microseconds (timed i (selftest_plan f i ns))))"
  "\<not> echoed i (selftest_plan f i ns) \<Longrightarrow> \<exists>e. selftest_loop f i ns results = Inl e"
  by (induction ns arbitrary: i results) (auto simp: Let_def split: prod.splits sum.splits)

text \<open>The lower median and the maximum, as percentiles.\<close>

lemma sorted_median:
  assumes "xs \<noteq> []"
  shows "is_percentile 50 (sort xs ! ((length xs - 1) div 2)) xs" and "is_percentile 100 (sort xs ! (length xs - 1)) xs"
proof -
  have flt: "length (filter P (sort xs)) = length (filter P xs)" for P by (metis filter_sort length_sort)
  have n: "0 < length xs" using assms by simp
  have rank: "is_percentile a (sort xs ! i) xs"
    if "i < length xs" "a * length xs \<le> 100 * Suc i" "100 * i < a * length xs" for a i
    using sorted_rank [of "sort xs" i] that nth_mem [of i "sort xs"] by (simp add: is_percentile_def flt)
  have half: "length xs \<le> 2 * ((length xs - 1) div 2) + 2" "2 * ((length xs - 1) div 2) < length xs"
      "(length xs - 1) div 2 < length xs"
    using n by linarith+
  show "is_percentile 50 (sort xs ! ((length xs - 1) div 2)) xs" by (rule rank) (use half in simp_all)
  show "is_percentile 100 (sort xs ! (length xs - 1)) xs" by (rule rank) (use n in simp_all)
qed

lemma make_report_ok:
  assumes "latencies \<noteq> []"
  shows "\<exists>rep. make_report s6 h l remote n latencies = Inr rep \<and> er_local rep = Addr_String s6 l \<and>
    er_peer rep = Addr_String s6 remote \<and> er_elapsed rep = Seconds (h_since h 0 (length latencies)) \<and>
    er_stats rep = h_stats h (length latencies) \<and> er_calls rep = length latencies \<and> er_bytes rep = n \<and>
    (\<exists>v. er_median rep = microseconds v \<and> is_percentile 50 v latencies) \<and>
    (\<exists>v. er_max rep = microseconds v \<and> is_percentile 100 v latencies)"
proof -
  have "sort latencies \<noteq> []" using assms by (metis length_0_conv length_sort)
  then show ?thesis using sorted_median [OF assms] by (auto simp: make_report_def Let_def)
qed

lemma echo_args_Call:
  assumes "echo_args p6 Call nargs n cnt timeout listen peer = Inr (l, remote)"
  shows "0 < cnt" and "0 < timeout" and "timeout \<le> Minute" and "\<exists>a. remote = Some a" and "Is4 (IP l)" and "Port l \<noteq> 0"
  using assms by (auto simp: echo_args_def ParseAddr_def split: if_splits sum.splits option.splits prod.splits)

lemma echo_run_Call:
  assumes "echo_args p6 Call nargs n cnt timeout listen peer = Inr (l, Some remote)"
    and "tool_listen h l timeout False r = (Inr ep, r')"
  shows "echoed 0 (echo_plan f (nat n) 0 (nat cnt)) \<Longrightarrow>
      \<exists>rep. echo_run p6 s6 h f Call nargs n cnt timeout listen peer r = (Inr (Some rep), Close r') \<and>
        make_report s6 h l remote (nat n) (timed 0 (echo_plan f (nat n) 0 (nat cnt))) = Inr rep"
    and "\<not> echoed 0 (echo_plan f (nat n) 0 (nat cnt)) \<Longrightarrow>
      \<exists>e. echo_run p6 s6 h f Call nargs n cnt timeout listen peer r = (Inl e, Close r')"
proof -
  let ?p = "echo_plan f (nat n) 0 (nat cnt)"
  have run: "echo_run p6 s6 h f Call nargs n cnt timeout listen peer r =
      (case echo_loop f (nat n) (nat cnt) 0 [] of Inl e \<Rightarrow> (Inl e, Close r')
       | Inr latencies \<Rightarrow> (case make_report s6 h l remote (nat n) latencies of Inl e \<Rightarrow> (Inl e, Close r')
           | Inr report \<Rightarrow> (Inr (Some report), Close r')))"
    using assms by (simp add: echo_run_def)
  have "length (timed 0 ?p) = nat cnt" by simp
  then have "timed 0 ?p \<noteq> []" using echo_args_Call(1) [OF assms(1)] by force
  then obtain rep where "make_report s6 h l remote (nat n) (timed 0 ?p) = Inr rep" using make_report_ok by blast
  then show "\<exists>rep. echo_run p6 s6 h f Call nargs n cnt timeout listen peer r = (Inr (Some rep), Close r') \<and>
      make_report s6 h l remote (nat n) (timed 0 ?p) = Inr rep" if "echoed 0 ?p"
    using echo_loop_echoed(1) [OF that, of "[]"] by (simp add: run)
  show "\<exists>e. echo_run p6 s6 h f Call nargs n cnt timeout listen peer r = (Inl e, Close r')" if "\<not> echoed 0 ?p"
    using echo_loop_echoed(2) [OF that, of "[]"] by (auto simp: run)
qed

text \<open>C29. A run of \<^verbatim>\<open>homa-echo call\<close> that reports success made the number of calls it was asked for, every call
  returned its own payload, and the report holds that number, the texts of the two addresses, the lower median and
  the maximum of the times of these calls, the time of all of them and the statistics after them; one whose arguments pass, whose endpoint opens and whose calls all echo does report success. In
  both cases the raw socket is closed at the end.\<close>

theorem echo_evidence:
  "(\<forall>rep r'. echo_run p6 s6 h f Call nargs n cnt timeout listen peer r = (Inr (Some rep), r') \<longrightarrow>
      echoed 0 (echo_plan f (nat n) 0 (nat cnt)) \<and> int (er_calls rep) = cnt \<and> er_bytes rep = nat n \<and>
      (\<exists>l. ParseAddr p6 listen = Inr l \<and> er_local rep = Addr_String s6 l) \<and>
      (\<exists>l. ParseAddr p6 peer = Inr l \<and> er_peer rep = Addr_String s6 l) \<and>
      er_elapsed rep = Seconds (h_since h 0 (er_calls rep)) \<and> er_stats rep = h_stats h (er_calls rep) \<and>
      (\<exists>v. er_median rep = microseconds v \<and> is_percentile 50 v (timed 0 (echo_plan f (nat n) 0 (nat cnt)))) \<and>
      (\<exists>v. er_max rep = microseconds v \<and> is_percentile 100 v (timed 0 (echo_plan f (nat n) 0 (nat cnt)))) \<and>
      \<not> ri_open r') \<and>
   (\<forall>l remote. echo_args p6 Call nargs n cnt timeout listen peer = Inr (l, Some remote) \<and> h_listen h = None \<and>
      h_setbuf h = None \<and> 5 * Millisecond \<le> timeout \<and> echoed 0 (echo_plan f (nat n) 0 (nat cnt)) \<longrightarrow>
      (\<exists>rep r'. echo_run p6 s6 h f Call nargs n cnt timeout listen peer r = (Inr (Some rep), r')))"
proof (intro conjI allI impI)
  let ?p = "echo_plan f (nat n) 0 (nat cnt)"
  fix l remote
  assume *: "echo_args p6 Call nargs n cnt timeout listen peer = Inr (l, Some remote) \<and> h_listen h = None \<and>
      h_setbuf h = None \<and> 5 * Millisecond \<le> timeout \<and> echoed 0 ?p"
  then have args: "echo_args p6 Call nargs n cnt timeout listen peer = Inr (l, Some remote)" by simp
  note a = echo_args_Call [OF args]
  obtain ep r' where "tool_listen h l timeout False r = (Inr ep, r')"
    using tool_listen_ok(1) [of timeout l False h r] a * by auto
  from echo_run_Call(1) [OF args this, of f s6] *
  show "\<exists>rep r'. echo_run p6 s6 h f Call nargs n cnt timeout listen peer r = (Inr (Some rep), r')" by auto
next
  let ?p = "echo_plan f (nat n) 0 (nat cnt)"
  fix rep r'
  assume run: "echo_run p6 s6 h f Call nargs n cnt timeout listen peer r = (Inr (Some rep), r')"
  then obtain l remote ep s where *: "echo_args p6 Call nargs n cnt timeout listen peer = Inr (l, Some remote)"
      "tool_listen h l timeout False r = (Inr ep, s)"
    by (auto simp: echo_run_def split: sum.splits prod.splits option.splits)
  note a = echo_args_Call [OF *(1)] and res = echo_run_Call [OF *, of f s6]
  show e: "echoed 0 ?p" using res(2) run by auto
  have kept: "length (timed 0 ?p) = nat cnt" by simp
  then have "timed 0 ?p \<noteq> []" using a(1) by force
  note rep = make_report_ok [OF this, of s6 h l remote "nat n"]
  have made: "make_report s6 h l remote (nat n) (timed 0 ?p) = Inr rep" "r' = Close s" using res(1) [OF e] run by auto
  show "er_elapsed rep = Seconds (h_since h 0 (er_calls rep))" "er_stats rep = h_stats h (er_calls rep)"
    using rep made by auto
  show "int (er_calls rep) = cnt" "er_bytes rep = nat n"
    "\<exists>v. er_median rep = microseconds v \<and> is_percentile 50 v (timed 0 ?p)"
    "\<exists>v. er_max rep = microseconds v \<and> is_percentile 100 v (timed 0 ?p)"
    using rep made kept a(1) by auto
  have "ParseAddr p6 listen = Inr l" "ParseAddr p6 peer = Inr remote"
    using *(1) by (auto simp: echo_args_def split: if_splits sum.splits)
  then show "\<exists>l. ParseAddr p6 listen = Inr l \<and> er_local rep = Addr_String s6 l"
    "\<exists>l. ParseAddr p6 peer = Inr l \<and> er_peer rep = Addr_String s6 l" using rep made by auto
  show "\<not> ri_open r'" by (simp add: made Close_def)
qed

definition sample_host :: host where
  "sample_host = \<lparr>h_listen = None, h_setbuf = None, h_seed = 1, h_clock = int, h_order = (\<lambda>_ ks. ks),
     h_since = (\<lambda>k k'. 1000 * int (k' - k)), h_stats = (\<lambda>_. zero_stats)\<rparr>"

theorem echo_evidence_witness:
  "\<exists>rep r'. echo_run (\<lambda>_. None) (\<lambda>_ z. z) sample_host (\<lambda>k p. (Inr p, 1000 * int k)) Call 0 3 2 10000000 ''127.0.0.1:4000''
     ''127.0.0.1:4001'' sample_raw = (Inr (Some rep), r') \<and> er_calls rep = 2 \<and> er_max rep = microseconds 1000"
proof -
  let ?f = "\<lambda>k p. (Inr p, 1000 * int k)"
  have args: "echo_args (\<lambda>_. None) Call 0 3 2 10000000 ''127.0.0.1:4000'' ''127.0.0.1:4001'' = Inr (serverAddr, Some clientAddr)"
    by (simp add: echo_args_def selftest_addrs maxMessage_def duration_defs) (simp add: serverAddr_def clientAddr_def)
  have plan: "echoed 0 (echo_plan ?f 3 0 2)" "timed 0 (echo_plan ?f 3 0 2) = [0, 1000]"
    by (simp_all add: numeral_2_eq_2)
  note ev = echo_evidence [of "\<lambda>_. None" "\<lambda>_ z. z" sample_host ?f 0 3 2 10000000 "''127.0.0.1:4000''" "''127.0.0.1:4001''" sample_raw]
  have ok: "echo_args (\<lambda>_. None) Call 0 3 2 10000000 ''127.0.0.1:4000'' ''127.0.0.1:4001'' = Inr (serverAddr, Some clientAddr) \<and>
      h_listen sample_host = None \<and> h_setbuf sample_host = None \<and> 5 * Millisecond \<le> 10000000 \<and>
      echoed 0 (echo_plan ?f (nat 3) 0 (nat 2))"
    using args plan(1) by (simp add: sample_host_def duration_defs)
  obtain rep r' where run: "echo_run (\<lambda>_. None) (\<lambda>_ z. z) sample_host ?f Call 0 3 2 10000000 ''127.0.0.1:4000''
      ''127.0.0.1:4001'' sample_raw = (Inr (Some rep), r')"
    using ev [THEN conjunct2, rule_format, OF ok] by blast
  note res = ev [THEN conjunct1, rule_format, OF run]
  obtain v where v: "er_max rep = microseconds v" "is_percentile 100 v (timed 0 (echo_plan ?f (nat 3) 0 (nat 2)))"
    using res by (elim conjE exE)
  have "int (er_calls rep) = 2" using res by (elim conjE)
  moreover have "v = 1000" using v(2) plan(2) by (auto simp: is_percentile_def)
  ultimately show ?thesis using run v(1) by (intro exI conjI) auto
qed

lemma tool_listen_iff:
  assumes "0 < t" and "Is4 (IP l)" and "Port l \<noteq> 0" and "handler \<longrightarrow> Port l < 32768"
  shows "(\<exists>e r'. tool_listen h l t handler r = (Inr e, r')) \<longleftrightarrow>
    h_listen h = None \<and> h_setbuf h = None \<and> 5 * Millisecond \<le> t \<and> t \<le> Minute"
proof (cases "h_listen h = None \<and> h_setbuf h = None")
  case True
  then show ?thesis using tool_listen_ok(1) [of t l handler h r] assms by simp
next
  case False
  then show ?thesis using assms(2) by (auto simp: tool_listen_def Listen_def OpenRaw_def Let_def split: option.splits)
qed

lemma tool_listen_closed: "tool_listen h l t handler r = (Inl e, r') \<Longrightarrow> \<not> ri_open r \<Longrightarrow> \<not> ri_open r'"
  using Listen_owns_socket unfolding tool_listen_def by blast

text \<open>C32. The self-test passes exactly when both endpoints open and the echo of each of its eight sizes, from one
  byte to the largest message, is exact; its report then lists these sizes with the times of their calls.
  Neither socket stays open.\<close>

theorem selftest_evidence:
  assumes "selftest hs hc f nargs timeout rs rc = (res, rs', rc')" and "\<not> ri_open rs" and "\<not> ri_open rc"
  shows "((\<exists>results. res = Inr results) \<longleftrightarrow>
      nargs = 0 \<and> 5 * Millisecond \<le> timeout \<and> timeout \<le> Minute \<and> h_listen hs = None \<and> h_setbuf hs = None \<and>
      h_listen hc = None \<and> h_setbuf hc = None \<and> echoed 0 (selftest_plan f 0 selftest_sizes)) \<and>
    (\<forall>results. res = Inr results \<longrightarrow> map fst results = selftest_sizes \<and>
      map snd results = map microseconds (timed 0 (selftest_plan f 0 selftest_sizes))) \<and>
    \<not> ri_open rs' \<and> \<not> ri_open rc'"
proof -
  have srv: "Is4 (IP serverAddr)" "Port serverAddr \<noteq> 0" "True \<longrightarrow> Port serverAddr < 32768" by (simp_all add: serverAddr_def)
  have cli: "Is4 (IP clientAddr)" "Port clientAddr \<noteq> 0" "False \<longrightarrow> Port clientAddr < 32768" by (simp_all add: clientAddr_def)
  let ?p = "selftest_plan f 0 selftest_sizes"
  note loop = selftest_loop_echoed [of 0 f selftest_sizes "[]"]
  have kept: "length (timed 0 ?p) = length selftest_sizes" by (simp add: selftest_sizes_def)
  show ?thesis
  proof (cases "nargs = 0 \<and> 0 < timeout \<and> timeout \<le> Minute")
    case False
    then show ?thesis using assms by (auto simp: selftest_def duration_defs split: if_splits)
  next
    case True
    then have t: "0 < timeout" by simp
    obtain s s' where s: "tool_listen hs serverAddr timeout True rs = (s, s')" by (cases "tool_listen hs serverAddr timeout True rs")
    obtain c c' where c: "tool_listen hc clientAddr timeout False rc = (c, c')" by (cases "tool_listen hc clientAddr timeout False rc")
    note si = tool_listen_iff [OF t srv, of hs rs] and ci = tool_listen_iff [OF t cli, of hc rc]
    have st: "(res, rs', rc') = (case s of Inl e \<Rightarrow> (Inl (SelfServer e), s', rc)
        | Inr _ \<Rightarrow> (case c of Inl e \<Rightarrow> (Inl (SelfClient e), Close s', c')
          | Inr _ \<Rightarrow> (selftest_loop f 0 selftest_sizes [], Close s', Close c')))"
      using assms(1) True s c by (simp add: selftest_def split: sum.splits)
    show ?thesis
    proof (cases "(\<exists>e. s = Inr e) \<and> (\<exists>e. c = Inr e)")
      case True
      then have "(res, rs', rc') = (selftest_loop f 0 selftest_sizes [], Close s', Close c')" using st by auto
      then show ?thesis using True si ci s c t \<open>nargs = 0 \<and> 0 < timeout \<and> timeout \<le> Minute\<close> loop kept
        by (cases "echoed 0 ?p") (auto simp: Close_def)
    next
      case False
      then show ?thesis using st si ci s c tool_listen_closed [of hs serverAddr timeout True rs _ s'] assms(2,3)
          tool_listen_closed [of hc clientAddr timeout False rc _ c']
        by (cases s; cases c) (auto simp: Close_def)
    qed
  qed
qed

definition sample_raw_closed :: rawIP where
  "sample_raw_closed = sample_raw\<lparr>ri_open := False\<rparr>"

theorem selftest_evidence_witness:
  "\<exists>results rs' rc'. selftest sample_host sample_host (\<lambda>k p. (Inr p, 2000)) 0 10000000 sample_raw_closed sample_raw_closed =
     (Inr results, rs', rc') \<and> map fst results = [1, 100, 1424, 65535, 65536, 65537, 100000, 1000000]"
proof -
  let ?f = "\<lambda>k p. (Inr p, 2000)"
  obtain res rs' rc' where run: "selftest sample_host sample_host ?f 0 10000000 sample_raw_closed sample_raw_closed = (res, rs', rc')"
    by (cases "selftest sample_host sample_host ?f 0 10000000 sample_raw_closed sample_raw_closed")
  have "echoed 0 (selftest_plan ?f 0 selftest_sizes)" by (simp add: selftest_sizes_def)
  then have *: "\<exists>results. res = Inr results" "\<forall>results. res = Inr results \<longrightarrow> map fst results = selftest_sizes"
    using selftest_evidence [OF run] by (simp_all add: sample_raw_closed_def sample_host_def duration_defs)
  then show ?thesis using run by (auto simp: selftest_sizes_def)
qed

end
