(* ===== verification/Text_Ops.thy ===== *)
theory Text_Ops
  imports Main
begin

text \<open>
  What the commands use of Go's package \<^verbatim>\<open>strings\<close>: \<^verbatim>\<open>Contains\<close>, \<^verbatim>\<open>Count\<close>, \<^verbatim>\<open>Split\<close> at commas, \<^verbatim>\<open>TrimSpace\<close>. Strings are
  byte strings, as in Go; \<^verbatim>\<open>TrimSpace\<close> knows the white space of Unicode in its UTF-8 encoding.
\<close>

section \<open>Searching\<close>

text \<open>\<^verbatim>\<open>strings.Contains\<close> and \<^verbatim>\<open>strings.Count\<close> (for a pattern that is not empty).\<close>

fun starts_with :: "string \<Rightarrow> string \<Rightarrow> bool" where
  "starts_with [] s = True"
| "starts_with (c # t) [] = False"
| "starts_with (c # t) (d # s) = (c = d \<and> starts_with t s)"

fun Contains :: "string \<Rightarrow> string \<Rightarrow> bool" where
  "Contains [] t = (t = [])"
| "Contains (c # s) t = (starts_with t (c # s) \<or> Contains s t)"

function Count :: "string \<Rightarrow> string \<Rightarrow> nat" where
  "Count s t =
     (if s = [] \<or> t = [] then 0
      else if starts_with t s then Suc (Count (drop (length t) s) t)
      else Count (tl s) t)"
  by pat_completeness auto
termination by (relation "measure (\<lambda>(s, t). length s)") auto

declare Count.simps [simp del]

section \<open>Splitting and trimming\<close>

fun split_comma :: "string \<Rightarrow> string list" where
  "split_comma [] = [[]]"
| "split_comma (c # s) =
     (if c = CHR '','' then [] # split_comma s
      else case split_comma s of [] \<Rightarrow> [[c]] | p # ps \<Rightarrow> (c # p) # ps)"

definition white_space :: "string list" where
  "white_space = map (map char_of) ([[9], [10], [11], [12], [13], [32], [0xC2, 0x85], [0xC2, 0xA0], [0xE1, 0x9A, 0x80]] @
     map (\<lambda>i. [0xE2, 0x80, 0x80 + i]) [0..<11] @
     [[0xE2, 0x80, 0xA8], [0xE2, 0x80, 0xA9], [0xE2, 0x80, 0xAF], [0xE2, 0x81, 0x9F], [0xE3, 0x80, 0x80 :: nat]])"

text \<open>Removing from the front as long as one of the words is there.\<close>

function trim_front :: "string list \<Rightarrow> string \<Rightarrow> string" where
  "trim_front ws s =
     (case find (\<lambda>w. w \<noteq> [] \<and> starts_with w s) ws of
        None \<Rightarrow> s
      | Some w \<Rightarrow> trim_front ws (drop (length w) s))"
  by pat_completeness auto
termination
proof (relation "measure (\<lambda>(ws, s). length s)")
  fix ws s w
  assume "find (\<lambda>w. w \<noteq> [] \<and> starts_with w s) ws = Some w"
  then have "w \<noteq> []" "starts_with w s" by (auto simp: find_Some_iff)
  then have "s \<noteq> []" by (cases w) auto
  then show "((ws, drop (length w) s), ws, s) \<in> measure (\<lambda>(ws, s). length s)" using \<open>w \<noteq> []\<close> by simp
qed simp

declare trim_front.simps [simp del]

definition TrimSpace :: "string \<Rightarrow> string" where
  "TrimSpace s = rev (trim_front (map rev white_space) (rev (trim_front white_space s)))"

section \<open>Laws\<close>

fun join_comma :: "string list \<Rightarrow> string" where
  "join_comma [] = []"
| "join_comma [p] = p"
| "join_comma (p # ps) = p @ CHR '','' # join_comma ps"

lemma split_comma_not_Nil [simp]: "split_comma s \<noteq> []"
  by (induction s) (auto split: list.splits)

lemma split_comma_part: "CHR '','' \<notin> set p \<Longrightarrow> split_comma p = [p]"
  by (induction p) auto

lemma split_comma_append: "CHR '','' \<notin> set p \<Longrightarrow> split_comma (p @ CHR '','' # s) = p # split_comma s"
  by (induction p) (auto split: list.splits)

lemma split_join_comma: "ps \<noteq> [] \<Longrightarrow> \<forall>p \<in> set ps. CHR '','' \<notin> set p \<Longrightarrow> split_comma (join_comma ps) = ps"
  by (induction ps rule: join_comma.induct) (simp_all add: split_comma_part split_comma_append)

lemma starts_with_hd: "starts_with w s \<Longrightarrow> w \<noteq> [] \<Longrightarrow> s \<noteq> [] \<and> hd w = hd s"
  by (cases w; cases s) auto

lemma trim_front_same: "\<forall>w \<in> set ws. w \<noteq> [] \<longrightarrow> s \<noteq> [] \<longrightarrow> hd w \<noteq> hd s \<Longrightarrow> trim_front ws s = s"
proof -
  assume *: "\<forall>w \<in> set ws. w \<noteq> [] \<longrightarrow> s \<noteq> [] \<longrightarrow> hd w \<noteq> hd s"
  have "find (\<lambda>w. w \<noteq> [] \<and> starts_with w s) ws = None"
    using * starts_with_hd by (fastforce simp: find_None_iff)
  then show ?thesis by (subst trim_front.simps) simp
qed

text \<open>Printable text has no white space at its ends.\<close>

lemma TrimSpace_same:
  assumes "\<forall>c \<in> set s. 32 < (of_char c :: nat) \<and> (of_char c :: nat) < 128"
  shows "TrimSpace s = s"
proof -
  have ends: "\<forall>w \<in> set white_space. \<forall>c \<in> {hd w, last w}. (of_char c :: nat) \<le> 32 \<or> 128 \<le> (of_char c :: nat)"
    by code_simp
  have nil: "\<forall>w \<in> set white_space. w \<noteq> []" by code_simp
  have 1: "trim_front white_space s = s"
  proof (rule trim_front_same, intro ballI impI)
    fix w
    assume "w \<in> set white_space" "s \<noteq> []"
    then have "(of_char (hd w) :: nat) \<le> 32 \<or> 128 \<le> (of_char (hd w) :: nat)" "hd s \<in> set s" using ends by auto
    then show "hd w \<noteq> hd s" using assms by fastforce
  qed
  have 2: "trim_front (map rev white_space) (rev s) = rev s"
  proof (rule trim_front_same, intro ballI impI)
    fix w
    assume "w \<in> set (map rev white_space)" "rev s \<noteq> []"
    then obtain v where v: "v \<in> set white_space" "w = rev v" by auto
    then have "hd w = last v" using nil by (simp add: hd_rev)
    then have "(of_char (hd w) :: nat) \<le> 32 \<or> 128 \<le> (of_char (hd w) :: nat)" "hd (rev s) \<in> set s"
      using ends v(1) \<open>rev s \<noteq> []\<close> by (auto simp: hd_rev)
    then show "hd w \<noteq> hd (rev s)" using assms by fastforce
  qed
  show ?thesis by (simp add: TrimSpace_def 1 2)
qed

end
