(* ===== verification/Bench.thy ===== *)
theory Bench
  imports Text_Ops Calls "HOL-Library.Sublist"
begin

unbundle bit_operations_syntax

text \<open>
  The benchmark command, \<^verbatim>\<open>cmd/homa-bench/main.go\<close>: the checks of its arguments, the echo server over TCP with
  its frames, the measuring client, and the percentiles and the goodput of the report. The results
  of system calls, the clock and what the calls of the client return are arguments of the model; the flags and
  the exit status are in \<open>Commands\<close>.
\<close>

section \<open>Arguments\<close>

datatype bench_error =
    PositionalArgs
  | BadTimeout
  | BadDuration
  | TooManySizes
  | BadSizes
  | BadCounts
  | Workload

fun parse_parts :: "string list \<Rightarrow> int list \<Rightarrow> bench_error + int list" where
  "parse_parts [] result = Inr result"
| "parse_parts (part # parts) result =
     (case Atoi (TrimSpace part) of
        None \<Rightarrow> Inl BadSizes
      | Some n \<Rightarrow>
          if n < 1 \<or> n > maxMessage \<or> n \<in> set result then Inl BadSizes else parse_parts parts (result @ [n]))"

definition parseSizes :: "string \<Rightarrow> bench_error + int list" where
  "parseSizes s =
     (let parts = split_comma s in
      if length parts > 32 then Inl TooManySizes else parse_parts parts [])"

text \<open>The checks of \<^verbatim>\<open>run\<close> both modes share, and those of the client.\<close>

definition bench_common :: "nat \<Rightarrow> int \<Rightarrow> int \<Rightarrow> bench_error option" where
  "bench_common nargs timeout duration =
     (if nargs \<noteq> 0 then Some PositionalArgs
      else if timeout < Millisecond \<or> timeout > Minute then Some BadTimeout
      else if duration \<le> 0 \<or> duration > 10 * Minute then Some BadDuration
      else None)"

definition samples_for :: "int \<Rightarrow> int \<Rightarrow> int \<Rightarrow> int" where
  "samples_for small large n = (if n \<ge> 65536 then large else small)"

text \<open>The sum is of 64-bit numbers; the limits keep it far below the range of these.\<close>

definition total_samples :: "int list \<Rightarrow> int \<Rightarrow> int \<Rightarrow> int \<Rightarrow> int" where
  "total_samples sizes small large rounds =
     foldl (\<lambda>samples n. samples + samples_for small large n * rounds * 2) 0 sizes"

definition bench_client_args :: "string \<Rightarrow> int \<Rightarrow> int \<Rightarrow> int \<Rightarrow> int \<Rightarrow> bench_error + int list" where
  "bench_client_args sizes warmup small large rounds =
     (case parseSizes sizes of
        Inl e \<Rightarrow> Inl e
      | Inr parsed \<Rightarrow>
          if warmup < 0 \<or> warmup > 1000 \<or> small < 1 \<or> small > 100000 \<or> large < 1 \<or> large > 10000 \<or>
             rounds < 1 \<or> rounds > 20
          then Inl BadCounts
          else if total_samples parsed small large rounds > 2000000 then Inl Workload
          else Inr parsed)"

section \<open>Frames over TCP\<close>

definition writeFrame :: "bytes \<Rightarrow> conn \<Rightarrow> io_error option \<times> conn" where
  "writeFrame payload c =
     (case conn_write (PutUint32 (of_nat (length payload)) @ payload) c of (n, err, c) \<Rightarrow>
        (if err = None \<and> n \<noteq> length payload + 4 then Some ErrShortWrite else err, c))"

definition tcp_read :: "conn \<Rightarrow> (io_error + bytes) \<times> conn" where
  "tcp_read = read_sized 1 1000000"

text \<open>\<^verbatim>\<open>tcpCall\<close>; \<open>ctx_err\<close> is the error of the caller's context, if it has ended.\<close>

definition tcpCall :: "io_error option \<Rightarrow> bytes \<Rightarrow> conn \<Rightarrow> (io_error + bytes) \<times> conn" where
  "tcpCall ctx_err payload c =
     (case ctx_err of
        Some e \<Rightarrow> (Inl e, c)
      | None \<Rightarrow>
     (case set_deadline c of
        (Some e, c) \<Rightarrow> (Inl e, c)
      | (None, c) \<Rightarrow>
     (case writeFrame payload c of
        (Some e, c) \<Rightarrow> (Inl e, c)
      | (None, c) \<Rightarrow> tcp_read c)))"

lemma writeFrame_in: "writeFrame p c = (r, c') \<Longrightarrow> c_in c' = c_in c"
  by (auto simp: writeFrame_def conn_write_def Let_def split: prod.splits)

text \<open>The loop of a connection of the server; it ends when a read or a write fails. The errors of setting
  deadlines are ignored.\<close>

function serve_conn :: "conn \<Rightarrow> conn" where
  "serve_conn c =
     (case tcp_read c of
        (Inl e, c) \<Rightarrow> c
      | (Inr payload, c) \<Rightarrow>
         (case writeFrame payload c of
            (Some e, c) \<Rightarrow> c
          | (None, c) \<Rightarrow> serve_conn c))"
  by pat_completeness auto
termination
proof (relation "measure (\<lambda>c. length (c_in c))")
  fix c x y p xa ya
  assume "(x, y) = tcp_read c" "x = Inr p" "(xa, ya) = writeFrame p y"
  then have "length (c_in ya) < length (c_in c)"
    using read_sized_Inr(1) [of 1 1000000 c p y] writeFrame_in [of p y xa ya] by (simp add: tcp_read_def length_prefixed_eq)
  then show "(ya, c) \<in> measure (\<lambda>c. length (c_in c))" by simp
qed simp

declare serve_conn.simps [simp del]

text \<open>Accepting connections: at most 16 are served at a time, none after the end of the context.\<close>

datatype serve_event = Accepted nat bool | AcceptFailed io_error | Ended nat | ContextDone

record server =
  connections :: "nat set"
  ctx_done :: bool

fun serve_step :: "serve_event \<Rightarrow> server \<Rightarrow> server" where
  "serve_step (Accepted conn_id nodelay) s =
     (if \<not> nodelay then s
      else if ctx_done s \<or> card (connections s) \<ge> 16 then s
      else s\<lparr>connections := insert conn_id (connections s)\<rparr>)"
| "serve_step (AcceptFailed e) s = s"
| "serve_step (Ended conn_id) s = s\<lparr>connections := connections s - {conn_id}\<rparr>"
| "serve_step ContextDone s = s\<lparr>ctx_done := True\<rparr>"

text \<open>The loop ends when accepting fails, without an error if the context has ended.\<close>

fun serve_loop :: "serve_event list \<Rightarrow> server \<Rightarrow> io_error option option \<times> server" where
  "serve_loop [] s = (None, s)"
| "serve_loop (ev # evs) s =
     (case ev of
        AcceptFailed e \<Rightarrow> (Some (if ctx_done s then None else Some e), s)
      | _ \<Rightarrow> serve_loop evs (serve_step ev s))"

text \<open>\<^verbatim>\<open>serve\<close>: \<open>tcp\<close> is the result of opening the TCP listener. Its result is \<open>None\<close> while it runs; when it
  returns, both listeners are closed.\<close>

datatype serve_error = BadBind | ServeListen listen_error | ServeTCP io_error | AcceptError io_error

definition serve :: "ipv6_parser \<Rightarrow> host \<Rightarrow> string \<Rightarrow> int \<Rightarrow> io_error option \<Rightarrow> serve_event list \<Rightarrow> rawIP \<Rightarrow>
    serve_error option option \<times> server \<times> rawIP" where
  "serve p6 h bind timeout tcp evs r =
     (let none = \<lparr>connections = {}, ctx_done = False\<rparr> in
      case netip_ParseAddr p6 bind of
        None \<Rightarrow> (Some (Some BadBind), none, r)
      | Some ip \<Rightarrow>
          if \<not> Is4 ip then (Some (Some BadBind), none, r)
          else case tool_listen h \<lparr>IP = ip, Port = 4000\<rparr> timeout True r of
            (Inl e, r) \<Rightarrow> (Some (Some (ServeListen e)), none, r)
          | (Inr ep, r) \<Rightarrow>
             (case tcp of
                Some e \<Rightarrow> (Some (Some (ServeTCP e)), none, Close r)
              | None \<Rightarrow>
                 (case serve_loop evs none of
                    (None, s) \<Rightarrow> (None, s, r)
                  | (Some err, s) \<Rightarrow> (Some (map_option AcceptError err), s, Close r))))"

section \<open>Percentiles\<close>

text \<open>The index of the quantile \<open>q\<close> (the nearest \<^verbatim>\<open>float64\<close> of it) among \<open>n\<close> samples.\<close>

definition quantile_index :: "rat \<Rightarrow> nat \<Rightarrow> nat" where
  "quantile_index q n = nat (\<lceil>fl (fl q * fl (of_nat n))\<rceil> - 1)"

text \<open>\<^verbatim>\<open>latencySummary\<close>; without samples its index is negative and it panics.\<close>

definition latencySummary :: "int list \<Rightarrow> (rat \<times> rat \<times> rat \<times> rat) option" where
  "latencySummary samples =
     (if samples = [] then None
      else
        let ordered = sort samples;
            quantile = (\<lambda>q. microseconds (ordered ! quantile_index q (length ordered)))
        in Some (quantile (1 / 2), quantile (95 / 100), quantile (99 / 100), quantile 1))"

section \<open>Measuring\<close>

datatype transport = Homa | TCP

text \<open>Both transports in each round, in an order that reverses from round to round.\<close>

definition transport_order :: "nat \<Rightarrow> transport list" where
  "transport_order rnd = (if even rnd then [TCP, Homa] else [Homa, TCP])"

definition bench_payload :: "nat \<Rightarrow> nat \<Rightarrow> bytes" where
  "bench_payload rnd n = map (\<lambda>i. of_nat (i * 31) XOR of_nat (i div 256) XOR of_nat rnd) [0..<n]"

record options =
  o_local :: string
  o_peer :: string
  o_tcppeer :: string
  o_sizes :: "int list"
  o_warmup :: int
  o_small :: int
  o_large :: int
  o_rounds :: int
  o_timeout :: int
  o_scope :: string

record job =
  j_round :: nat
  j_order :: nat
  j_transport :: transport
  j_bytes :: nat

text \<open>The nested loops of \<^verbatim>\<open>client\<close>, as the list of measurements they make, in order.\<close>

definition pair_jobs :: "nat \<Rightarrow> int \<Rightarrow> job list" where
  "pair_jobs rnd n =
     map (\<lambda>(position, transport). \<lparr>j_round = rnd, j_order = position + 1, j_transport = transport, j_bytes = nat n\<rparr>)
       (enumerate 0 (transport_order rnd))"

definition jobs :: "options \<Rightarrow> job list" where
  "jobs opts =
     concat (map (\<lambda>rnd. concat (map (pair_jobs rnd) (o_sizes opts))) [1..<Suc (nat (o_rounds opts))])"

record measurement =
  m_job :: job
  m_count :: nat
  m_elapsed :: rat
  m_payload_bytes :: int
  m_goodput :: "rat option"
  m_p50 :: rat
  m_p95 :: rat
  m_p99 :: rat
  m_max :: rat
  m_samples :: "int list"
  m_before :: "stats option"
  m_after :: "stats option"

text \<open>Megabits per second, in floating point; \<open>None\<close> is the infinity of a division by zero.\<close>

definition goodput :: "int \<Rightarrow> rat \<Rightarrow> rat option" where
  "goodput payload elapsed =
     (if elapsed = 0 then None else Some (fl (fl (fl (fl (of_int payload) * 8) / elapsed) / 1000000)))"

datatype client_error =
    LocalAddr addr_error
  | PeerAddr addr_error
  | BadTCPPeer
  | SameEndpoint
  | OpenOutput io_error
  | ListenFailed listen_error
  | DialFailed io_error
  | NoDelayFailed io_error
  | WarmupFailed job nat error
  | WarmupMismatch job
  | SampleFailed job nat nat error
  | SampleMismatch job nat
  | SummaryPanic job

text \<open>\<open>exchange_loop\<close> is the loop of warm-up calls and that of the measured calls, after \<open>i\<close> of them; \<open>k\<close> counts the
  calls of the run.\<close>

fun exchange_loop ::
  "caller \<Rightarrow> bool \<Rightarrow> job \<Rightarrow> bytes \<Rightarrow> nat \<Rightarrow> nat \<Rightarrow> nat \<Rightarrow> int list \<Rightarrow> client_error + nat \<times> int list" where
  "exchange_loop ex warm j payload 0 i k samples = Inr (k, samples)"
| "exchange_loop ex warm j payload (Suc n) i k samples =
     (case ex k payload of
        (Inl e, t) \<Rightarrow> Inl (if warm then WarmupFailed j (Suc i) e else SampleFailed j (Suc i) (i + Suc n) e)
      | (Inr reply, t) \<Rightarrow>
          if reply \<noteq> payload then Inl (if warm then WarmupMismatch j else SampleMismatch j (Suc i))
          else exchange_loop ex warm j payload n (Suc i) (Suc k) (samples @ [t]))"

text \<open>What the host contributes to the client beside its endpoint: creating the report, connecting, setting
  \<^verbatim>\<open>TCP_NODELAY\<close>.\<close>

record client_host = host +
  ch_create :: "io_error option"
  ch_dial :: "io_error option"
  ch_nodelay :: "io_error option"

definition measure_job ::
  "client_host \<Rightarrow> (transport \<Rightarrow> caller) \<Rightarrow> options \<Rightarrow> job \<Rightarrow> nat \<Rightarrow> client_error + nat \<times> measurement" where
  "measure_job h ex opts j k =
     (let payload = bench_payload (j_round j) (j_bytes j);
          n = samples_for (o_small opts) (o_large opts) (int (j_bytes j));
          exchange = ex (j_transport j) in
      case exchange_loop exchange True j payload (nat (o_warmup opts)) 0 k [] of
        Inl e \<Rightarrow> Inl e
      | Inr (k, _) \<Rightarrow>
         (case exchange_loop exchange False j payload (nat n) 0 k [] of
            Inl e \<Rightarrow> Inl e
          | Inr (k', samples) \<Rightarrow>
             (let elapsed = Seconds (h_since h k k');
                  total = int (2 * j_bytes j) * int (length samples);
                  stats = (\<lambda>k. if j_transport j = Homa then Some (h_stats h k) else None) in
              case latencySummary samples of
                None \<Rightarrow> Inl (SummaryPanic j)
              | Some (p50, p95, p99, mx) \<Rightarrow>
                  Inr (k', \<lparr>m_job = j, m_count = length samples, m_elapsed = elapsed, m_payload_bytes = total,
                    m_goodput = goodput total elapsed, m_p50 = p50, m_p95 = p95, m_p99 = p99, m_max = mx,
                    m_samples = samples, m_before = stats k, m_after = stats k'\<rparr>))))"

fun client_loop :: "client_host \<Rightarrow> (transport \<Rightarrow> caller) \<Rightarrow> options \<Rightarrow> job list \<Rightarrow> nat \<Rightarrow> measurement list \<Rightarrow>
    client_error + measurement list" where
  "client_loop h ex opts [] k results = Inr results"
| "client_loop h ex opts (j # js) k results =
     (case measure_job h ex opts j k of
        Inl e \<Rightarrow> Inl e
      | Inr (k, m) \<Rightarrow> client_loop h ex opts js k (results @ [m]))"

definition client_addrs :: "ipv6_parser \<Rightarrow> options \<Rightarrow> client_error + addr \<times> addr" where
  "client_addrs p6 opts =
     (case ParseAddr p6 (o_local opts) of
        Inl e \<Rightarrow> Inl (LocalAddr e)
      | Inr l \<Rightarrow>
         (case ParseAddr p6 (o_peer opts) of
            Inl e \<Rightarrow> Inl (PeerAddr e)
          | Inr peer \<Rightarrow>
             (case ParseAddrPort p6 (o_tcppeer opts) of
                None \<Rightarrow> Inl BadTCPPeer
              | Some (ip, port) \<Rightarrow>
                  if \<not> Is4 ip \<or> port = 0 \<or> ip \<noteq> IP peer then Inl BadTCPPeer
                  else if l = peer then Inl SameEndpoint
                  else Inr (l, peer))))"

text \<open>\<^verbatim>\<open>client\<close>; its deferred \<^verbatim>\<open>h.Close()\<close> closes the raw socket whatever follows.\<close>

definition bench_client ::
  "ipv6_parser \<Rightarrow> client_host \<Rightarrow> (transport \<Rightarrow> caller) \<Rightarrow> options \<Rightarrow> rawIP \<Rightarrow> (client_error + measurement list) \<times> rawIP" where
  "bench_client p6 h ex opts r =
     (case client_addrs p6 opts of
        Inl e \<Rightarrow> (Inl e, r)
      | Inr (l, peer) \<Rightarrow>
     (case ch_create h of
        Some e \<Rightarrow> (Inl (OpenOutput e), r)
      | None \<Rightarrow>
     (case tool_listen (host.truncate h) l (o_timeout opts) False r of
        (Inl e, r) \<Rightarrow> (Inl (ListenFailed e), r)
      | (Inr ep, r) \<Rightarrow>
         (case ch_dial h of
            Some e \<Rightarrow> (Inl (DialFailed e), Close r)
          | None \<Rightarrow>
             (case ch_nodelay h of
                Some e \<Rightarrow> (Inl (NoDelayFailed e), Close r)
              | None \<Rightarrow> (client_loop h ex opts (jobs opts) 0 [], Close r))))))"

text \<open>\<^verbatim>\<open>run\<close> in client mode, after its flags are parsed.\<close>

datatype run_error = ArgsError bench_error | ClientError client_error

definition bench_run ::
  "ipv6_parser \<Rightarrow> client_host \<Rightarrow> (transport \<Rightarrow> caller) \<Rightarrow> nat \<Rightarrow> int \<Rightarrow> string \<Rightarrow> options \<Rightarrow> rawIP \<Rightarrow>
   (run_error + measurement list) \<times> rawIP" where
  "bench_run p6 h ex nargs duration sizes opts r =
     (case bench_common nargs (o_timeout opts) duration of
        Some e \<Rightarrow> (Inl (ArgsError e), r)
      | None \<Rightarrow>
     (case bench_client_args sizes (o_warmup opts) (o_small opts) (o_large opts) (o_rounds opts) of
        Inl e \<Rightarrow> (Inl (ArgsError e), r)
      | Inr parsed \<Rightarrow>
     (case bench_client p6 h ex (opts\<lparr>o_sizes := parsed\<rparr>) r of
        (Inl e, r) \<Rightarrow> (Inl (ClientError e), r)
      | (Inr ms, r) \<Rightarrow> (Inr ms, r))))"

section \<open>The percentiles are exact\<close>

lemma fl_consts:
  "fl (1 / 2) = 1 / 2" "fl (95 / 100) \<le> 95 / 100" "fl (99 / 100) \<le> 99 / 100" "fl 1 = 1"
  by code_simp+

lemma ceiling_step:
  fixes a n :: nat
  assumes "0 < a * n"
  shows "of_int \<lceil>(of_nat (a * n) :: rat) / 100\<rceil> - 1 + 1 / 100 \<le> (of_nat (a * n) :: rat) / 100"
proof -
  let ?c = "\<lceil>(of_nat (a * n) :: rat) / 100\<rceil>"
  have "of_int ?c - 1 < (of_nat (a * n) :: rat) / 100" by linarith
  then have "(of_int (100 * (?c - 1)) :: rat) < of_int (int (a * n))" by simp
  then have "100 * (?c - 1) + 1 \<le> int (a * n)" by (simp only: of_int_less_iff)
  then have "(of_int (100 * (?c - 1) + 1) :: rat) \<le> of_int (int (a * n))" by (simp only: of_int_le_iff)
  then show ?thesis by simp
qed

lemma quantile_ceiling:
  assumes "0 < a" and "a \<le> 100" and "fl (of_nat a / 100) \<le> of_nat a / 100" and "0 < n" and "n < 2 ^ 40"
  shows "\<lceil>fl (fl (of_nat a / 100) * fl (of_nat n))\<rceil> = \<lceil>(of_nat (a * n) :: rat) / 100\<rceil>"
proof -
  define q where "q = (of_nat a / 100 :: rat)"
  define x where "x = (of_nat (a * n) / 100 :: rat)"
  define z where "z = fl q * of_nat n"
  have q0: "0 < q" using assms(1) by (simp add: q_def)
  have n: "fl (of_nat n) = of_nat n" using fl_integer [of "int n"] assms(5) by simp
  have qx: "q * of_nat n = x" by (simp add: q_def x_def)
  have x0: "0 < x" using assms by (simp add: x_def)
  have "\<bar>fl q - q\<bar> \<le> q / 2 ^ 53" by (rule fl_error [OF q0])
  then have fq: "q - q / 2 ^ 53 \<le> fl q" "fl q \<le> q" using assms(3) by (simp_all add: q_def abs_le_iff)
  have "(q - q / 2 ^ 53) * of_nat n \<le> z" unfolding z_def by (rule mult_right_mono [OF fq(1)]) simp
  then have zl: "x - x / 2 ^ 53 \<le> z" by (simp only: left_diff_distrib times_divide_eq_left qx)
  have zx: "z \<le> x" unfolding z_def qx [symmetric] by (rule mult_right_mono [OF fq(2)]) simp
  have z0: "0 < z" using zl x0 by (simp add: field_simps)
  have xb: "x \<le> 2 ^ 40"
  proof -
    have "a * n \<le> 100 * 2 ^ 40" using mult_le_mono [of a 100 n "2 ^ 40"] assms(2,5) by simp
    then have "(of_nat (a * n) :: rat) \<le> of_nat (100 * 2 ^ 40)" by (simp only: of_nat_le_iff)
    then show ?thesis by (simp add: x_def)
  qed
  have "\<lceil>x\<rceil> < 2 ^ 53" using xb by (simp add: ceiling_less_iff)
  then have up: "fl z \<le> of_int \<lceil>x\<rceil>" using fl_le_integer [OF z0, of "\<lceil>x\<rceil>"] zx le_of_int_ceiling [of x] by linarith
  have "\<bar>fl z - z\<bar> \<le> z / 2 ^ 53" by (rule fl_error [OF z0])
  then have "z - z / 2 ^ 53 \<le> fl z" using abs_ge_minus_self [of "fl z - z"] by linarith
  moreover have "z / 2 ^ 53 \<le> 1 / 8192" "x / 2 ^ 53 \<le> 1 / 8192" using xb zx by simp_all
  ultimately have "x - 1 / 4096 \<le> fl z" using zl by linarith
  moreover have "of_int \<lceil>x\<rceil> - 1 + 1 / 100 \<le> x" using ceiling_step [of a n] assms(1,4) by (simp add: x_def)
  ultimately have "of_int \<lceil>x\<rceil> - 1 < fl z" by linarith
  with up have "\<lceil>fl z\<rceil> = \<lceil>x\<rceil>" by (intro ceiling_unique) simp_all
  then show ?thesis by (simp add: z_def q_def x_def n)
qed

lemma ceiling_index:
  assumes "0 < m" and "i = nat (\<lceil>(of_nat m :: rat) / 100\<rceil> - 1)"
  shows "m \<le> 100 * Suc i" and "100 * i < m"
proof -
  define c where "c = \<lceil>(of_nat m :: rat) / 100\<rceil>"
  have "(0 :: rat) < of_nat m / 100" using assms(1) by simp
  then have ci: "int i = c - 1" using assms(2) unfolding c_def by linarith
  have "(of_nat m :: rat) / 100 \<le> of_int c" "of_int c - 1 < (of_nat m :: rat) / 100" unfolding c_def by linarith+
  then have "(of_int (int m) :: rat) \<le> of_int (100 * c)" "(of_int (100 * (c - 1)) :: rat) < of_int (int m)" by simp_all
  then have "int m \<le> 100 * c" "100 * (c - 1) < int m" by (simp_all only: of_int_le_iff of_int_less_iff)
  with ci show "m \<le> 100 * Suc i" and "100 * i < m" by simp_all
qed

lemma percentile_index:
  assumes "samples \<noteq> []" and "length samples < 2 ^ 40" and "0 < a" and "a \<le> 100"
    and "fl (of_nat a / 100) \<le> of_nat a / 100"
  shows "is_percentile a (sort samples ! quantile_index (of_nat a / 100) (length samples)) samples"
proof -
  let ?n = "length samples" and ?i = "quantile_index (of_nat a / 100) (length samples)"
  have n: "0 < ?n" "0 < a * ?n" using assms(1,3) by simp_all
  have "?i = nat (\<lceil>(of_nat (a * ?n) :: rat) / 100\<rceil> - 1)"
    unfolding quantile_index_def by (simp only: quantile_ceiling [OF assms(3,4,5) n(1) assms(2)])
  note i = ceiling_index [OF n(2) this]
  have "a * ?n \<le> 100 * ?n" by (rule mult_le_mono1 [OF assms(4)])
  then have "?i < ?n" using i(2) by linarith
  then have il: "?i < length (sort samples)" by simp
  have flt: "length (filter P (sort samples)) = length (filter P samples)" for P
    by (metis filter_sort length_sort)
  show ?thesis unfolding is_percentile_def
    using sorted_rank [of "sort samples" ?i] il i nth_mem [OF il] by (simp add: flt)
qed

lemma quantiles_exact:
  assumes "samples \<noteq> []" and "length samples < 2 ^ 40"
  shows "is_percentile 50 (sort samples ! quantile_index (1 / 2) (length samples)) samples"
    and "is_percentile 95 (sort samples ! quantile_index (95 / 100) (length samples)) samples"
    and "is_percentile 99 (sort samples ! quantile_index (99 / 100) (length samples)) samples"
    and "is_percentile 100 (sort samples ! quantile_index 1 (length samples)) samples"
proof -
  note index = percentile_index [OF assms]
  show "is_percentile 50 (sort samples ! quantile_index (1 / 2) (length samples)) samples"
    "is_percentile 95 (sort samples ! quantile_index (95 / 100) (length samples)) samples"
    "is_percentile 99 (sort samples ! quantile_index (99 / 100) (length samples)) samples"
    "is_percentile 100 (sort samples ! quantile_index 1 (length samples)) samples"
    using index [of 50] index [of 95] index [of 99] index [of 100] fl_consts by simp_all
qed

lemma summary_percentiles:
  assumes "length samples < 2 ^ 40" and some: "latencySummary samples = Some (p50, p95, p99, mx)"
  shows "\<exists>v50 v95 v99 v100. p50 = microseconds v50 \<and> is_percentile 50 v50 samples \<and>
         p95 = microseconds v95 \<and> is_percentile 95 v95 samples \<and>
         p99 = microseconds v99 \<and> is_percentile 99 v99 samples \<and>
         mx = microseconds v100 \<and> is_percentile 100 v100 samples"
proof -
  have ne: "samples \<noteq> []" using some by (auto simp: latencySummary_def)
  then show ?thesis using some quantiles_exact [OF ne assms(1)] by (auto simp: latencySummary_def Let_def)
qed

text \<open>The report's percentiles are the nearest-rank percentiles of the samples (and the maximum), whatever
  their order, in spite of the floating-point arithmetic that finds their index; without samples there is no
  summary.\<close>

lemma latency_nearest_rank:
  assumes "length samples < 2 ^ 40"
  shows "(latencySummary samples = None \<longleftrightarrow> samples = []) \<and>
    (\<forall>p50 p95 p99 mx. latencySummary samples = Some (p50, p95, p99, mx) \<longrightarrow>
      (\<exists>v50 v95 v99 v100. p50 = microseconds v50 \<and> is_percentile 50 v50 samples \<and>
         p95 = microseconds v95 \<and> is_percentile 95 v95 samples \<and>
         p99 = microseconds v99 \<and> is_percentile 99 v99 samples \<and>
         mx = microseconds v100 \<and> is_percentile 100 v100 samples))"
  using summary_percentiles [OF assms] by (simp add: latencySummary_def Let_def)

section \<open>Payload sizes\<close>

lemma parse_parts_iff:
  "parse_parts parts result = Inr ns \<longleftrightarrow>
     (\<exists>ms. ns = result @ ms \<and> map (\<lambda>p. Atoi (TrimSpace p)) parts = map Some ms \<and>
        distinct ms \<and> set ms \<inter> set result = {} \<and> (\<forall>m \<in> set ms. 1 \<le> m \<and> m \<le> maxMessage))"
proof (induction parts arbitrary: result)
  case (Cons part parts)
  show ?case
  proof (cases "Atoi (TrimSpace part)")
    case (Some n)
    show ?thesis
    proof (cases "n < 1 \<or> n > maxMessage \<or> n \<in> set result")
      case True
      then show ?thesis using Some by auto
    next
      case False
      have "parse_parts (part # parts) result = Inr ns \<longleftrightarrow> parse_parts parts (result @ [n]) = Inr ns"
        using Some False by simp
      also have "\<dots> \<longleftrightarrow> (\<exists>ms. ns = (result @ [n]) @ ms \<and> map (\<lambda>p. Atoi (TrimSpace p)) parts = map Some ms \<and>
          distinct ms \<and> set ms \<inter> set (result @ [n]) = {} \<and> (\<forall>m \<in> set ms. 1 \<le> m \<and> m \<le> maxMessage))"
        by (rule Cons.IH)
      also have "\<dots> \<longleftrightarrow> (\<exists>ms. ns = result @ (n # ms) \<and> map (\<lambda>p. Atoi (TrimSpace p)) (part # parts) = map Some (n # ms) \<and>
          distinct (n # ms) \<and> set (n # ms) \<inter> set result = {} \<and> (\<forall>m \<in> set (n # ms). 1 \<le> m \<and> m \<le> maxMessage))"
        using Some False by auto
      also have "\<dots> \<longleftrightarrow> (\<exists>ms. ns = result @ ms \<and> map (\<lambda>p. Atoi (TrimSpace p)) (part # parts) = map Some ms \<and>
          distinct ms \<and> set ms \<inter> set result = {} \<and> (\<forall>m \<in> set ms. 1 \<le> m \<and> m \<le> maxMessage))"
        (is "?l \<longleftrightarrow> ?r")
      proof
        assume ?r
        then obtain ms where ms: "ns = result @ ms" "map (\<lambda>p. Atoi (TrimSpace p)) (part # parts) = map Some ms"
            "distinct ms" "set ms \<inter> set result = {}" "\<forall>m \<in> set ms. 1 \<le> m \<and> m \<le> maxMessage" by blast
        then obtain ms' where "ms = n # ms'" using Some by (cases ms) auto
        with ms show ?l by blast
      qed blast
      finally show ?thesis .
    qed
  qed auto
qed auto

lemma Atoi_itoa: "int n < 2 ^ 63 \<Longrightarrow> Atoi (itoa n) = Some (int n)"
proof -
  assume n: "int n < 2 ^ 63"
  obtain c t where ct: "itoa n = c # t" by (cases "itoa n") auto
  then have "is_digit c" using itoa_digits [of n] by simp
  then have "c \<noteq> CHR ''-''" "c \<noteq> CHR ''+''" by (auto simp: is_digit_def)
  then show ?thesis using n ct itoa_digits [of n] decimal_itoa [of n] by (simp add: Atoi_def Let_def)
qed

lemma digits_printable: "list_all is_digit s \<Longrightarrow> \<forall>c \<in> set s. 32 < (of_char c :: nat) \<and> (of_char c :: nat) < 128"
  by (auto simp: list_all_iff is_digit_def)

text \<open>\<^verbatim>\<open>parseSizes\<close> accepts exactly the lists of at most 32 comma-separated numbers, white space around them
  allowed, that are distinct and between 1 and 1000000, and returns these numbers in order; every such list
  is accepted in its plain form.\<close>

lemma parse_sizes_exact:
  "(parseSizes s = Inr ns \<longleftrightarrow>
      length (split_comma s) \<le> 32 \<and> map (\<lambda>p. Atoi (TrimSpace p)) (split_comma s) = map Some ns \<and> distinct ns \<and>
      (\<forall>n \<in> set ns. 1 \<le> n \<and> n \<le> 1000000)) \<and>
   (ns \<noteq> [] \<and> length ns \<le> 32 \<and> distinct ns \<and> (\<forall>n \<in> set ns. 1 \<le> n \<and> n \<le> 1000000) \<longrightarrow>
      parseSizes (join_comma (map (\<lambda>n. itoa (nat n)) ns)) = Inr ns)"
proof
  show iff: "parseSizes s = Inr ns \<longleftrightarrow>
      length (split_comma s) \<le> 32 \<and> map (\<lambda>p. Atoi (TrimSpace p)) (split_comma s) = map Some ns \<and> distinct ns \<and>
      (\<forall>n \<in> set ns. 1 \<le> n \<and> n \<le> 1000000)" for s
    using parse_parts_iff [of "split_comma s" "[]" ns] by (auto simp: parseSizes_def Let_def maxMessage_def)
  show "ns \<noteq> [] \<and> length ns \<le> 32 \<and> distinct ns \<and> (\<forall>n \<in> set ns. 1 \<le> n \<and> n \<le> 1000000) \<longrightarrow>
      parseSizes (join_comma (map (\<lambda>n. itoa (nat n)) ns)) = Inr ns"
  proof
    let ?ps = "map (\<lambda>n. itoa (nat n)) ns"
    assume *: "ns \<noteq> [] \<and> length ns \<le> 32 \<and> distinct ns \<and> (\<forall>n \<in> set ns. 1 \<le> n \<and> n \<le> 1000000)"
    have "CHR '','' \<notin> set (itoa n)" for n using itoa_digits [of n] by (auto simp: list_all_iff is_digit_def)
    then have "\<forall>p \<in> set ?ps. CHR '','' \<notin> set p" by auto
    then have split: "split_comma (join_comma ?ps) = ?ps" using * by (intro split_join_comma) simp_all
    have "Atoi (TrimSpace (itoa (nat n))) = Some n" if "n \<in> set ns" for n
      using that * Atoi_itoa [of "nat n"] TrimSpace_same [OF digits_printable [OF itoa_digits]] by auto
    then have "map (\<lambda>p. Atoi (TrimSpace p)) ?ps = map Some ns" by simp
    then show "parseSizes (join_comma ?ps) = Inr ns" using * by (simp add: iff split)
  qed
qed

section \<open>The report is evidence\<close>

text \<open>The calls the report stands for, warm-ups included.\<close>

definition job_calls :: "(transport \<Rightarrow> caller) \<Rightarrow> options \<Rightarrow> job \<Rightarrow> planned list" where
  "job_calls ex opts j =
     (let p = bench_payload (j_round j) (j_bytes j) in
      replicate (nat (o_warmup opts)) (ex (j_transport j), p, False) @
      replicate (nat (samples_for (o_small opts) (o_large opts) (int (j_bytes j)))) (ex (j_transport j), p, True))"

definition run_calls :: "(transport \<Rightarrow> caller) \<Rightarrow> options \<Rightarrow> job list \<Rightarrow> planned list" where
  "run_calls ex opts js = concat (map (job_calls ex opts) js)"

lemma exchange_loop_echoed:
  "echoed k (replicate n (ex, p, b)) \<Longrightarrow>
     exchange_loop ex warm j p n i k s = Inr (k + n, s @ timed k (replicate n (ex, p, True)))"
  "\<not> echoed k (replicate n (ex, p, b)) \<Longrightarrow> \<exists>e. exchange_loop ex warm j p n i k s = Inl e"
  by (induction n arbitrary: i k s) (auto split: prod.splits sum.splits)

text \<open>What a line of the report promises: the measured calls are those from the \<open>k\<close>-th of the run on.\<close>

definition reported :: "client_host \<Rightarrow> options \<Rightarrow> nat \<Rightarrow> measurement \<Rightarrow> bool" where
  "reported h opts k m \<longleftrightarrow>
     m_elapsed m = Seconds (h_since h k (k + m_count m)) \<and> m_goodput m = goodput (m_payload_bytes m) (m_elapsed m) \<and>
     m_before m = (if j_transport (m_job m) = Homa then Some (h_stats h k) else None) \<and>
     m_after m = (if j_transport (m_job m) = Homa then Some (h_stats h (k + m_count m)) else None) \<and>
     int (m_count m) = samples_for (o_small opts) (o_large opts) (int (j_bytes (m_job m))) \<and>
     length (m_samples m) = m_count m \<and> m_payload_bytes m = 2 * int (j_bytes (m_job m)) * int (m_count m) \<and>
     latencySummary (m_samples m) = Some (m_p50 m, m_p95 m, m_p99 m, m_max m)"

text \<open>A report whose first line begins with warm-ups at the \<open>k\<close>-th call.\<close>

fun reports :: "client_host \<Rightarrow> options \<Rightarrow> nat \<Rightarrow> measurement list \<Rightarrow> bool" where
  "reports h opts k [] \<longleftrightarrow> True"
| "reports h opts k (m # ms) \<longleftrightarrow>
     reported h opts (k + nat (o_warmup opts)) m \<and> reports h opts (k + nat (o_warmup opts) + m_count m) ms"

lemma reports_member: "reports h opts k ms \<Longrightarrow> m \<in> set ms \<Longrightarrow> \<exists>k. reported h opts k m"
  by (induction h opts k ms rule: reports.induct) auto

lemma measure_job_echoed:
  assumes "0 < samples_for (o_small opts) (o_large opts) (int (j_bytes j))"
  shows "echoed k (job_calls ex opts j) \<Longrightarrow>
      \<exists>m. measure_job h ex opts j k = Inr (k + length (job_calls ex opts j), m) \<and> m_job m = j \<and>
        reported h opts (k + nat (o_warmup opts)) m \<and> length (job_calls ex opts j) = nat (o_warmup opts) + m_count m \<and>
        m_samples m = timed k (job_calls ex opts j)"
    and "\<not> echoed k (job_calls ex opts j) \<Longrightarrow> \<exists>e. measure_job h ex opts j k = Inl e"
proof -
  define p w n f where defs: "p = bench_payload (j_round j) (j_bytes j)" "w = nat (o_warmup opts)"
    "n = nat (samples_for (o_small opts) (o_large opts) (int (j_bytes j)))" "f = ex (j_transport j)"
  have calls: "job_calls ex opts j = replicate w (f, p, False) @ replicate n (f, p, True)"
    by (simp add: job_calls_def Let_def defs)
  have n: "0 < n" "int n = samples_for (o_small opts) (o_large opts) (int (j_bytes j))" using assms by (simp_all add: defs)
  have quiet: "timed k (replicate w (f, p, False)) = []" for k by (induction w arbitrary: k) auto
  let ?s = "timed (k + w) (replicate n (f, p, True))"
  have s: "length ?s = n" by simp
  note loop = exchange_loop_echoed [where ex = f and p = p and j = j]
  show "\<exists>m. measure_job h ex opts j k = Inr (k + length (job_calls ex opts j), m) \<and> m_job m = j \<and>
      reported h opts (k + nat (o_warmup opts)) m \<and> length (job_calls ex opts j) = nat (o_warmup opts) + m_count m \<and>
      m_samples m = timed k (job_calls ex opts j)" if e: "echoed k (job_calls ex opts j)"
  proof -
    have "echoed k (replicate w (f, p, False))" "echoed (k + w) (replicate n (f, p, True))" using e by (simp_all add: calls)
    note l = loop(1) [OF this(1), where s = "[]"] loop(1) [OF this(2), where s = "[]"]
    have "?s \<noteq> []" using n(1) s by force
    then obtain p50 p95 p99 mx where "latencySummary ?s = Some (p50, p95, p99, mx)"
      by (cases "latencySummary ?s") (auto simp: latencySummary_def Let_def)
    with l n s show ?thesis
      by (simp add: measure_job_def Let_def defs(1,2,3,4) [symmetric] calls quiet reported_def)
  qed
  show "\<exists>e. measure_job h ex opts j k = Inl e" if "\<not> echoed k (job_calls ex opts j)"
  proof (cases "echoed k (replicate w (f, p, False))")
    case True
    then have "\<not> echoed (k + w) (replicate n (f, p, True))" using that by (simp add: calls)
    from loop(2) [OF this, of False 0 "[]"] loop(1) [OF True, of True 0 "[]"] show ?thesis
      by (auto simp: measure_job_def Let_def defs(1,2,3,4) [symmetric])
  next
    case False
    from loop(2) [OF this, of True 0 "[]"] show ?thesis by (auto simp: measure_job_def Let_def defs(1,2,3,4) [symmetric])
  qed
qed

lemma client_loop_echoed:
  assumes "0 < o_small opts" and "0 < o_large opts"
  shows "echoed k (run_calls ex opts js) \<Longrightarrow>
      \<exists>ms. client_loop h ex opts js k results = Inr (results @ ms) \<and> map m_job ms = js \<and> reports h opts k ms \<and>
        concat (map m_samples ms) = timed k (run_calls ex opts js)"
    and "\<not> echoed k (run_calls ex opts js) \<Longrightarrow> \<exists>e. client_loop h ex opts js k results = Inl e"
proof (induction js arbitrary: k results)
  case (Cons j js)
  have pos: "0 < samples_for (o_small opts) (o_large opts) (int (j_bytes j))" using assms by (simp add: samples_for_def)
  have calls: "run_calls ex opts (j # js) = job_calls ex opts j @ run_calls ex opts js" by (simp add: run_calls_def)
  note job = measure_job_echoed [OF pos, of _ ex h]
  {
    case 1
    then have e: "echoed k (job_calls ex opts j)" "echoed (k + length (job_calls ex opts j)) (run_calls ex opts js)"
      by (simp_all add: calls)
    obtain m where m: "measure_job h ex opts j k = Inr (k + length (job_calls ex opts j), m)" "m_job m = j"
      "reported h opts (k + nat (o_warmup opts)) m" "length (job_calls ex opts j) = nat (o_warmup opts) + m_count m"
      "m_samples m = timed k (job_calls ex opts j)" using job(1) [OF e(1)] by blast
    from Cons.IH(1) [OF e(2), of "results @ [m]"] obtain ms where
      "client_loop h ex opts js (k + length (job_calls ex opts j)) (results @ [m]) = Inr ((results @ [m]) @ ms)"
      "map m_job ms = js" "reports h opts (k + length (job_calls ex opts j)) ms"
      "concat (map m_samples ms) = timed (k + length (job_calls ex opts j)) (run_calls ex opts js)" by blast
    then show ?case using m by (intro exI [of _ "m # ms"]) (simp add: calls add.assoc)
  next
    case 2
    show ?case
    proof (cases "echoed k (job_calls ex opts j)")
      case True
      then have "\<not> echoed (k + length (job_calls ex opts j)) (run_calls ex opts js)" using 2 by (simp add: calls)
      from Cons.IH(2) [OF this] job(1) [OF True] show ?thesis by auto
    next
      case False
      from job(2) [OF this] show ?thesis by auto
    qed
  }
qed (simp_all add: run_calls_def)

lemma foldl_plus: "foldl (\<lambda>s n. s + f n) (a :: int) xs = a + sum_list (map f xs)"
  by (induction xs arbitrary: a) auto

lemma kept_calls:
  "length (filter (\<lambda>(f, p, keep). keep) (run_calls ex opts js)) =
     sum_list (map (\<lambda>j. nat (samples_for (o_small opts) (o_large opts) (int (j_bytes j)))) js)"
  by (induction js) (simp_all add: run_calls_def job_calls_def Let_def)

lemma kept_total:
  assumes "0 \<le> o_small opts" and "0 \<le> o_large opts" and "0 \<le> o_rounds opts" and "\<forall>n \<in> set (o_sizes opts). 0 \<le> n"
  shows "int (length (timed k (run_calls ex opts (jobs opts)))) =
    total_samples (o_sizes opts) (o_small opts) (o_large opts) (o_rounds opts)"
proof -
  define f where "f n = samples_for (o_small opts) (o_large opts) n" for n
  have f: "0 \<le> f n" for n using assms by (simp add: f_def samples_for_def)
  have sum0: "0 \<le> sum_list (map f ns)" for ns by (induction ns) (simp_all add: f)
  have two: "sum_list (map (\<lambda>j. nat (f (int (j_bytes j)))) (pair_jobs rnd n)) = 2 * nat (f n)" if "0 \<le> n" for rnd n
    using that by (simp add: pair_jobs_def transport_order_def)
  have sizes: "sum_list (map (\<lambda>j. nat (f (int (j_bytes j)))) (concat (map (pair_jobs rnd) ns))) =
      2 * nat (sum_list (map f ns))" if "\<forall>n \<in> set ns. 0 \<le> n" for rnd ns
    using that
  proof (induction ns)
    case (Cons n ns)
    show ?case using Cons two [of n rnd] f [of n] sum0 [of ns] by (simp add: nat_add_distrib)
  qed simp
  have rounds: "sum_list (map (\<lambda>j. nat (f (int (j_bytes j)))) (concat (map (\<lambda>rnd. concat (map (pair_jobs rnd)
      (o_sizes opts))) rs))) = length rs * (2 * nat (sum_list (map f (o_sizes opts))))" for rs
    by (induction rs) (simp_all add: sizes [OF assms(4)])
  have "length (timed k (run_calls ex opts (jobs opts))) = nat (o_rounds opts) * (2 * nat (sum_list (map f (o_sizes opts))))"
    unfolding length_timed kept_calls jobs_def f_def [symmetric] rounds by simp
  moreover have "total_samples (o_sizes opts) (o_small opts) (o_large opts) (o_rounds opts) =
      sum_list (map f (o_sizes opts)) * (o_rounds opts * 2)"
    by (simp add: total_samples_def foldl_plus f_def [symmetric] mult.assoc sum_list_mult_const)
  ultimately show ?thesis using assms(3) sum0 [of "o_sizes opts"] by simp
qed

lemma bench_client_args_ok:
  assumes "bench_client_args sizes w s l rs = Inr parsed"
  shows "parseSizes sizes = Inr parsed" and "0 < s" and "0 < l" and "s \<le> 100000" and "l \<le> 10000" and "0 < rs"
    and "total_samples parsed s l rs \<le> 2000000" and "\<forall>n \<in> set parsed. 1 \<le> n \<and> n \<le> 1000000"
    and "rs \<le> 20" and "length parsed \<le> 32"
proof -
  show parsed: "parseSizes sizes = Inr parsed" and "0 < s" and "0 < l" and "s \<le> 100000" and "l \<le> 10000" and "0 < rs"
    and "total_samples parsed s l rs \<le> 2000000" and "rs \<le> 20"
    using assms by (auto simp: bench_client_args_def split: sum.splits if_splits)
  show "\<forall>n \<in> set parsed. 1 \<le> n \<and> n \<le> 1000000" using parsed by (simp add: parse_sizes_exact)
  show "length parsed \<le> 32" using parsed unfolding parse_sizes_exact [THEN conjunct1] by (metis length_map)
qed

lemma bench_client_cases:
  assumes "bench_client p6 h ex opts r = (Inr ms, r')"
  shows "client_loop h ex opts (jobs opts) 0 [] = Inr ms" and "\<not> ri_open r'"
  using assms
  by (auto simp: bench_client_def Close_def split: sum.splits option.splits prod.splits)

definition bench_plan :: "(transport \<Rightarrow> caller) \<Rightarrow> options \<Rightarrow> int list \<Rightarrow> planned list" where
  "bench_plan ex opts parsed = run_calls ex (opts\<lparr>o_sizes := parsed\<rparr>) (jobs (opts\<lparr>o_sizes := parsed\<rparr>))"

lemma bench_run_succeeds:
  assumes "bench_common nargs (o_timeout opts) duration = None"
    and args: "bench_client_args sizes (o_warmup opts) (o_small opts) (o_large opts) (o_rounds opts) = Inr parsed"
    and addrs: "client_addrs p6 opts = Inr (l, peer)"
    and "h_listen h = None" and "h_setbuf h = None" and "ch_create h = None" and "ch_dial h = None"
    and "ch_nodelay h = None" and "5 * Millisecond \<le> o_timeout opts" and e: "echoed 0 (bench_plan ex opts parsed)"
  shows "\<exists>ms r'. bench_run p6 h ex nargs duration sizes opts r = (Inr ms, r')"
proof -
  let ?o = "opts\<lparr>o_sizes := parsed\<rparr>"
  have t: "o_timeout opts \<le> Minute" using assms(1) by (auto simp: bench_common_def split: if_splits)
  have l: "Is4 (IP l)" "Port l \<noteq> 0" using addrs
    by (auto simp: client_addrs_def ParseAddr_def split: sum.splits option.splits if_splits prod.splits)
  have addrs': "client_addrs p6 ?o = Inr (l, peer)" using addrs
    by (simp add: client_addrs_def cong: sum.case_cong option.case_cong)
  have t0: "o_timeout opts \<noteq> 0" using assms(9) by (simp add: duration_defs)
  have "\<exists>e r'. tool_listen (host.truncate h) l (o_timeout opts) False r = (Inr e, r')"
    using tool_listen_ok(1) [OF t0 l, of False "host.truncate h" r] t assms by (simp add: host.truncate_def)
  then obtain ep r' where ls: "tool_listen (host.truncate h) l (o_timeout opts) False r = (Inr ep, r')" by blast
  have "\<exists>ms. client_loop h ex ?o (jobs ?o) 0 [] = Inr ms"
    using client_loop_echoed(1) [of ?o 0 ex "jobs ?o" h "[]"] bench_client_args_ok [OF args] e by (auto simp: bench_plan_def)
  then show ?thesis using assms ls addrs' by (auto simp: bench_run_def bench_client_def)
qed

lemma percentiles_reported:
  assumes "reported h opts k m" and "o_small opts \<le> 100000" and "o_large opts \<le> 10000"
  shows "\<exists>v50 v95 v99 v100. m_p50 m = microseconds v50 \<and> is_percentile 50 v50 (m_samples m) \<and>
    m_p95 m = microseconds v95 \<and> is_percentile 95 v95 (m_samples m) \<and>
    m_p99 m = microseconds v99 \<and> is_percentile 99 v99 (m_samples m) \<and>
    m_max m = microseconds v100 \<and> is_percentile 100 v100 (m_samples m)"
proof -
  have "int (length (m_samples m)) \<le> 100000"
    using assms by (auto simp: reported_def samples_for_def split: if_splits)
  then show ?thesis using assms(1) by (intro summary_percentiles) (simp_all add: reported_def)
qed

lemma reports_sizes: "reports h (opts\<lparr>o_sizes := ns\<rparr>) k ms \<longleftrightarrow> reports h opts k ms"
  by (induction ms arbitrary: k) (simp_all add: reported_def)

text \<open>What a successful run has done.\<close>

lemma bench_run_reports:
  assumes "bench_run p6 h ex nargs duration sizes opts r = (Inr ms, r')"
  obtains parsed where "bench_client_args sizes (o_warmup opts) (o_small opts) (o_large opts) (o_rounds opts) = Inr parsed"
    and "echoed 0 (bench_plan ex opts parsed)" and "map m_job ms = jobs (opts\<lparr>o_sizes := parsed\<rparr>)" and "reports h opts 0 ms"
    and "concat (map m_samples ms) = timed 0 (bench_plan ex opts parsed)"
    and "int (length (concat (map m_samples ms))) = total_samples parsed (o_small opts) (o_large opts) (o_rounds opts)"
    and "\<not> ri_open r'"
proof -
  obtain parsed where args: "bench_client_args sizes (o_warmup opts) (o_small opts) (o_large opts) (o_rounds opts) = Inr parsed"
      and cl: "bench_client p6 h ex (opts\<lparr>o_sizes := parsed\<rparr>) r = (Inr ms, r')"
    using assms by (auto simp: bench_run_def split: option.splits sum.splits prod.splits)
  note ok = bench_client_args_ok [OF args] and cl = bench_client_cases [OF cl]
  let ?o = "opts\<lparr>o_sizes := parsed\<rparr>"
  have pos: "0 < o_small ?o" "0 < o_large ?o" using ok by simp_all
  note loop = client_loop_echoed [OF pos, where h = h and ex = ex and js = "jobs ?o" and k = 0 and results = "[]"]
  have e: "echoed 0 (run_calls ex ?o (jobs ?o))" using loop(2) cl(1) by auto
  then have res: "map m_job ms = jobs ?o" "reports h ?o 0 ms"
      "concat (map m_samples ms) = timed 0 (run_calls ex ?o (jobs ?o))" using loop(1) cl(1) by auto
  have "int (length (timed 0 (run_calls ex ?o (jobs ?o)))) = total_samples parsed (o_small opts) (o_large opts) (o_rounds opts)"
    using kept_total [of ?o 0 ex] ok by fastforce
  then show thesis using that [OF args] e res cl(2) by (simp add: bench_plan_def reports_sizes)
qed

lemma measured_job:
  assumes "map m_job ms = jobs (opts\<lparr>o_sizes := parsed\<rparr>)" and "m \<in> set ms" and "\<forall>n \<in> set parsed. 1 \<le> n \<and> n \<le> 1000000"
  shows "1 \<le> j_bytes (m_job m)" and "j_bytes (m_job m) \<le> 1000000"
proof -
  have "m_job m \<in> set (jobs (opts\<lparr>o_sizes := parsed\<rparr>))" using assms(1,2) by (metis image_eqI set_map)
  then obtain n where "n \<in> set parsed" "j_bytes (m_job m) = nat n" by (auto simp: jobs_def pair_jobs_def)
  then show "1 \<le> j_bytes (m_job m)" "j_bytes (m_job m) \<le> 1000000" using assms(3) by auto
qed

text \<open>The goodput is eight bits for every payload byte, over the time: exact to 50 bits in spite of four roundings.\<close>

lemma goodput_near:
  assumes "0 < P" and "8 * P < 2 ^ 53" and "0 < d" and "d < 2 ^ 63"
  shows "\<exists>g. goodput P (Seconds d) = Some g \<and> near (1 / 2 ^ 50) g (8000 * of_int P / of_int d)"
proof -
  let ?E = "Seconds d" and ?x = "of_int d / 1000000000 :: rat" and ?n = "of_int (P * 8) :: rat"
  have n: "fl (fl (of_int P) * 8) = ?n" using assms fl_integer [of P] fl_integer [of "P * 8"] by simp
  have pos: "0 < ?E" "0 < ?x" "0 < ?n" using assms Seconds_pos by simp_all
  have "near (4 / 2 ^ 53) (?n / ?E) (?n / ?x)"
    by (rule near_inverse [OF Seconds_near]) (use assms in simp_all)
  from near_trans [OF near_fl this, of "6 / 2 ^ 53"] have "near (6 / 2 ^ 53) (fl (?n / ?E)) (?n / ?x)" using pos by simp
  then have q: "near (6 / 2 ^ 53) (fl (?n / ?E) / 1000000) (?n / ?x / 1000000)" by (rule near_scale) simp
  have "0 < fl (?n / ?E) / 1000000" by (rule near_pos [OF q]) (use pos in simp_all)
  then have "near (8 / 2 ^ 53) (fl (fl (?n / ?E) / 1000000)) (?n / ?x / 1000000)"
    by (intro near_trans [OF near_fl q]) (use pos in simp_all)
  moreover have "?n / ?x / 1000000 = 8000 * of_int P / of_int d" by simp
  ultimately show ?thesis using pos(1) by (simp add: goodput_def n)
qed

lemma goodput_reported:
  assumes "reported h opts k m" and "o_small opts \<le> 100000" and "o_large opts \<le> 10000" and "0 < o_small opts" and "0 < o_large opts"
    and "1 \<le> j_bytes (m_job m)" and "j_bytes (m_job m) \<le> 1000000"
  shows "\<exists>d. m_elapsed m = Seconds d \<and> (0 < d \<and> d < 2 ^ 63 \<longrightarrow>
    (\<exists>g. m_goodput m = Some g \<and> near (1 / 2 ^ 50) g (8000 * of_int (m_payload_bytes m) / of_int d)))"
proof -
  let ?c = "int (m_count m)" and ?b = "int (j_bytes (m_job m))"
  have r: "m_elapsed m = Seconds (h_since h k (k + m_count m))" "m_goodput m = goodput (m_payload_bytes m) (m_elapsed m)"
      "m_payload_bytes m = 2 * ?b * ?c" "?c = samples_for (o_small opts) (o_large opts) ?b"
    using assms(1) by (simp_all add: reported_def)
  then have c: "1 \<le> ?c" "?c \<le> 100000" using assms by (simp_all add: samples_for_def)
  have "?b * ?c \<le> 1000000 * 100000" using c assms by (intro mult_mono) simp_all
  moreover have "0 < ?b * ?c" using c assms by simp
  ultimately have "0 < m_payload_bytes m" "8 * m_payload_bytes m < 2 ^ 53" by (simp_all add: r(3) mult.commute)
  from goodput_near [OF this] show ?thesis using r(1,2) by auto
qed

text \<open>C26. A run of the benchmark client that reports success made exactly the planned measurements, in order, each
  call of it, warm-ups included, returned its own payload; the samples of the report are the times of the
  measured calls, in order, their number is the workload that was checked against two million, the
  percentiles are those of the samples, and the goodput is that of the payload and the time of the measured
  calls, to 50 bits. A run that passes the argument checks, opens its sockets and gets every
  payload back does report success; the raw socket is closed at the end.\<close>

theorem bench_evidence:
  "(\<forall>ms r'. bench_run p6 h ex nargs duration sizes opts r = (Inr ms, r') \<longrightarrow>
      (\<exists>parsed. parseSizes sizes = Inr parsed \<and> map m_job ms = jobs (opts\<lparr>o_sizes := parsed\<rparr>) \<and>
        echoed 0 (bench_plan ex opts parsed) \<and> concat (map m_samples ms) = timed 0 (bench_plan ex opts parsed) \<and>
        int (length (concat (map m_samples ms))) =
          total_samples parsed (o_small opts) (o_large opts) (o_rounds opts) \<and>
        length (concat (map m_samples ms)) \<le> 2000000) \<and>
      reports h opts 0 ms \<and>
      (\<forall>m \<in> set ms.
        (\<exists>d. m_elapsed m = Seconds d \<and> (0 < d \<and> d < 2 ^ 63 \<longrightarrow>
          (\<exists>g. m_goodput m = Some g \<and> near (1 / 2 ^ 50) g (8000 * of_int (m_payload_bytes m) / of_int d)))) \<and>
        (\<exists>v50 v95 v99 v100. m_p50 m = microseconds v50 \<and> is_percentile 50 v50 (m_samples m) \<and>
          m_p95 m = microseconds v95 \<and> is_percentile 95 v95 (m_samples m) \<and>
          m_p99 m = microseconds v99 \<and> is_percentile 99 v99 (m_samples m) \<and>
          m_max m = microseconds v100 \<and> is_percentile 100 v100 (m_samples m))) \<and>
      \<not> ri_open r') \<and>
    (\<forall>parsed l peer. bench_common nargs (o_timeout opts) duration = None \<and>
       bench_client_args sizes (o_warmup opts) (o_small opts) (o_large opts) (o_rounds opts) = Inr parsed \<and>
       client_addrs p6 opts = Inr (l, peer) \<and> h_listen h = None \<and> h_setbuf h = None \<and> ch_create h = None \<and>
       ch_dial h = None \<and> ch_nodelay h = None \<and> 5 * Millisecond \<le> o_timeout opts \<and> echoed 0 (bench_plan ex opts parsed) \<longrightarrow>
       (\<exists>ms r'. bench_run p6 h ex nargs duration sizes opts r = (Inr ms, r')))"
proof (intro conjI allI impI ballI)
  fix ms r'
  assume run: "bench_run p6 h ex nargs duration sizes opts r = (Inr ms, r')"
  then obtain parsed where args: "bench_client_args sizes (o_warmup opts) (o_small opts) (o_large opts) (o_rounds opts) = Inr parsed"
    and e: "echoed 0 (bench_plan ex opts parsed)" and js: "map m_job ms = jobs (opts\<lparr>o_sizes := parsed\<rparr>)" and reps: "reports h opts 0 ms"
    and ts: "concat (map m_samples ms) = timed 0 (bench_plan ex opts parsed)"
      "int (length (concat (map m_samples ms))) = total_samples parsed (o_small opts) (o_large opts) (o_rounds opts)"
    and shut: "\<not> ri_open r'"
    by (rule bench_run_reports)
  note ok = bench_client_args_ok [OF args]
  show "\<exists>parsed. parseSizes sizes = Inr parsed \<and> map m_job ms = jobs (opts\<lparr>o_sizes := parsed\<rparr>) \<and>
        echoed 0 (bench_plan ex opts parsed) \<and> concat (map m_samples ms) = timed 0 (bench_plan ex opts parsed) \<and>
        int (length (concat (map m_samples ms))) = total_samples parsed (o_small opts) (o_large opts) (o_rounds opts) \<and>
        length (concat (map m_samples ms)) \<le> 2000000"
    using ok(1,7) e js ts by (intro exI [of _ parsed]) simp
  show "\<not> ri_open r'" by (rule shut)
  show "reports h opts 0 ms" by (rule reps)
  fix m
  assume m: "m \<in> set ms"
  then obtain k where rep: "reported h opts k m" using reports_member [OF reps] by blast
  show "\<exists>d. m_elapsed m = Seconds d \<and> (0 < d \<and> d < 2 ^ 63 \<longrightarrow>
          (\<exists>g. m_goodput m = Some g \<and> near (1 / 2 ^ 50) g (8000 * of_int (m_payload_bytes m) / of_int d)))"
    by (intro goodput_reported [OF rep]) (use ok measured_job [OF js m ok(8)] in simp_all)
  show "\<exists>v50 v95 v99 v100. m_p50 m = microseconds v50 \<and> is_percentile 50 v50 (m_samples m) \<and>
          m_p95 m = microseconds v95 \<and> is_percentile 95 v95 (m_samples m) \<and>
          m_p99 m = microseconds v99 \<and> is_percentile 99 v99 (m_samples m) \<and>
          m_max m = microseconds v100 \<and> is_percentile 100 v100 (m_samples m)"
    by (rule percentiles_reported [OF rep]) (use ok in simp_all)
next
  fix parsed l peer
  assume *: "bench_common nargs (o_timeout opts) duration = None \<and>
       bench_client_args sizes (o_warmup opts) (o_small opts) (o_large opts) (o_rounds opts) = Inr parsed \<and>
       client_addrs p6 opts = Inr (l, peer) \<and> h_listen h = None \<and> h_setbuf h = None \<and> ch_create h = None \<and>
       ch_dial h = None \<and> ch_nodelay h = None \<and> 5 * Millisecond \<le> o_timeout opts \<and> echoed 0 (bench_plan ex opts parsed)"
  show "\<exists>ms r'. bench_run p6 h ex nargs duration sizes opts r = (Inr ms, r')"
    by (rule bench_run_succeeds) (use * in \<open>auto simp: bench_plan_def\<close>)
qed

lemma sample_texts:
  "ParseAddrPort p6 ''1.2.3.4:3'' = Some (V4 0x01020304, 3)" "ParseAddrPort p6 ''1.2.3.4:2'' = Some (V4 0x01020304, 2)"
  "ParseAddrPort p6 ''1.2.3.4:9'' = Some (V4 0x01020304, 9)"
proof -
  have a: "ipv4_text 0x01020304 = ''1.2.3.4''"
    by (simp add: ipv4_text_def PutUint32_def itoa.simps digit_char_def) code_simp
  have d: "itoa 2 = ''2''" "itoa 3 = ''3''" "itoa 9 = ''9''" by code_simp+
  show "ParseAddrPort p6 ''1.2.3.4:3'' = Some (V4 0x01020304, 3)" "ParseAddrPort p6 ''1.2.3.4:2'' = Some (V4 0x01020304, 2)"
    "ParseAddrPort p6 ''1.2.3.4:9'' = Some (V4 0x01020304, 9)"
    by (subst ParseAddrPort_IPv4; simp add: a d exI [of _ 0])+
qed

definition sample_options :: options where
  "sample_options = \<lparr>o_local = ''1.2.3.4:3'', o_peer = ''1.2.3.4:2'', o_tcppeer = ''1.2.3.4:9'', o_sizes = [],
     o_warmup = 1, o_small = 2, o_large = 1, o_rounds = 1, o_timeout = 10000000, o_scope = ''lab''\<rparr>"

definition sample_client_host :: client_host where
  "sample_client_host = \<lparr>h_listen = None, h_setbuf = None, h_seed = 1, h_clock = int, h_order = (\<lambda>_ ks. ks),
     h_since = (\<lambda>k k'. 1000 * int (k' - k)), h_stats = (\<lambda>_. zero_stats), ch_create = None, ch_dial = None, ch_nodelay = None\<rparr>"

theorem bench_evidence_witness:
  "\<exists>ms r'. bench_run (\<lambda>_. None) sample_client_host (\<lambda>t k p. (Inr p, 1000 * int k)) 0 1000000000 ''8'' sample_options
      sample_raw = (Inr ms, r') \<and> concat (map m_samples ms) = [1000, 2000, 4000, 5000]"
proof -
  let ?ex = "\<lambda>t k p. (Inr p, 1000 * int k)"
  let ?run = "bench_run (\<lambda>_. None) sample_client_host ?ex 0 1000000000 ''8'' sample_options sample_raw"
  have parsed: "parseSizes ''8'' = Inr [8]" by code_simp
  have args: "bench_client_args ''8'' 1 2 1 1 = Inr [8]"
    by (simp add: bench_client_args_def parsed total_samples_def samples_for_def)
  have addrs: "client_addrs (\<lambda>_. None) sample_options =
      Inr (\<lparr>IP = V4 0x01020304, Port = 3\<rparr>, \<lparr>IP = V4 0x01020304, Port = 2\<rparr>)"
    by (simp add: client_addrs_def sample_options_def ParseAddr_def sample_texts)
  have plan: "echoed 0 (bench_plan ?ex sample_options [8])"
      "timed 0 (bench_plan ?ex sample_options [8]) = [1000, 2000, 4000, 5000]"
    by (simp_all add: bench_plan_def run_calls_def job_calls_def jobs_def pair_jobs_def transport_order_def
        sample_options_def samples_for_def Let_def numeral_2_eq_2)
  have "bench_common 0 10000000 1000000000 = None" by (simp add: bench_common_def duration_defs)
  then have "\<exists>ms r'. ?run = (Inr ms, r')"
    using bench_evidence [of "\<lambda>_. None" sample_client_host ?ex 0 1000000000 "''8''" sample_options sample_raw] args addrs plan
    by (simp add: sample_options_def sample_client_host_def duration_defs)
  then show ?thesis
    using bench_evidence [of "\<lambda>_. None" sample_client_host ?ex 0 1000000000 "''8''" sample_options sample_raw] plan parsed
    by auto
qed

section \<open>The echo server over TCP\<close>

definition tcp_ok :: "bytes \<Rightarrow> bool" where
  "tcp_ok p \<longleftrightarrow> 1 \<le> length p \<and> length p \<le> 1000000"

interpretation tcp_link: framing length_prefixed tcp_read tcp_ok
proof
  fix f c rest
  assume "tcp_ok f"
  then have *: "1 \<le> (of_nat (length f) :: u32)" "(of_nat (length f) :: u32) \<le> 1000000" "length f < 2 ^ 32"
    by (simp_all add: tcp_ok_def word_le_nat_alt unsigned_of_nat take_bit_nat_eq_self)
  show "c_in c = length_prefixed f @ rest \<Longrightarrow> tcp_read c = (Inr f, c\<lparr>c_in := rest\<rparr>)"
    unfolding tcp_read_def by (rule read_sized_framing(1) [OF *])
  show "k < length (length_prefixed f) \<Longrightarrow> c_in c = take k (length_prefixed f) \<Longrightarrow>
      \<exists>e. tcp_read c = (Inl e, c\<lparr>c_in := []\<rparr>)" for k
    unfolding tcp_read_def by (rule read_sized_framing(2) [OF *])
qed

text \<open>One operation puts a frame, or a beginning of it, on the stream.\<close>

lemma writeFrame_out:
  assumes "writeFrame p c = (err, c')"
  shows "\<exists>k. c' = c\<lparr>c_out := c_out c @ take k (length_prefixed p), c_calls := Suc (c_calls c)\<rparr> \<and>
    (err = None \<longrightarrow> take k (length_prefixed p) = length_prefixed p)"
proof -
  obtain n e where w: "c_write c (c_calls c) = (n, e)" by (cases "c_write c (c_calls c)")
  let ?k = "min n (length (length_prefixed p))"
  have "c' = c\<lparr>c_out := c_out c @ take ?k (length_prefixed p), c_calls := Suc (c_calls c)\<rparr> \<and>
      (err = None \<longrightarrow> ?k = length (length_prefixed p))"
    using assms w by (auto simp: writeFrame_def conn_write_def Let_def length_prefixed_eq split: if_splits)
  then show ?thesis by (intro exI [of _ ?k]) auto
qed

lemma writeFrame_ok:
  assumes "\<exists>n. c_write c (c_calls c) = (n, None) \<and> length p + 4 \<le> n"
  shows "writeFrame p c = (None, c\<lparr>c_out := c_out c @ length_prefixed p, c_calls := Suc (c_calls c)\<rparr>)"
  using assms by (auto simp: writeFrame_def conn_write_def Let_def length_prefixed_eq min_def)

text \<open>Whatever the server reads and however its writes end, it sends back a beginning of what it read.\<close>

lemma serve_conn_prefix: "\<exists>out. c_out (serve_conn c) = c_out c @ out \<and> prefix out (c_in c)"
proof (induction c rule: serve_conn.induct)
  case (1 c)
  obtain r d where rd: "tcp_read c = (r, d)" by (cases "tcp_read c")
  show ?case
  proof (cases r)
    case (Inl e)
    have "c_out d = c_out c" using rd
      by (auto simp: tcp_read_def read_sized_def ReadFull_def Let_def split: if_splits)
    then show ?thesis using rd Inl by (simp add: serve_conn.simps [of c])
  next
    case (Inr p)
    have io: "c_in c = length_prefixed p @ c_in d" "c_out d = c_out c"
      using read_sized_Inr(1,2) [of 1 1000000 c p d] rd Inr by (simp_all add: tcp_read_def)
    obtain err e where w: "writeFrame p d = (err, e)" by (cases "writeFrame p d")
    obtain k where k: "e = d\<lparr>c_out := c_out d @ take k (length_prefixed p), c_calls := Suc (c_calls d)\<rparr>"
        "err = None \<longrightarrow> take k (length_prefixed p) = length_prefixed p" using writeFrame_out [OF w] by blast
    show ?thesis
    proof (cases err)
      case None
      obtain out where out: "c_out (serve_conn e) = c_out e @ out" "prefix out (c_in e)"
        using 1 [OF rd [symmetric] Inr w [symmetric] None] by blast
      show ?thesis using rd Inr w None k io out
        by (intro exI [of _ "length_prefixed p @ out"]) (simp add: serve_conn.simps [of c])
    next
      case (Some x)
      then show ?thesis using rd Inr w k io
        by (intro exI [of _ "take k (length_prefixed p)"])
          (simp add: serve_conn.simps [of c] prefix_def, metis append.assoc append_take_drop_id)
    qed
  qed
qed

text \<open>With writes that succeed it sends back every frame.\<close>

lemma serve_conn_all:
  assumes "list_all tcp_ok ps" and "c_in c = concat (map length_prefixed ps)"
    and "\<And>i. \<exists>n. c_write c i = (n, None) \<and> 1000004 \<le> n"
  shows "c_out (serve_conn c) = c_out c @ concat (map length_prefixed ps)"
  using assms
proof (induction ps arbitrary: c)
  case Nil
  then have "fst (tcp_read c) \<noteq> Inr p \<and> c_out (snd (tcp_read c)) = c_out c" for p
    by (simp add: tcp_read_def read_sized_def ReadFull_def)
  then show ?case by (cases "tcp_read c"; cases "fst (tcp_read c)") (simp_all add: serve_conn.simps [of c])
next
  case (Cons p ps)
  let ?d = "c\<lparr>c_in := concat (map length_prefixed ps)\<rparr>"
  let ?e = "?d\<lparr>c_out := c_out c @ length_prefixed p, c_calls := Suc (c_calls c)\<rparr>"
  have rd: "tcp_read c = (Inr p, ?d)" by (rule tcp_link.dec_enc) (use Cons.prems in simp_all)
  have len: "length p \<le> 1000000" using Cons.prems(1) by (simp add: tcp_ok_def)
  obtain n where n: "c_write c (c_calls c) = (n, None)" "1000004 \<le> n" using Cons.prems(3) by blast
  have "length p + 4 \<le> n" using len n(2) by linarith
  then have w: "writeFrame p ?d = (None, ?e)" using writeFrame_ok [of ?d p] n(1) by simp
  have "c_out (serve_conn ?e) = c_out ?e @ concat (map length_prefixed ps)"
    by (rule Cons.IH) (use Cons.prems in simp_all)
  then show ?case using rd w by (simp add: serve_conn.simps [of c])
qed

text \<open>The client's calls over one connection, up to the first that fails.\<close>

fun tcp_session :: "bytes list \<Rightarrow> conn \<Rightarrow> bytes list \<times> conn" where
  "tcp_session [] c = ([], c)"
| "tcp_session (p # ps) c =
     (case tcpCall None p c of
        (Inl e, c) \<Rightarrow> ([], c)
      | (Inr reply, c) \<Rightarrow> (case tcp_session ps c of (rs, c) \<Rightarrow> (reply # rs, c)))"

lemma tcpCall_read:
  assumes "tcpCall None p c = (Inr reply, c')"
  shows "\<exists>d. c_in d = c_in c \<and> tcp_read d = (Inr reply, c')"
proof -
  obtain d where "writeFrame p (c\<lparr>c_calls := Suc (c_calls c)\<rparr>) = (None, d)" "tcp_read d = (Inr reply, c')"
    using assms by (auto simp: tcpCall_def set_deadline_def split: prod.splits option.splits)
  then show ?thesis using writeFrame_in by fastforce
qed

lemma prefix_frame:
  assumes "prefix x (f @ rest)"
  shows "(\<exists>k < length f. x = take k f) \<or> (\<exists>y. x = f @ y \<and> prefix y rest)"
proof -
  obtain z where z: "f @ rest = x @ z" using assms by (auto simp: prefix_def)
  show ?thesis
  proof (cases "length x < length f")
    case True
    have "take (length x) (f @ rest) = x" using z by simp
    with True show ?thesis by auto
  next
    case False
    have "take (length f) (x @ z) = f" unfolding z [symmetric] by simp
    then have f: "take (length f) x = f" using False by simp
    have "drop (length f) (x @ z) = rest" unfolding z [symmetric] by simp
    then have "drop (length f) x @ z = rest" using False by simp
    then show ?thesis using append_take_drop_id [of "length f" x] f by (metis prefixI)
  qed
qed

text \<open>Replies taken from an echo of the requests, cut anywhere, are the requests, in order.\<close>

lemma session_replies:
  "list_all tcp_ok ps \<Longrightarrow> prefix (c_in c) (concat (map length_prefixed ps)) \<Longrightarrow> prefix (fst (tcp_session ps c)) ps"
proof (induction ps arbitrary: c)
  case (Cons p ps)
  obtain r c' where call: "tcpCall None p c = (r, c')" by (cases "tcpCall None p c")
  show ?case
  proof (cases r)
    case (Inr reply)
    obtain d where d: "c_in d = c_in c" "tcp_read d = (Inr reply, c')" using tcpCall_read call Inr by blast
    have p: "tcp_ok p" "list_all tcp_ok ps" using Cons.prems(1) by simp_all
    have "\<not> (\<exists>k < length (length_prefixed p). c_in c = take k (length_prefixed p))"
      using tcp_link.dec_cut [OF p(1), of _ d] d by auto
    then obtain y where y: "c_in c = length_prefixed p @ y" "prefix y (concat (map length_prefixed ps))"
      using prefix_frame Cons.prems(2) by force
    have "reply = p" "c_in c' = y" using tcp_link.dec_enc [OF p(1), of d y] d y(1) by auto
    then show ?thesis using Cons.IH [OF p(2), of c'] y(2) call Inr by (simp add: case_prod_beta)
  qed (simp add: call)
qed simp

lemma session_all:
  assumes "list_all tcp_ok ps" and "c_in c = concat (map length_prefixed ps)" and "\<And>i. c_deadline c i = None"
    and "\<And>i. \<exists>n. c_write c i = (n, None) \<and> 1000004 \<le> n"
  shows "fst (tcp_session ps c) = ps"
  using assms
proof (induction ps arbitrary: c)
  case (Cons p ps)
  let ?d = "c\<lparr>c_calls := Suc (c_calls c)\<rparr>"
  let ?e = "?d\<lparr>c_out := c_out c @ length_prefixed p, c_calls := Suc (Suc (c_calls c))\<rparr>"
  let ?f = "?e\<lparr>c_in := concat (map length_prefixed ps)\<rparr>"
  have len: "length p \<le> 1000000" using Cons.prems(1) by (simp add: tcp_ok_def)
  obtain n where n: "c_write c (Suc (c_calls c)) = (n, None)" "1000004 \<le> n" using Cons.prems(4) by blast
  have "length p + 4 \<le> n" using len n(2) by linarith
  then have w: "writeFrame p ?d = (None, ?e)" using writeFrame_ok [of ?d p] n(1) by simp
  have rd: "tcp_read ?e = (Inr p, ?f)" by (rule tcp_link.dec_enc) (use Cons.prems in simp_all)
  have "tcpCall None p c = (Inr p, ?f)" using w rd Cons.prems(3) by (simp add: tcpCall_def set_deadline_def)
  moreover have "fst (tcp_session ps ?f) = ps" by (rule Cons.IH) (use Cons.prems in simp_all)
  ultimately show ?case by (simp add: case_prod_beta)
qed simp

text \<open>C27. The reference transport of the benchmark, server and client together: however the two streams are
  cut and whatever the writes do, the replies a client gets are its own payloads, in order, as far as they go;
  and when everything is delivered and the operations succeed, it gets all of them. Whatever bytes
  reach the server, it sends back a beginning of these.\<close>

theorem tcp_echo:
  assumes "list_all tcp_ok ps" and "c_out server = []"
    and "prefix (c_in server) (concat (map length_prefixed ps))" and "prefix (c_in client) (c_out (serve_conn server))"
  shows "prefix (c_out (serve_conn server)) (c_in server) \<and> prefix (fst (tcp_session ps client)) ps \<and>
    (c_in server = concat (map length_prefixed ps) \<and> c_in client = c_out (serve_conn server) \<and>
     (\<forall>i. \<exists>n. c_write server i = (n, None) \<and> 1000004 \<le> n) \<and> (\<forall>i. c_deadline client i = None) \<and>
     (\<forall>i. \<exists>n. c_write client i = (n, None) \<and> 1000004 \<le> n) \<longrightarrow>
       fst (tcp_session ps client) = ps)"
proof (intro conjI impI)
  show echo: "prefix (c_out (serve_conn server)) (c_in server)" using serve_conn_prefix [of server] assms(2) by auto
  then have "prefix (c_in client) (concat (map length_prefixed ps))" using assms(3,4) by (meson prefix_order.trans)
  then show "prefix (fst (tcp_session ps client)) ps" by (rule session_replies [OF assms(1)])
  assume *: "c_in server = concat (map length_prefixed ps) \<and> c_in client = c_out (serve_conn server) \<and>
     (\<forall>i. \<exists>n. c_write server i = (n, None) \<and> 1000004 \<le> n) \<and> (\<forall>i. c_deadline client i = None) \<and>
     (\<forall>i. \<exists>n. c_write client i = (n, None) \<and> 1000004 \<le> n)"
  then have "c_out (serve_conn server) = concat (map length_prefixed ps)"
    using serve_conn_all [OF assms(1), of server] assms(2) by simp
  with * show "fst (tcp_session ps client) = ps" by (intro session_all [OF assms(1)]) simp_all
qed

definition sample_conn :: "bytes \<Rightarrow> conn" where
  "sample_conn b = \<lparr>c_in = b, c_fin = EOF, c_out = [], c_calls = 0, c_write = (\<lambda>_. (2000000, None)), c_deadline = (\<lambda>_. None)\<rparr>"

theorem tcp_echo_witness:
  "fst (tcp_session [[7], [8, 9]]
     (sample_conn (c_out (serve_conn (sample_conn (length_prefixed [7] @ length_prefixed [8, 9])))))) = [[7], [8, 9]]"
  using tcp_echo [of "[[7], [8, 9]]" "sample_conn (length_prefixed [7] @ length_prefixed [8, 9])"
      "sample_conn (c_out (serve_conn (sample_conn (length_prefixed [7] @ length_prefixed [8, 9]))))"]
  by (simp add: sample_conn_def tcp_ok_def)

section \<open>Connections of the server\<close>

text \<open>At most 16 connections are served at a time, and none is added after the end of the context.\<close>

lemma serve_step_bounded:
  "finite (connections s) \<Longrightarrow> card (connections s) \<le> 16 \<Longrightarrow>
   finite (connections (serve_step ev s)) \<and> card (connections (serve_step ev s)) \<le> 16"
  by (cases "(ev, s)" rule: serve_step.cases) (auto simp: card_insert_if intro: le_trans [OF card_Diff1_le])

lemma serve_loop_bounded:
  "finite (connections s) \<Longrightarrow> card (connections s) \<le> 16 \<Longrightarrow>
   finite (connections (snd (serve_loop evs s))) \<and> card (connections (snd (serve_loop evs s))) \<le> 16"
proof (induction evs arbitrary: s)
  case (Cons ev evs)
  have "finite (connections (serve_step ev s))" "card (connections (serve_step ev s)) \<le> 16"
    using serve_step_bounded [OF Cons.prems] by simp_all
  then show ?case using Cons by (cases ev) simp_all
qed simp

text \<open>The server holds at most 16 connections at any time, and its raw socket is closed when it returns.\<close>

lemma serve_bounded:
  assumes "serve p6 h bind timeout tcp evs r = (res, s, r')" and "\<not> ri_open r"
  shows "card (connections s) \<le> 16" and "res \<noteq> None \<Longrightarrow> \<not> ri_open r'"
proof -
  let ?none = "\<lparr>connections = {}, ctx_done = False\<rparr>"
  have "s = ?none \<or> s = snd (serve_loop evs ?none)"
    using assms(1) by (auto simp: serve_def Let_def split: option.splits if_splits prod.splits sum.splits)
  then show "card (connections s) \<le> 16" using serve_loop_bounded [of ?none evs] by auto
  have closed: "\<not> ri_open r''" if "tool_listen h l t b r = (Inl e, r'')" for l t b e r''
    using Listen_owns_socket assms(2) that unfolding tool_listen_def by blast
  show "\<not> ri_open r'" if "res \<noteq> None"
    using assms that closed
    by (auto simp: serve_def Let_def Close_def split: option.splits if_splits prod.splits sum.splits)
qed

lemma serve_step_done:
  "ctx_done s \<Longrightarrow> ctx_done (serve_step ev s) \<and> connections (serve_step ev s) \<subseteq> connections s"
  by (cases "(ev, s)" rule: serve_step.cases) auto

end
