(* ===== verification/Checksum.thy ===== *)
theory Checksum
  imports Prelude
begin

unbundle bit_operations_syntax

text \<open>
  The IPv4 header checksum, which two tools of the repository compute on their own:
  \<^verbatim>\<open>ipChecksum\<close> of \<^verbatim>\<open>interop/lanrelay/main.go\<close> and \<^verbatim>\<open>checksum\<close> of \<^verbatim>\<open>interop/vmcheck/main.go\<close>. Both sum 16-bit
  words into a 32-bit accumulator and then fold the carries; the reference is one's-complement
  addition on natural numbers.
\<close>

section \<open>The code\<close>

fun sum_words :: "u32 \<Rightarrow> bytes \<Rightarrow> u32" where
  "sum_words acc (x # y # b) = sum_words (acc + ucast (Uint16 [x, y])) b"
| "sum_words acc [x] = acc + push_bit 8 (ucast x)"
| "sum_words acc [] = acc"

lemma fold_step:
  assumes "65535 < (acc :: u32)"
  shows "unat ((acc AND 65535) + drop_bit 16 acc) = unat acc mod 65536 + unat acc div 65536"
proof -
  have m: "unat (acc AND 65535) = unat acc mod 65536"
    using take_bit_eq_mask [of 16 acc, symmetric] by (simp add: mask_eq_exp_minus_1 unsigned_take_bit_eq take_bit_eq_mod unat_mod)
  have d: "unat (drop_bit 16 acc) = unat acc div 65536"
    by (simp add: unsigned_drop_bit_eq drop_bit_eq_div unat_div)
  have "unat acc div 65536 < 65536" using unat_u32 [of acc] by (simp add: less_mult_imp_div_less)
  then show ?thesis using m d by (subst unat_add_lem [THEN iffD1]) (auto simp: less_trans)
qed

lemma carry_decreases:
  assumes "65535 < (n :: nat)"
  shows "n mod 65536 + n div 65536 < n"
proof -
  have "n = n div 65536 * 65536 + n mod 65536" by simp
  moreover have "0 < n div 65536" using assms by (simp add: div_greater_zero_iff)
  ultimately show ?thesis by linarith
qed

function fold_carry :: "u32 \<Rightarrow> u32" where
  "fold_carry acc = (if acc > 65535 then fold_carry ((acc AND 65535) + drop_bit 16 acc) else acc)"
  by pat_completeness auto
termination
proof (relation "measure unat")
  fix acc :: u32
  assume "65535 < acc"
  moreover from this have "65535 < unat acc" by (simp add: word_less_nat_alt)
  ultimately show "((acc AND 65535) + drop_bit 16 acc, acc) \<in> measure unat"
    using fold_step carry_decreases by simp
qed simp

declare fold_carry.simps [simp del]

definition ipChecksum :: "bytes \<Rightarrow> u16" where
  "ipChecksum b = NOT (ucast (fold_carry (sum_words 0 b)))"

text \<open>The other version indexes its argument \<^verbatim>\<open>b\<close>, a slice of length \<open>n\<close> of the array \<open>buf\<close>. The
  expression \<^verbatim>\<open>b[i:i+2]\<close> may reach beyond \<open>n\<close> up to the end of the array; beyond that it panics.\<close>

function sum_index :: "nat \<Rightarrow> nat \<Rightarrow> bytes \<Rightarrow> u32 \<Rightarrow> u32 option" where
  "sum_index i n buf acc =
     (if i < n then
        if i + 2 \<le> length buf then sum_index (i + 2) n buf (acc + ucast (Uint16 (subslice i (i + 2) buf)))
        else None
      else Some acc)"
  by pat_completeness auto
termination by (relation "measure (\<lambda>(i, n, buf, acc). n - i)") auto

declare sum_index.simps [simp del]

definition checksum :: "nat \<Rightarrow> bytes \<Rightarrow> u16 option" where
  "checksum n buf = map_option (\<lambda>acc. NOT (ucast (fold_carry acc))) (sum_index 0 n buf 0)"

section \<open>One's-complement addition\<close>

text \<open>The reference: the sum of the big-endian words, an odd last byte padded with zero, reduced to
  1..65535 modulo 65535 (0 only for a sum of 0).\<close>

fun wsum :: "bytes \<Rightarrow> nat" where
  "wsum (x # y # b) = 256 * unat x + unat y + wsum b"
| "wsum [x] = 256 * unat x"
| "wsum [] = 0"

definition ones_sum :: "nat \<Rightarrow> nat" where
  "ones_sum n = (if n = 0 then 0 else (n - 1) mod 65535 + 1)"

lemma ones_sum_le: "ones_sum n \<le> 65535"
  by (simp add: ones_sum_def Suc_le_eq)

lemma ones_sum_small: "n \<le> 65535 \<Longrightarrow> ones_sum n = n"
  by (simp add: ones_sum_def)

lemma ones_sum_carry: "ones_sum (a * 65536 + b) = ones_sum (a + b)"
proof (cases "a + b = 0")
  case False
  then have "a * 65536 + b - 1 = a + b - 1 + a * 65535" by simp
  then have "(a * 65536 + b - 1) mod 65535 = (a + b - 1) mod 65535" by (metis mod_mult_self1)
  then show ?thesis using False by (simp add: ones_sum_def)
qed simp

lemma ones_sum_complement: "ones_sum (n + (65535 - ones_sum n)) = 65535"
proof (cases "n = 0")
  case False
  have "ones_sum n = (n - 1) mod 65535 + 1" using False by (simp add: ones_sum_def)
  then have "n + (65535 - ones_sum n) = (n - 1) div 65535 * 65535 + 65535"
    using div_mult_mod_eq [of "n - 1" 65535] ones_sum_le [of n] False by linarith
  then show ?thesis using mod_mult_self1 [of 65534 "(n - 1) div 65535" 65535]
    by (simp add: ones_sum_def add.commute)
qed (simp add: ones_sum_def)

lemma unat_fold_carry: "unat (fold_carry acc) = ones_sum (unat acc)"
proof (induction acc rule: fold_carry.induct)
  case (1 acc)
  show ?case
  proof (cases "acc > 65535")
    case True
    have "unat acc = unat acc div 65536 * 65536 + unat acc mod 65536" by simp
    then have "ones_sum (unat acc) = ones_sum (unat acc div 65536 + unat acc mod 65536)"
      using ones_sum_carry by metis
    then show ?thesis using 1 True fold_step [OF True] by (subst fold_carry.simps) (simp add: add.commute)
  next
    case False
    then have "unat acc \<le> 65535" by (simp add: word_le_nat_alt not_less)
    then show ?thesis using False by (subst fold_carry.simps) (simp add: ones_sum_small)
  qed
qed

lemma unat_Uint16: "unat (Uint16 [x, y]) = 256 * unat x + unat y"
proof -
  have "Uint16 [x, y] = push_bit 8 (ucast x) + ucast y"
    unfolding Uint16_def by (subst disjunctive_add) (auto simp: bit_simps or.commute)
  moreover have "unat x < 256" "unat y < 256" by (rule unat_u8)+
  ultimately show ?thesis
    by (simp add: push_bit_eq_mult unat_word_ariths unsigned_ucast_eq take_bit_nat_eq_self)
qed

lemma unat_sum_words:
  "unat acc + wsum b < 2 ^ 32 \<Longrightarrow> unat (sum_words acc b) = unat acc + wsum b"
proof (induction acc b rule: sum_words.induct)
  case (1 acc x y b)
  have u: "unat (ucast (Uint16 [x, y]) :: u32) = 256 * unat x + unat y"
    using unat_Uint16 [of x y] unat_u16 [of "Uint16 [x, y]"]
    by (simp add: unsigned_ucast_eq take_bit_nat_eq_self)
  then have "unat (acc + ucast (Uint16 [x, y])) = unat acc + (256 * unat x + unat y)"
    using 1(2) by (simp add: unat_word_ariths)
  then show ?case using 1 by simp
next
  case (2 acc x)
  have "unat x < 256" by (rule unat_u8)
  then have "unat (push_bit 8 (ucast x) :: u32) = 256 * unat x"
    by (simp add: push_bit_eq_mult unat_word_ariths unsigned_ucast_eq take_bit_nat_eq_self)
  then show ?case using 2 by (simp add: unat_word_ariths)
qed simp

lemma wsum_le: "wsum b \<le> 65535 * ((length b + 1) div 2)"
proof (induction b rule: wsum.induct)
  case (1 x y b)
  have "unat x < 256" "unat y < 256" by (rule unat_u8)+
  then show ?case using 1 by simp
next
  case (2 x)
  then show ?case using unat_u8 [of x] by simp
qed simp

lemma wsum_bound:
  assumes "length b \<le> 131072"
  shows "wsum b < 2 ^ 32"
proof -
  have "(length b + 1) div 2 \<le> 65536" using div_le_mono [of "length b + 1" 131073 2] assms by simp
  then have "65535 * ((length b + 1) div 2) \<le> 65535 * 65536" by (rule mult_le_mono2)
  also have "65535 * 65536 < (2 :: nat) ^ 32" by simp
  finally show ?thesis using wsum_le [of b] by (rule le_less_trans [rotated])
qed

lemma unat_not_u16: "unat (NOT (x :: u16)) = 65535 - unat x"
proof -
  have "uint x < 2 ^ 16" using unsigned_less [of x] by simp
  then have "uint (NOT x) = 65535 - uint x"
    by (simp add: unsigned_not_eq take_bit_not_eq_mask_diff mask_eq_exp_minus_1 take_bit_int_eq_self)
  then have "int (unat (NOT x)) = 65535 - int (unat x)" by simp
  then show ?thesis by linarith
qed

lemma ipChecksum_spec:
  assumes "length b \<le> 131072"
  shows "unat (ipChecksum b) = 65535 - ones_sum (wsum b)"
proof -
  have "unat (fold_carry (sum_words 0 b)) = ones_sum (wsum b)"
    using unat_sum_words [of 0 b] wsum_bound [OF assms] by (simp add: unat_fold_carry)
  moreover from this have "unat (ucast (fold_carry (sum_words 0 b)) :: u16) = ones_sum (wsum b)"
    using ones_sum_le [of "wsum b"] by (simp add: unsigned_ucast_eq take_bit_nat_eq_self)
  ultimately show ?thesis by (simp add: ipChecksum_def unat_not_u16)
qed

lemma wsum_append: "even (length a) \<Longrightarrow> wsum (a @ b) = wsum a + wsum b"
  by (induction a rule: wsum.induct) auto

lemma wsum_PutUint16: "wsum (PutUint16 v) = unat v"
proof -
  have "wsum (PutUint16 v) = unat (Uint16 (PutUint16 v))" by (simp add: PutUint16_def unat_Uint16)
  then show ?thesis by simp
qed

section \<open>Properties\<close>

lemma zero_word_sum:
  assumes "even i" and "i + 2 \<le> length b" and "subslice i (i + 2) b = [0, 0]"
  shows "wsum (put_at i (PutUint16 v) b) = wsum b + unat v"
proof -
  have "b = take i b @ subslice i (i + 2) b @ drop (i + 2) b"
    using append_take_drop_id [of i b] append_take_drop_id [of 2 "drop i b"]
    by (simp add: subslice_def add.commute)
  then have "wsum b = wsum (take i b @ subslice i (i + 2) b @ drop (i + 2) b)" by (rule arg_cong)
  also have "\<dots> = wsum (take i b) + wsum (drop (i + 2) b)"
    using assms by (simp add: wsum_append)
  finally show ?thesis using assms by (simp add: put_at_def wsum_append wsum_PutUint16)
qed

lemma checksum_inserted:
  assumes "even i" and "i + 2 \<le> length b" and "length b \<le> 131072" and "subslice i (i + 2) b = [0, 0]"
  shows "ipChecksum (put_at i (PutUint16 (ipChecksum b)) b) = 0"
proof -
  have "length (put_at i (PutUint16 (ipChecksum b)) b) \<le> 131072" using assms by simp
  from ipChecksum_spec [OF this] have "unat (ipChecksum (put_at i (PutUint16 (ipChecksum b)) b)) = 0"
    using ones_sum_complement [of "wsum b"]
    by (simp add: zero_word_sum [OF assms(1,2,4)] ipChecksum_spec [OF assms(3)])
  then show ?thesis by (simp add: unat_eq_zero)
qed

lemma ones_sum_max: "ones_sum n = 65535 \<longleftrightarrow> 0 < n \<and> 65535 dvd n"
proof (cases "n = 0")
  case False
  have "ones_sum n = 65535 \<longleftrightarrow> (n - 1) mod 65535 = 65534" using False by (simp add: ones_sum_def)
  also have "\<dots> \<longleftrightarrow> n mod 65535 = 0" using False mod_Suc [of "n - 1" 65535] by auto
  finally show ?thesis using False by (simp add: dvd_eq_mod_eq_0)
qed (simp add: ones_sum_def)

lemma complement_unique:
  assumes "0 < n" and "c \<le> 65535" and "65535 dvd n + c"
  shows "c = 65535 - ones_sum n \<or> c = 65535 \<and> ones_sum n = 65535"
proof -
  let ?d = "65535 - ones_sum n"
  have o: "0 < ones_sum n" using assms(1) by (simp add: ones_sum_def)
  have "65535 dvd n + ?d" using ones_sum_complement [of n] ones_sum_max by simp
  then have "int 65535 dvd int (n + c) - int (n + ?d)" using assms(3) by (metis dvd_diff int_dvd_int_iff)
  then have "65535 dvd int c - int ?d" by simp
  then obtain k where k: "int c - int ?d = 65535 * k" by (elim dvdE)
  have "- 65535 < int c - int ?d" "int c - int ?d \<le> 65535" using assms(2) o by linarith+
  then have "k = 0 \<or> k = 1" using k by linarith
  then show ?thesis
  proof
    assume "k = 0"
    then show ?thesis using k by simp
  next
    assume "k = 1"
    then have "c = 65535 + ?d" using k by linarith
    then show ?thesis using assms(2) ones_sum_le [of n] by linarith
  qed
qed



lemma sum_index_eq:
  assumes "even i" and "i \<le> n + n mod 2" and "i \<le> length buf"
  shows "sum_index i n buf acc =
    (if n + n mod 2 \<le> length buf then Some (sum_words acc (subslice i (n + n mod 2) buf)) else None)"
  using assms
proof (induction i n buf acc rule: sum_index.induct)
  case (1 i n buf acc)
  show ?case
  proof (cases "i < n")
    case True
    then have le: "i + 2 \<le> n + n mod 2" using 1(2) by presburger
    have sub: "sum_words acc (subslice i (n + n mod 2) buf) =
        sum_words (acc + ucast (Uint16 (subslice i (i + 2) buf))) (subslice (i + 2) (n + n mod 2) buf)"
      if len: "i + 2 \<le> length buf"
    proof -
      have "length (subslice i (i + 2) buf) = 2" using len by simp
      from list_of_length(1) [OF this] obtain x y where xy: "subslice i (i + 2) buf = [x, y]" by blast
      have "subslice i (n + n mod 2) buf = [x, y] @ subslice (i + 2) (n + n mod 2) buf"
        using subslice_append [of i "i + 2" "n + n mod 2" buf] le xy by simp
      then show ?thesis using xy by (simp only: append.simps sum_words.simps)
    qed
    show ?thesis
    proof (cases "i + 2 \<le> length buf")
      case fits: True
      then show ?thesis using 1(1) [OF True fits] 1(2,4) le sub True
        by (subst sum_index.simps) simp
    next
      case False
      then show ?thesis using True le by (subst sum_index.simps) simp
    qed
  next
    case False
    then have "i = n + n mod 2" using 1(2,3) by presburger
    then show ?thesis using 1(4) False by (subst sum_index.simps) (simp add: subslice_def)
  qed
qed

text \<open>C37. The two implementations of the IPv4 checksum agree on every slice of even length, as IPv4 headers
  are. On a slice of odd length the indexing version also takes in the byte behind the slice, and
  panics when there is none.\<close>

theorem checksum_equivalence:
  assumes "n \<le> length buf"
  shows "checksum n buf =
    (if even n then Some (ipChecksum (take n buf))
     else if n < length buf then Some (ipChecksum (take (n + 1) buf)) else None)"
proof (cases "even n")
  case True
  then show ?thesis using sum_index_eq [of 0 n buf 0] assms
    by (simp add: checksum_def ipChecksum_def subslice_def even_iff_mod_2_eq_zero)
next
  case False
  then have "n mod 2 = 1" by presburger
  then show ?thesis using sum_index_eq [of 0 n buf 0] assms False
    by (auto simp: checksum_def ipChecksum_def subslice_def)
qed

theorem checksum_equivalence_witness:
  "checksum 2 [0x12, 0x34, 0x56] = Some (ipChecksum [0x12, 0x34]) \<and>
   checksum 3 [0x12, 0x34, 0x56] = None"
  using checksum_equivalence [of 2 "[0x12, 0x34, 0x56]"] checksum_equivalence [of 3 "[0x12, 0x34, 0x56]"]
  by simp

end
