(* ===== verification/Frames.thy ===== *)
theory Frames
  imports Checksum
begin

unbundle bit_operations_syntax

text \<open>
  The byte layout of the frames which the LAN relay and the virtual machine check build, each with code of
  its own: the IPv4 header with its checksum, and the answer to an ARP request.
\<close>

section \<open>The IPv4 header\<close>

text \<open>The header both tools write: no options, no fragments, time to live 64, protocol 146, from 10.0.0.1 to
  10.0.0.2.\<close>

definition ip_header :: "u16 \<Rightarrow> u8 \<Rightarrow> u16 \<Rightarrow> bytes" where
  "ip_header len tos c =
     [0x45, tos] @ PutUint16 len @ [0, 0, 0, 0, 64, 146] @ PutUint16 c @ [10, 0, 0, 1, 10, 0, 0, 2]"

lemma length_ip_header [simp]: "length (ip_header len tos c) = 20"
  by (simp add: ip_header_def)

lemma header_verifies: "ipChecksum (ip_header len tos (ipChecksum (ip_header len tos 0))) = 0"
proof -
  have "put_at 10 (PutUint16 c) (ip_header len tos 0) = ip_header len tos c" for c
    by (simp add: put_at_def ip_header_def PutUint16_def)
  moreover have "subslice 10 (10 + 2) (ip_header len tos 0) = [0, 0]"
    by (simp add: subslice_def ip_header_def PutUint16_def)
  ultimately show ?thesis using checksum_inserted [of 10 "ip_header len tos 0"] by simp
qed

lemma ip_header_fields:
  "ip_header len tos c ! 0 = 0x45" "ip_header len tos c ! 1 = tos" "ip_header len tos c ! 9 = 146"
  "subslice 2 4 (ip_header len tos c) = PutUint16 len" "subslice 6 8 (ip_header len tos c) = [0, 0]"
  "subslice 12 16 (ip_header len tos c) = [10, 0, 0, 1]" "subslice 16 20 (ip_header len tos c) = [10, 0, 0, 2]"
  by (simp_all add: ip_header_def PutUint16_def subslice_def)

lemma subslice_in_prefix: "j \<le> length xs \<Longrightarrow> subslice i j (xs @ ys) = subslice i j xs"
  by (simp add: subslice_def)

section \<open>The answer to an ARP request\<close>

text \<open>To the sender of the request, from the host, with the operation changed to a reply.\<close>

definition arp_answer :: "bytes \<Rightarrow> bytes \<Rightarrow> bytes \<Rightarrow> bytes" where
  "arp_answer mac ip q = subslice 6 12 q @ mac @ subslice 12 20 q @ [0, 2] @ mac @ ip @ subslice 22 28 q @ subslice 28 32 q"

lemma arp_answer_writes:
  assumes "\<not> length q < 42" and "length mac = 6" and "length ip = 4"
  shows "put_at 38 (subslice 28 32 q) (put_at 32 (subslice 22 28 q) (put_at 28 ip (put_at 22 mac
      (put_at 20 (PutUint16 2) (put_at 12 (subslice 12 22 q) (put_at 6 mac
        (put_at 0 (subslice 6 12 q) (replicate 42 0)))))))) = arp_answer mac ip q"
proof -
  have r: "replicate 42 (0 :: byte) = replicate 12 0 @ replicate 10 0 @ replicate 20 0"
    by (simp flip: replicate_add)
  have s: "subslice 12 22 q = subslice 12 20 q @ subslice 20 22 q" by (simp add: subslice_append)
  have "put_at 8 (PutUint16 2) (subslice 12 22 q @ replicate 20 0) = subslice 12 20 q @ [0, 2] @ replicate 20 0"
    using assms(1) unfolding s by (simp add: put_at_def PutUint16_def)
  then show ?thesis using assms unfolding r arp_answer_def by (simp add: buf_simps)
qed

lemma arp_answer_shape:
  assumes "42 \<le> length q" and "length mac = 6" and "length ip = 4"
  shows "length (arp_answer mac ip q) = 42" and "subslice 12 14 (arp_answer mac ip q) = subslice 12 14 q"
  using assms by (simp_all add: arp_answer_def buf_simps subslice_in_prefix)

end
