(* ===== verification/Relay.thy ===== *)
theory Relay
  imports Conn Frames Address
begin

unbundle bit_operations_syntax

text \<open>
  The packet functions of the LAN relay, \<^verbatim>\<open>interop/lanrelay/main.go\<close>: validation of a received IPv4
  datagram, the allowlist, the Ethernet frame for the virtual machine, ARP, the record of
  acknowledged calls. The relay reads Homa headers by offset; the properties tie its offsets to the
  wire format.
\<close>

section \<open>The code\<close>

definition virtualHost :: netip where "virtualHost = V4 0x0a000001"
definition virtualGuest :: netip where "virtualGuest = V4 0x0a000002"
definition hostMAC :: bytes where "hostMAC = [2, 0, 0, 0, 0, 1]"
definition guestMAC :: bytes where "guestMAC = [0x52, 0x54, 0, 0x12, 0x34, 0x56]"

definition nativePacket :: "bytes \<Rightarrow> netip \<Rightarrow> netip \<Rightarrow> (bytes \<times> u8) option" where
  "nativePacket ip source destination =
     (if length ip < 20 \<or> drop_bit 4 (ip ! 0) \<noteq> 4 then None
      else
        let header = unat (ip ! 0 AND 15) * 4;
            total = unat (Uint16 (subslice 2 4 ip))
        in if header < 20 \<or> header > length ip \<or> total < header + 28 \<or> total > length ip \<or>
              ip ! 9 \<noteq> 146 \<or> ipChecksum (take header ip) \<noteq> 0 \<or>
              Uint16 (subslice 6 8 ip) AND 0x3fff \<noteq> 0 \<or>
              subslice 12 16 ip \<noteq> AsSlice source \<or> subslice 16 20 ip \<noteq> AsSlice destination
           then None
           else Some (subslice header total ip, ip ! 1))"

text \<open>The map \<^verbatim>\<open>lengths\<close> of \<^verbatim>\<open>allowedHoma\<close>.\<close>

definition lengths :: "u8 \<Rightarrow> nat option" where
  "lengths = map_of [(0x10, 56), (0x11, 33), (0x12, 37), (0x13, 28), (0x14, 28), (0x15, 62), (0x17, 28), (0x18, 80)]"

definition allowedHoma :: "bytes \<Rightarrow> bool \<Rightarrow> bool" where
  "allowedHoma p fromLAN \<longleftrightarrow>
     (if length p < 28 then False
      else
        let src = Uint16 (subslice 0 2 p); dst = Uint16 (subslice 2 4 p) in
        if fromLAN \<and> \<not> (src = 4003 \<and> dst = 4000 \<or> src = 4001 \<and> dst = 4002) then False
        else if \<not> fromLAN \<and> \<not> (src = 4000 \<and> dst = 4003 \<or> src = 4002 \<and> dst = 4001) then False
        else case lengths (p ! 11) of None \<Rightarrow> False | Some minimum \<Rightarrow> minimum \<le> length p)"

text \<open>\<^verbatim>\<open>ip\<close> is the slice of the frame from byte 14 on, so that its writes are writes into the frame.\<close>

definition ethernetPacket :: "bytes \<Rightarrow> u8 \<Rightarrow> bytes" where
  "ethernetPacket payload tos =
     (let frame = replicate (14 + 20 + length payload) 0;
          frame = put_at 0 guestMAC frame;
          frame = put_at 6 hostMAC frame;
          frame = put_at 12 (PutUint16 0x0800) frame;
          frame = frame[14 := 0x45, 15 := tos, 22 := 64, 23 := 146];
          frame = put_at 16 (PutUint16 (of_nat (length frame - 14))) frame;
          frame = put_at 26 (AsSlice virtualHost) frame;
          frame = put_at 30 (AsSlice virtualGuest) frame;
          frame = put_at 24 (PutUint16 (ipChecksum (subslice 14 34 frame))) frame
      in put_at 34 payload frame)"

text \<open>The reply of \<^verbatim>\<open>arp\<close>, if the frame deserves one; \<^verbatim>\<open>arp\<close> writes it to the connection.\<close>

definition arp_reply :: "bytes \<Rightarrow> bytes option" where
  "arp_reply frame =
     (if length frame < 42 \<or> Uint16 (subslice 14 16 frame) \<noteq> 1 \<or> Uint16 (subslice 16 18 frame) \<noteq> 0x0800 \<or>
         frame ! 18 \<noteq> 6 \<or> frame ! 19 \<noteq> 4 \<or> Uint16 (subslice 20 22 frame) \<noteq> 1 \<or>
         subslice 28 32 frame \<noteq> AsSlice virtualGuest \<or> subslice 38 42 frame \<noteq> AsSlice virtualHost
      then None
      else
        let reply = replicate 42 0;
            reply = put_at 0 (subslice 6 12 frame) reply;
            reply = put_at 6 hostMAC reply;
            reply = put_at 12 (subslice 12 22 frame) reply;
            reply = put_at 20 (PutUint16 2) reply;
            reply = put_at 22 hostMAC reply;
            reply = put_at 28 (AsSlice virtualHost) reply;
            reply = put_at 32 (subslice 22 28 frame) reply
        in Some (put_at 38 (subslice 28 32 frame) reply))"

definition note_ack :: "u64 set \<Rightarrow> u64 \<Rightarrow> u64 set" where
  "note_ack acks cid = (if cid \<noteq> 0 \<and> cid AND 1 = 0 \<and> card acks < 1024 then insert cid acks else acks)"

definition noteAcks :: "bytes \<Rightarrow> u64 set \<Rightarrow> u64 set" where
  "noteAcks p acks =
     (if Uint16 (subslice 0 2 p) \<noteq> 4003 \<or> Uint16 (subslice 2 4 p) \<noteq> 4000 then acks
      else if p ! 11 = 0x18 then
        let acks = note_ack acks (Uint64 (subslice 20 28 p));
            count = unat (Uint16 (subslice 28 30 p))
        in if count > 5 then acks
           else foldl (\<lambda>acks i.
             let at = 30 + i * 10 in
             if Uint16 (subslice (at + 8) (at + 10) p) = 4000
             then note_ack acks (Uint64 (subslice at (at + 8) p)) else acks) acks [0..<count]
      else if p ! 11 = 0x10 \<and> Uint16 (subslice 44 46 p) = 4000 then note_ack acks (Uint64 (subslice 36 44 p))
      else acks)"

section \<open>Frames\<close>

lemma virtual_bytes: "AsSlice virtualHost = [10, 0, 0, 1]" "AsSlice virtualGuest = [10, 0, 0, 2]"
  by (simp_all add: virtualHost_def virtualGuest_def PutUint32_def)

lemma ethernetPacket_eq:
  "ethernetPacket payload tos = guestMAC @ hostMAC @ [8, 0] @
     ip_header (of_nat (20 + length payload)) tos
       (ipChecksum (ip_header (of_nat (20 + length payload)) tos 0)) @ payload"
proof -
  have r: "replicate (14 + 20 + length payload) (0 :: byte) =
      [0, 0, 0, 0, 0, 0, 0, 0, 0, 0, 0, 0, 0, 0, 0, 0, 0, 0, 0, 0, 0, 0, 0, 0, 0, 0, 0, 0, 0, 0, 0, 0, 0, 0] @
      replicate (length payload) 0"
    by (simp add: replicate_add numeral_eq_Suc)
  show ?thesis
    unfolding ethernetPacket_def Let_def r
    by (simp add: put_at_def guestMAC_def hostMAC_def virtual_bytes PutUint16_def ip_header_def subslice_def)
qed

lemma arp_reply_eq:
  "arp_reply frame =
     (if length frame < 42 \<or> Uint16 (subslice 14 16 frame) \<noteq> 1 \<or> Uint16 (subslice 16 18 frame) \<noteq> 0x0800 \<or>
         frame ! 18 \<noteq> 6 \<or> frame ! 19 \<noteq> 4 \<or> Uint16 (subslice 20 22 frame) \<noteq> 1 \<or>
         subslice 28 32 frame \<noteq> AsSlice virtualGuest \<or> subslice 38 42 frame \<noteq> AsSlice virtualHost
      then None else Some (arp_answer hostMAC [10, 0, 0, 1] frame))"
proof (cases "length frame < 42")
  case False
  have "length hostMAC = 6" "length (AsSlice virtualHost) = 4" by (simp_all add: hostMAC_def virtual_bytes)
  from arp_answer_writes [OF False this] show ?thesis
    unfolding arp_reply_def Let_def by (simp only: virtual_bytes)
qed (simp add: arp_reply_def)

text \<open>What the virtual machine reads from a frame the relay builds.\<close>

lemma nativePacket_ethernetPacket:
  assumes "28 \<le> length payload" and "length payload \<le> 65515"
  shows "nativePacket (drop 14 (ethernetPacket payload tos)) virtualHost virtualGuest = Some (payload, tos)"
proof -
  define n :: u16 where "n = of_nat (20 + length payload)"
  define h where "h = ip_header n tos (ipChecksum (ip_header n tos 0))"
  have d: "drop 14 (ethernetPacket payload tos) = h @ payload"
    by (simp add: ethernetPacket_eq guestMAC_def hostMAC_def n_def h_def)
  have n: "unat n = 20 + length payload"
    unfolding n_def unsigned_of_nat using assms(2) by (simp add: take_bit_nat_eq_self)
  have zero: "Uint16 [0, 0] = 0" by (simp add: Uint16_def)
  have f: "length h = 20" "h ! 0 = 0x45" "h ! Suc 0 = tos" "h ! 9 = 146" "subslice 2 4 h = PutUint16 n"
    "subslice 6 8 h = [0, 0]" "subslice 12 16 h = [10, 0, 0, 1]" "subslice 16 20 h = [10, 0, 0, 2]"
    "ipChecksum h = 0"
    using header_verifies by (simp_all add: h_def ip_header_fields flip: One_nat_def)
  show ?thesis
    unfolding nativePacket_def d Let_def
    using assms by (simp add: nth_append subslice_in_prefix subslice_append_skip f n zero virtual_bytes)
qed

lemma nativePacket_bounds:
  assumes "nativePacket ip source destination = Some (p, tos)"
  shows "28 \<le> length p" and "length p \<le> 65515" and "tos = ip ! 1"
    and "\<exists>h. 20 \<le> h \<and> h \<le> length ip \<and> p = take (length p) (drop h ip)"
proof -
  let ?h = "unat (ip ! 0 AND 15) * 4" and ?t = "unat (Uint16 (subslice 2 4 ip))"
  have *: "20 \<le> ?h" "?h + 28 \<le> ?t" "?t \<le> length ip" "p = subslice ?h ?t ip" "tos = ip ! 1"
    using assms by (auto simp: nativePacket_def Let_def split: if_splits)
  then show "28 \<le> length p" "tos = ip ! 1" by simp_all
  show "length p \<le> 65515" using * unat_u16 [of "Uint16 (subslice 2 4 ip)"] by simp
  show "\<exists>h. 20 \<le> h \<and> h \<le> length ip \<and> p = take (length p) (drop h ip)"
    using * by (intro exI [of _ ?h]) (simp add: subslice_def)
qed

text \<open>The relay is transparent: what it accepts as a native packet is a contiguous part of the received
  datagram, and the frame it builds from it is a valid IPv4 packet from the virtual host to the guest
  that carries the same Homa bytes and the same traffic class.\<close>

lemma relay_transparent:
  assumes "nativePacket ip source destination = Some (p, tos)"
  shows "(\<exists>h. 20 \<le> h \<and> p = take (length p) (drop h ip)) \<and> tos = ip ! 1 \<and>
    take 14 (ethernetPacket p tos) = guestMAC @ hostMAC @ [8, 0] \<and>
    nativePacket (drop 14 (ethernetPacket p tos)) virtualHost virtualGuest = Some (p, tos)"
  using nativePacket_bounds [OF assms] nativePacket_ethernetPacket [of p tos]
  by (auto simp: ethernetPacket_eq guestMAC_def hostMAC_def)

section \<open>The allowlist and the wire format\<close>

lemma lengths_HeaderSize: "lengths t = (if t = FreezeType then None else HeaderSize t)"
  by (simp add: lengths_def HeaderSize_def type_defs size_defs)

lemma Parse_complete:
  "Parse p \<noteq> Inl ErrTruncated \<and> Parse p \<noteq> Inl ErrType \<longleftrightarrow>
   28 \<le> length p \<and> (\<exists>n. HeaderSize (p ! 11) = Some n \<and> n \<le> length p)"
proof (cases "HeaderSize (p ! 11)")
  case (Some n)
  then show ?thesis using parseBody_no_panic [of "parseCommon p" n p]
    by (auto simp: Parse_def size_defs)
qed (simp add: Parse_def size_defs)

text \<open>C34. The relay lets through exactly the packets of the two allowed port pairs of their direction that
  the wire format knows and finds complete, FREEZE excepted. (An ACK that claims too many records is
  let through, and then rejected by its receiver.)\<close>

theorem allowlist_correct:
  "allowedHoma p fromLAN \<longleftrightarrow>
     Parse p \<noteq> Inl ErrTruncated \<and> Parse p \<noteq> Inl ErrType \<and> PacketType (parseCommon p) \<noteq> FreezeType \<and>
     (SourcePort (parseCommon p), DestinationPort (parseCommon p)) \<in>
       (if fromLAN then {(4003, 4000), (4001, 4002)} else {(4000, 4003), (4002, 4001)})"
proof -
  have "allowedHoma p fromLAN \<longleftrightarrow>
     (28 \<le> length p \<and> (\<exists>n. HeaderSize (p ! 11) = Some n \<and> n \<le> length p)) \<and> p ! 11 \<noteq> FreezeType \<and>
     (Uint16 (subslice 0 2 p), Uint16 (subslice 2 4 p)) \<in>
       (if fromLAN then {(4003, 4000), (4001, 4002)} else {(4000, 4003), (4002, 4001)})"
    by (cases fromLAN) (auto simp: allowedHoma_def Let_def lengths_HeaderSize split: option.splits)
  then show ?thesis unfolding Parse_complete [symmetric] by (auto simp: parseCommon_def)
qed

section \<open>The record of acknowledged calls\<close>

text \<open>The calls a packet acknowledges, read from the parsed packet: the RPC of an ACK and its further
  records for the guest's server, or the record of a DATA packet.\<close>

fun acknowledged :: "packet \<Rightarrow> u64 list" where
  "acknowledged (Ack a) = SenderID (a_common a) #
     map ClientID (filter (\<lambda>r. ServerPort r = 4000) (take (unat (NumAcks a)) (Acks a)))"
| "acknowledged (Data d) = (if ServerPort (d_ack d) = 4000 then [ClientID (d_ack d)] else [])"
| "acknowledged _ = []"

definition from_client :: "common \<Rightarrow> bool" where
  "from_client h \<longleftrightarrow> SourcePort h = 4003 \<and> DestinationPort h = 4000"

lemma foldl_note_filter:
  "foldl (\<lambda>acks i. if P i then note_ack acks (f i) else acks) acks is = foldl note_ack acks (map f (filter P is))"
  by (induction "is" arbitrary: acks) simp_all

lemma ack_records:
  assumes "80 \<le> length p" and "c \<le> 5"
  shows "map (\<lambda>i. Uint64 (subslice (30 + i * 10) (38 + i * 10) p))
      (filter (\<lambda>i. Uint16 (subslice (38 + i * 10) (40 + i * 10) p) = 4000) [0..<c]) =
    map ClientID (filter (\<lambda>r. ServerPort r = 4000)
      (take c (map (\<lambda>i. parseAck (subslice (30 + i * 10) (40 + i * 10) p)) [0..<5])))"
proof -
  have "take c (map f [0..<5]) = map f [0..<c]" for f :: "nat \<Rightarrow> ack_record"
    using assms(2) by (simp add: take_map)
  then show ?thesis
    by (simp add: filter_map o_def parseAck_def subslice_subslice algebra_simps)
qed

lemma noteAcks_parsed:
  assumes "Parse p = Inr pkt"
  shows "noteAcks p acks = (if from_client (Header pkt) then foldl note_ack acks (acknowledged pkt) else acks)"
proof -
  from assms obtain n where n: "28 \<le> length p" "HeaderSize (p ! 11) = Some n" "n \<le> length p"
    and body: "parseBody (parseCommon p) p = Inr pkt" by (rule Parse_InrD)
  have h: "Header pkt = parseCommon p" using Parse_cases [OF assms] by simp
  have ports: "from_client (Header pkt) \<longleftrightarrow> Uint16 (subslice 0 2 p) = 4003 \<and> Uint16 (subslice 2 4 p) = 4000"
    by (simp add: h from_client_def parseCommon_def)
  consider (ack) "p ! 11 = AckType" | (data) "p ! 11 = DataType" | (other) "p ! 11 \<noteq> AckType" "p ! 11 \<noteq> DataType"
    by blast
  then show ?thesis
  proof cases
    case ack
    then have len: "80 \<le> length p" using n by (simp add: HeaderSize_def size_defs)
    from body ack show ?thesis
      by (auto simp: noteAcks_def ports parseBody_def Let_def size_defs type_defs foldl_note_filter ack_records [OF len]
          parseCommon_def split: if_splits)
  next
    case data
    from body data show ?thesis
      by (auto simp: noteAcks_def ports parseBody_def Let_def size_defs type_defs parseAck_def subslice_subslice)
  next
    case other
    then show ?thesis using body
      by (auto simp: noteAcks_def ports parseBody_def Let_def type_defs split: if_splits)
  qed
qed

definition client_id :: "u64 \<Rightarrow> bool" where
  "client_id i \<longleftrightarrow> i \<noteq> 0 \<and> i AND 1 = 0"

definition acks_ok :: "u64 set \<Rightarrow> bool" where
  "acks_ok acks \<longleftrightarrow> finite acks \<and> card acks \<le> 1024 \<and> acks \<subseteq> Collect client_id"

lemma note_ack_ok: "acks_ok acks \<Longrightarrow> acks_ok (note_ack acks i)"
  by (auto simp: acks_ok_def note_ack_def client_id_def card_insert_if)

lemma note_acks_ok: "acks_ok acks \<Longrightarrow> acks_ok (foldl note_ack acks is)"
  by (induction "is" arbitrary: acks) (simp_all add: note_ack_ok)

lemma note_acks_mono: "acks \<subseteq> foldl note_ack acks is"
proof (induction "is" arbitrary: acks)
  case (Cons i "is")
  have "acks \<subseteq> note_ack acks i" by (auto simp: note_ack_def)
  then show ?case using Cons [of "note_ack acks i"] by simp
qed simp

lemma note_acks_subset: "foldl note_ack acks is \<subseteq> acks \<union> Collect client_id \<inter> set is"
proof (induction "is" arbitrary: acks)
  case (Cons i "is")
  have "note_ack acks i \<subseteq> acks \<union> Collect client_id \<inter> {i}" by (auto simp: note_ack_def client_id_def)
  then show ?case using Cons [of "note_ack acks i"] by auto
qed simp

text \<open>An identifier that is not recorded met a full record.\<close>

lemma note_acks_missed:
  assumes "acks_ok acks" and "i \<in> set is" and "client_id i" and "i \<notin> foldl note_ack acks is"
  shows "card (foldl note_ack acks is) = 1024"
  using assms
proof (induction "is" arbitrary: acks)
  case (Cons j "is")
  have ok: "acks_ok (note_ack acks j)" by (rule note_ack_ok [OF Cons.prems(1)])
  show ?case
  proof (cases "i \<in> set is")
    case True
    then show ?thesis using Cons.IH [OF ok] Cons.prems by simp
  next
    case False
    then have "i = j" using Cons.prems by simp
    have "i \<notin> note_ack acks i" using Cons.prems(4) note_acks_mono [of "note_ack acks i" "is"] \<open>i = j\<close> by auto
    then have full: "card acks = 1024" "note_ack acks j = acks"
      using Cons.prems(1,3) \<open>i = j\<close> by (auto simp: note_ack_def client_id_def acks_ok_def split: if_splits)
    have "acks_ok (foldl note_ack acks is)" by (rule note_acks_ok [OF Cons.prems(1)])
    then have "card (foldl note_ack acks is) = 1024"
      using card_mono [OF _ note_acks_mono [of acks "is"]] full(1) by (simp add: acks_ok_def)
    then show ?thesis by (simp add: full(2))
  qed
qed simp

lemma note_acks_stable:
  assumes "\<And>i. i \<in> set is \<Longrightarrow> client_id i \<Longrightarrow> i \<notin> acks \<Longrightarrow> 1024 \<le> card acks"
  shows "foldl note_ack acks is = acks"
  using assms
proof (induction "is")
  case (Cons i "is")
  have "note_ack acks i = acks" using Cons.prems [of i]
    by (cases "i \<in> acks") (auto simp: note_ack_def client_id_def insert_absorb)
  moreover have "foldl note_ack acks is = acks" by (rule Cons.IH) (use Cons.prems in auto)
  ultimately show ?case by simp
qed simp


definition sample_ack :: packet where
  "sample_ack = Ack \<lparr>a_common = NewCommon AckType 4003 4000 8, NumAcks = 2,
     Acks = [\<lparr>ClientID = 6, ServerPort = 4000\<rparr>, \<lparr>ClientID = 12, ServerPort = 9\<rparr>,
       \<lparr>ClientID = 0, ServerPort = 0\<rparr>, \<lparr>ClientID = 0, ServerPort = 0\<rparr>, \<lparr>ClientID = 0, ServerPort = 0\<rparr>]\<rparr>"

lemma sample_ack_parse: "Parse (layout sample_ack) = Inr sample_ack"
proof -
  have "wf_packet sample_ack" "Marshal (Val sample_ack) = Inr (layout sample_ack)"
    by (simp_all add: marshalValue_eq sample_ack_def wf_packet_def NewCommon_def HeaderSize_def size_defs maxInt_def)
  from Parse_Marshal [OF this, of "[]"] show ?thesis by (simp add: sample_ack_def)
qed

lemma sample_ack_noted: "noteAcks (layout sample_ack) {} = {6, 8}"
  by (simp add: noteAcks_parsed [OF sample_ack_parse])
    (auto simp: sample_ack_def NewCommon_def from_client_def note_ack_def)

lemma sample_ack_allowed: "allowedHoma (layout sample_ack) True" "length (layout sample_ack) = 80"
  by (simp_all add: allowedHoma_def layout_def layout_common_def layout_ack_def sample_ack_def NewCommon_def
      subslice_def PutUint16_def PutUint32_def PutUint64_def Uint16_def lengths_def type_defs)


end
