(* ===== verification/Relay_Run.thy ===== *)
theory Relay_Run
  imports Relay
begin

unbundle bit_operations_syntax

text \<open>
  The two packet loops of the LAN relay, \<^verbatim>\<open>interop/lanrelay/main.go\<close>, with the report they keep, and the
  loop of \<^verbatim>\<open>run\<close> that supervises them. The loops run concurrently; a run of the relay is a sequence of
  events, each one iteration of one loop (the parts of an iteration that touch shared state hold a
  lock each, and touch different parts of it).
\<close>

section \<open>The report\<close>

record report =
  Path :: string
  Local :: string
  Peer :: string
  LANToVM :: u64
  VMToLAN :: u64
  DroppedLAN :: u64
  DroppedVM :: u64
  LANSendBufferDrops :: u64
  ObservedLANIngressTOS :: "u8 \<rightharpoonup> u64"
  ObservedVMIngressTOS :: "u8 \<rightharpoonup> u64"
  RequestedLANEgressTOS :: "u8 \<rightharpoonup> u64"
  MacClientRPCsAcknowledged :: nat
  KernelServerRequestsReceived :: nat
  KernelClientSweepPassed :: bool
  Complete :: bool
  ErrorText :: string

record state =
  st_report :: report
  st_acks :: "u64 set"

text \<open>\<^verbatim>\<open>m[k]++\<close> on a map of counters: a missing entry counts from 0.\<close>

definition bump :: "u8 \<Rightarrow> (u8 \<rightharpoonup> u64) \<Rightarrow> (u8 \<rightharpoonup> u64)" where
  "bump k m = m(k \<mapsto> (case m k of None \<Rightarrow> 0 | Some v \<Rightarrow> v) + 1)"

text \<open>The loop of \<^verbatim>\<open>cloneMap\<close> over the keys in the order the runtime picks.\<close>

definition cloneMap :: "u8 list \<Rightarrow> (u8 \<rightharpoonup> u64) \<Rightarrow> (u8 \<rightharpoonup> u64)" where
  "cloneMap ks m = foldl (\<lambda>out k. out(k := m k)) Map.empty ks"

definition snapshot :: "((u8 \<rightharpoonup> u64) \<Rightarrow> u8 list) \<Rightarrow> state \<Rightarrow> report" where
  "snapshot keys s =
     (let r = st_report s in
      r\<lparr>MacClientRPCsAcknowledged := card (st_acks s),
        ObservedLANIngressTOS := cloneMap (keys (ObservedLANIngressTOS r)) (ObservedLANIngressTOS r),
        ObservedVMIngressTOS := cloneMap (keys (ObservedVMIngressTOS r)) (ObservedVMIngressTOS r),
        RequestedLANEgressTOS := cloneMap (keys (RequestedLANEgressTOS r)) (RequestedLANEgressTOS r)\<rparr>)"

definition upd_report :: "(report \<Rightarrow> report) \<Rightarrow> state \<Rightarrow> state" where
  "upd_report f s = s\<lparr>st_report := f (st_report s)\<rparr>"

section \<open>The link to the virtual machine\<close>

definition nic_write :: "bytes \<Rightarrow> conn \<Rightarrow> io_error option \<times> conn" where
  "nic_write frame c =
     (case set_deadline c of
        (Some e, c) \<Rightarrow> (Some e, c)
      | (None, c) \<Rightarrow> write_loop (length_prefixed frame) c)"

definition nic_read :: "conn \<Rightarrow> (io_error + bytes) \<times> conn" where
  "nic_read = read_sized 14 (65535 + 14)"

definition nic_arp :: "bytes \<Rightarrow> conn \<Rightarrow> io_error option \<times> conn" where
  "nic_arp frame c = (case arp_reply frame of None \<Rightarrow> (None, c) | Some reply \<Rightarrow> nic_write reply c)"

section \<open>The packet loops\<close>

text \<open>One iteration of \<^verbatim>\<open>lanToVM\<close> for a datagram and whether it was truncated.\<close>

definition lanToVM :: "netip \<Rightarrow> netip \<Rightarrow> bytes \<Rightarrow> bool \<Rightarrow> conn \<Rightarrow> state \<Rightarrow> io_error option \<times> conn \<times> state" where
  "lanToVM local peer buf trunc c s =
     (let dropped = (None, c, upd_report (\<lambda>r. r\<lparr>DroppedLAN := DroppedLAN r + 1\<rparr>) s) in
      case nativePacket buf peer local of
        None \<Rightarrow> dropped
      | Some (p, tos) \<Rightarrow>
          if trunc \<or> \<not> allowedHoma p True then dropped
          else case nic_write (ethernetPacket p tos) c of
            (Some e, c) \<Rightarrow> (Some e, c, s)
          | (None, c) \<Rightarrow>
              (None, c, (upd_report (\<lambda>r. r\<lparr>LANToVM := LANToVM r + 1,
                 ObservedLANIngressTOS := bump tos (ObservedLANIngressTOS r)\<rparr>) s)
                 \<lparr>st_acks := noteAcks p (st_acks s)\<rparr>))"

definition transientSendDrop :: "io_error \<Rightarrow> bool" where
  "transientSendDrop e \<longleftrightarrow> e = ENOBUFS \<or> e = EAGAIN"

text \<open>The part of an iteration of \<^verbatim>\<open>vmToLAN\<close> that sends an accepted packet to the LAN.\<close>

definition sendLAN :: "netip \<Rightarrow> bytes \<Rightarrow> u8 \<Rightarrow> raw \<Rightarrow> state \<Rightarrow> io_error option \<times> raw \<times> state" where
  "sendLAN peer p tos w s =
     (case raw_call w of
        (Some e, w) \<Rightarrow> (Some e, w, s)
      | (None, w) \<Rightarrow>
     (case set_tos (int (unat tos)) w of
        (Some e, w) \<Rightarrow> (Some e, w, s)
      | (None, w) \<Rightarrow>
     (case raw_call w of
        (Some e, w) \<Rightarrow> (Some e, w, s)
      | (None, w) \<Rightarrow>
          let s = upd_report (\<lambda>r. r\<lparr>ObservedVMIngressTOS := bump tos (ObservedVMIngressTOS r),
                RequestedLANEgressTOS := bump tos (RequestedLANEgressTOS r)\<rparr>) s in
          case WriteToIP p peer w of
            (Inl e, w) \<Rightarrow>
              if transientSendDrop e then
                (None, w, upd_report (\<lambda>r. r\<lparr>DroppedVM := DroppedVM r + 1,
                   LANSendBufferDrops := LANSendBufferDrops r + 1\<rparr>) s)
              else (Some e, w, s)
          | (Inr n, w) \<Rightarrow>
              if n \<noteq> length p then (Some ErrShortWrite, w, s)
              else (None, w, upd_report (\<lambda>r. r\<lparr>VMToLAN := VMToLAN r + 1\<rparr>) s))))"

text \<open>One iteration of \<^verbatim>\<open>vmToLAN\<close>.\<close>

definition vmToLAN :: "netip \<Rightarrow> conn \<Rightarrow> raw \<Rightarrow> state \<Rightarrow> io_error option \<times> conn \<times> raw \<times> state" where
  "vmToLAN peer c w s =
     (case nic_read c of
        (Inl e, c) \<Rightarrow> (Some e, c, w, s)
      | (Inr frame, c) \<Rightarrow>
          if Uint16 (subslice 12 14 frame) = 0x0806 then
            (case nic_arp frame c of (err, c) \<Rightarrow> (err, c, w, s))
          else if Uint16 (subslice 12 14 frame) \<noteq> 0x0800 \<or> subslice 6 12 frame \<noteq> guestMAC then (None, c, w, s)
          else
            (let dropped = (None, c, w, upd_report (\<lambda>r. r\<lparr>DroppedVM := DroppedVM r + 1\<rparr>) s) in
             case nativePacket (drop 14 frame) virtualGuest virtualHost of
               None \<Rightarrow> dropped
             | Some (p, tos) \<Rightarrow>
                 if \<not> allowedHoma p False then dropped
                 else case sendLAN peer p tos w s of (err, w, s) \<Rightarrow> (err, c, w, s)))"

section \<open>Runs\<close>

text \<open>The state both loops share, and the error each of them ended with, if it did.\<close>

record relay =
  link :: conn
  sock :: raw
  st :: state
  lan_err :: "io_error option"
  vm_err :: "io_error option"

text \<open>A datagram read from the LAN, an error of that read, a turn of the loop that reads from the virtual
  machine.\<close>

datatype relay_event = LanIn bytes bool | LanErr io_error | VmIn

fun relay_enabled :: "relay_event \<Rightarrow> relay \<Rightarrow> bool" where
  "relay_enabled VmIn n \<longleftrightarrow> vm_err n = None"
| "relay_enabled _ n \<longleftrightarrow> lan_err n = None"

fun relay_step :: "netip \<Rightarrow> netip \<Rightarrow> relay_event \<Rightarrow> relay \<Rightarrow> relay" where
  "relay_step local peer (LanIn buf trunc) n =
     (case lanToVM local peer buf trunc (link n) (st n) of (err, c, s) \<Rightarrow> n\<lparr>link := c, st := s, lan_err := err\<rparr>)"
| "relay_step local peer (LanErr e) n = n\<lparr>lan_err := Some e\<rparr>"
| "relay_step local peer VmIn n =
     (case vmToLAN peer (link n) (sock n) (st n) of (err, c, w, s) \<Rightarrow>
        n\<lparr>link := c, sock := w, st := s, vm_err := err\<rparr>)"

inductive relay_run :: "netip \<Rightarrow> netip \<Rightarrow> relay \<Rightarrow> relay_event list \<Rightarrow> relay \<Rightarrow> bool" for local peer n0 where
  start: "relay_run local peer n0 [] n0"
| more: "relay_run local peer n0 evs n \<Longrightarrow> relay_enabled ev n \<Longrightarrow>
    relay_run local peer n0 (evs @ [ev]) (relay_step local peer ev n)"

text \<open>How a run starts: an empty report, nothing sent.\<close>

definition zero_report :: report where
  "zero_report = \<lparr>Path = [], Local = [], Peer = [], LANToVM = 0, VMToLAN = 0, DroppedLAN = 0, DroppedVM = 0,
     LANSendBufferDrops = 0, ObservedLANIngressTOS = Map.empty, ObservedVMIngressTOS = Map.empty,
     RequestedLANEgressTOS = Map.empty, MacClientRPCsAcknowledged = 0, KernelServerRequestsReceived = 0,
     KernelClientSweepPassed = False, Complete = False, ErrorText = []\<rparr>"

definition fresh :: "relay \<Rightarrow> bool" where
  "fresh n \<longleftrightarrow> (\<exists>p l q. st_report (st n) = zero_report\<lparr>Path := p, Local := l, Peer := q\<rparr>) \<and>
     st_acks (st n) = {} \<and> c_out (link n) = [] \<and> rw_sent (sock n) = [] \<and> lan_err n = None \<and> vm_err n = None"

text \<open>What the relay must forward from the LAN: the complete, allowed packets of the peer.\<close>

definition lan_packet :: "netip \<Rightarrow> netip \<Rightarrow> relay_event \<Rightarrow> (bytes \<times> u8) option" where
  "lan_packet local peer ev =
     (case ev of
        LanIn buf False \<Rightarrow>
          (case nativePacket buf peer local of
             Some (p, tos) \<Rightarrow> if allowedHoma p True then Some (p, tos) else None
           | None \<Rightarrow> None)
      | _ \<Rightarrow> None)"

definition accepted :: "netip \<Rightarrow> netip \<Rightarrow> relay_event list \<Rightarrow> (bytes \<times> u8) list" where
  "accepted local peer evs = map (\<lambda>ev. the (lan_packet local peer ev)) (filter (\<lambda>ev. lan_packet local peer ev \<noteq> None) evs)"

fun is_datagram :: "relay_event \<Rightarrow> bool" where
  "is_datagram (LanIn buf trunc) = True"
| "is_datagram _ = False"

definition is_ipv4 :: "bytes \<Rightarrow> bool" where
  "is_ipv4 f \<longleftrightarrow> Uint16 (subslice 12 14 f) = 0x0800"

text \<open>A packet the guest sent: its frame is part of what came over the link.\<close>

definition from_guest :: "bytes \<Rightarrow> bytes \<Rightarrow> int \<Rightarrow> bool" where
  "from_guest stream p tos \<longleftrightarrow>
     (\<exists>a frame b t. stream = a @ length_prefixed frame @ b \<and> subslice 6 12 frame = guestMAC \<and>
        nativePacket (drop 14 frame) virtualGuest virtualHost = Some (p, t) \<and> tos = int (unat t))"

definition lan_side :: "netip \<Rightarrow> netip \<Rightarrow> relay_event list \<Rightarrow> relay \<Rightarrow> bool" where
  "lan_side local peer evs n \<longleftrightarrow>
     (let acc = accepted local peer evs; r = st_report (st n) in
      LANToVM r = of_nat (length acc) \<and>
      LANToVM r + DroppedLAN r = of_nat (length (filter is_datagram evs)) \<and>
      st_acks (st n) = foldl (\<lambda>a (p, tos). noteAcks p a) {} acc \<and>
      (\<exists>fs. c_out (link n) = concat (map length_prefixed fs) \<and>
         filter is_ipv4 fs = map (\<lambda>(p, tos). ethernetPacket p tos) acc \<and>
         (\<forall>f \<in> set fs. \<not> is_ipv4 f \<longrightarrow> (\<exists>q. arp_reply q = Some f))))"

definition vm_side :: "netip \<Rightarrow> bytes \<Rightarrow> relay \<Rightarrow> bool" where
  "vm_side peer stream n \<longleftrightarrow>
     VMToLAN (st_report (st n)) = of_nat (length (rw_sent (sock n))) \<and>
     (\<exists>a. stream = a @ c_in (link n)) \<and>
     (\<forall>(p, dst, tos) \<in> set (rw_sent (sock n)). dst = peer \<and> allowedHoma p False \<and> from_guest stream p tos)"

section \<open>What the operations do\<close>

lemma nic_write_None:
  assumes "nic_write f c = (None, c')"
  shows "c_out c' = c_out c @ length_prefixed f" and "c_in c' = c_in c"
proof -
  have "write_loop (length_prefixed f) (snd (set_deadline c)) = (None, c')"
    using assms by (auto simp: nic_write_def split: prod.splits option.splits)
  from write_loop_bytes [OF this] show "c_out c' = c_out c @ length_prefixed f" "c_in c' = c_in c"
    by (auto simp: set_deadline_def)
qed

lemma arp_reply_type: "arp_reply q = Some f \<Longrightarrow> subslice 12 14 f = subslice 12 14 q"
  by (auto simp: arp_reply_eq arp_answer_shape hostMAC_def split: if_splits)

lemma ethernetPacket_ipv4: "is_ipv4 (ethernetPacket p tos)"
  by (simp add: is_ipv4_def ethernetPacket_eq guestMAC_def hostMAC_def subslice_def Uint16_def)

lemma lanToVM_None:
  assumes "lanToVM local peer buf trunc c s = (None, c', s')"
  shows "case lan_packet local peer (LanIn buf trunc) of
      None \<Rightarrow> c' = c \<and> s' = upd_report (\<lambda>r. r\<lparr>DroppedLAN := DroppedLAN r + 1\<rparr>) s
    | Some (p, tos) \<Rightarrow> c_out c' = c_out c @ length_prefixed (ethernetPacket p tos) \<and> c_in c' = c_in c \<and>
        s' = (upd_report (\<lambda>r. r\<lparr>LANToVM := LANToVM r + 1,
          ObservedLANIngressTOS := bump tos (ObservedLANIngressTOS r)\<rparr>) s)\<lparr>st_acks := noteAcks p (st_acks s)\<rparr>"
proof (cases "nativePacket buf peer local")
  case None
  then show ?thesis using assms by (cases trunc) (auto simp: lanToVM_def lan_packet_def)
next
  case (Some x)
  obtain p tos where x: "x = (p, tos)" by (cases x)
  show ?thesis
  proof (cases "trunc \<or> \<not> allowedHoma p True")
    case True
    then show ?thesis using assms Some x by (cases trunc) (auto simp: lanToVM_def lan_packet_def)
  next
    case False
    obtain r d where w: "nic_write (ethernetPacket p tos) c = (r, d)" by (cases "nic_write (ethernetPacket p tos) c")
    then have "r = None" "d = c'" using assms Some x False by (auto simp: lanToVM_def split: option.splits)
    with w nic_write_None [of "ethernetPacket p tos" c c'] show ?thesis
      using assms Some x False by (auto simp: lanToVM_def lan_packet_def)
  qed
qed

lemma accepted_snoc:
  "accepted local peer (evs @ [ev]) = accepted local peer evs @ (case lan_packet local peer ev of None \<Rightarrow> [] | Some x \<Rightarrow> [x])"
  by (auto simp: accepted_def split: option.split)

lemma lan_side_counts:
  assumes "lan_side local peer evs n"
  shows "LANToVM (st_report (st n)) = of_nat (length (accepted local peer evs))"
    and "of_nat (length (filter is_datagram evs)) = of_nat (length (accepted local peer evs)) + DroppedLAN (st_report (st n))"
    and "st_acks (st n) = foldl (\<lambda>a (p, tos). noteAcks p a) {} (accepted local peer evs)"
  using assms by (auto simp: lan_side_def Let_def)

lemma lan_side_LanIn:
  assumes "lan_side local peer evs n" and "lanToVM local peer buf trunc (link n) (st n) = (None, c, s)"
  shows "lan_side local peer (evs @ [LanIn buf trunc]) (n\<lparr>link := c, st := s, lan_err := None\<rparr>)"
proof -
  let ?acc = "accepted local peer evs"
  from assms(1) obtain fs where fs: "c_out (link n) = concat (map length_prefixed fs)"
    "filter is_ipv4 fs = map (\<lambda>(p, tos). ethernetPacket p tos) ?acc"
    "\<forall>f \<in> set fs. \<not> is_ipv4 f \<longrightarrow> (\<exists>q. arp_reply q = Some f)" by (auto simp: lan_side_def Let_def)
  note step = lanToVM_None [OF assms(2)]
  show ?thesis
  proof (cases "lan_packet local peer (LanIn buf trunc)")
    case None
    then show ?thesis using step assms(1)
      by (auto simp: lan_side_def Let_def accepted_snoc upd_report_def add.assoc [symmetric])
  next
    case (Some x)
    obtain p tos where x: "x = (p, tos)" by (cases x)
    have "c_out c = concat (map length_prefixed (fs @ [ethernetPacket p tos]))"
      using step Some x fs(1) by simp
    moreover have "filter is_ipv4 (fs @ [ethernetPacket p tos]) = map (\<lambda>(p, tos). ethernetPacket p tos) (?acc @ [(p, tos)])"
      using fs(2) ethernetPacket_ipv4 by simp
    moreover have "\<forall>f \<in> set (fs @ [ethernetPacket p tos]). \<not> is_ipv4 f \<longrightarrow> (\<exists>q. arp_reply q = Some f)"
      using fs(3) ethernetPacket_ipv4 by simp
    ultimately have "\<exists>fs. c_out c = concat (map length_prefixed fs) \<and>
        filter is_ipv4 fs = map (\<lambda>(p, tos). ethernetPacket p tos) (?acc @ [(p, tos)]) \<and>
        (\<forall>f \<in> set fs. \<not> is_ipv4 f \<longrightarrow> (\<exists>q. arp_reply q = Some f))" by blast
    then show ?thesis using step Some x lan_side_counts [OF assms(1)]
      by (simp add: lan_side_def Let_def accepted_snoc upd_report_def)
  qed
qed

lemma sendLAN_keeps:
  assumes "sendLAN peer p tos w s = (r, w', s')"
  shows "LANToVM (st_report s') = LANToVM (st_report s)" and "DroppedLAN (st_report s') = DroppedLAN (st_report s)"
    and "st_acks s' = st_acks s"
  using assms
  by (auto simp: sendLAN_def Let_def upd_report_def split: prod.splits option.splits sum.splits if_splits)

text \<open>The send succeeds with the packet on its way in its own class, or the datagram is dropped and
  counted.\<close>

lemma sendLAN_None:
  assumes "sendLAN peer p tos w s = (None, w', s')"
  shows "rw_sent w' = rw_sent w @ [(p, peer, int (unat tos))] \<and>
      VMToLAN (st_report s') = VMToLAN (st_report s) + 1 \<and> DroppedVM (st_report s') = DroppedVM (st_report s) \<or>
    rw_sent w' = rw_sent w \<and> VMToLAN (st_report s') = VMToLAN (st_report s) \<and>
      DroppedVM (st_report s') = DroppedVM (st_report s) + 1"
proof -
  from assms obtain a b c r d where
    "raw_call w = (None, a)" "set_tos (int (unat tos)) a = (None, b)" "raw_call b = (None, c)" "WriteToIP p peer c = (r, d)"
    by (auto simp: sendLAN_def Let_def split: prod.splits option.splits)
  then show ?thesis
    using assms raw_call_fields(1) [of w None a] raw_call_fields(2) [of "int (unat tos)" a None b]
      raw_call_fields(1) [of b None c] WriteToIP_cases [of p peer c]
    by (cases r) (auto simp: sendLAN_def Let_def upd_report_def split: if_splits)
qed

text \<open>The outcomes of an iteration of \<^verbatim>\<open>vmToLAN\<close> that returns to its loop, for the frame it read.\<close>

definition vm_outcome :: "netip \<Rightarrow> bytes \<Rightarrow> conn \<Rightarrow> raw \<Rightarrow> state \<Rightarrow> conn \<Rightarrow> raw \<Rightarrow> state \<Rightarrow> bool" where
  "vm_outcome peer frame d w s c' w' s' \<longleftrightarrow>
     (Uint16 (subslice 12 14 frame) = 0x0806 \<and> nic_arp frame d = (None, c') \<and> w' = w \<and> s' = s) \<or>
     (c' = d \<and> w' = w \<and> (s' = s \<or> s' = upd_report (\<lambda>r. r\<lparr>DroppedVM := DroppedVM r + 1\<rparr>) s)) \<or>
     (c' = d \<and> (\<exists>p tos. subslice 6 12 frame = guestMAC \<and> allowedHoma p False \<and>
        nativePacket (drop 14 frame) virtualGuest virtualHost = Some (p, tos) \<and>
        sendLAN peer p tos w s = (None, w', s')))"

lemma vmToLAN_outcome:
  assumes "vmToLAN peer c w s = (None, c', w', s')" and "nic_read c = (Inr frame, d)"
  shows "vm_outcome peer frame d w s c' w' s'"
proof (cases "Uint16 (subslice 12 14 frame) = 0x0806")
  case True
  then have "nic_arp frame d = (None, c') \<and> w' = w \<and> s' = s"
    using assms by (auto simp: vmToLAN_def split: prod.splits)
  then show ?thesis using True by (simp add: vm_outcome_def)
next
  case other: False
  show ?thesis
  proof (cases "Uint16 (subslice 12 14 frame) \<noteq> 0x0800 \<or> subslice 6 12 frame \<noteq> guestMAC")
    case True
    then have "c' = d \<and> w' = w \<and> s' = s" using assms other by (auto simp: vmToLAN_def)
    then show ?thesis by (simp add: vm_outcome_def)
  next
    case ip: False
    show ?thesis
    proof (cases "\<exists>p tos. nativePacket (drop 14 frame) virtualGuest virtualHost = Some (p, tos) \<and> allowedHoma p False")
      case True
      then obtain p tos where p: "nativePacket (drop 14 frame) virtualGuest virtualHost = Some (p, tos)" "allowedHoma p False"
        by blast
      then have "c' = d \<and> sendLAN peer p tos w s = (None, w', s')"
        using assms other ip by (auto simp: vmToLAN_def split: prod.splits)
      then show ?thesis using p ip unfolding vm_outcome_def by blast
    next
      case False
      then have "c' = d \<and> w' = w \<and> s' = upd_report (\<lambda>r. r\<lparr>DroppedVM := DroppedVM r + 1\<rparr>) s"
        using assms other ip by (auto simp: vmToLAN_def Let_def split: option.splits)
      then show ?thesis by (simp add: vm_outcome_def)
    qed
  qed
qed

lemma vmToLAN_reads:
  assumes "vmToLAN peer c w s = (None, c', w', s')"
  shows "\<exists>frame d. vm_outcome peer frame d w s c' w' s' \<and> c_in c = length_prefixed frame @ c_in d \<and>
    c_out d = c_out c \<and> c_in c' = c_in d"
proof -
  obtain frame d where r: "nic_read c = (Inr frame, d)"
    using assms by (auto simp: vmToLAN_def split: prod.splits sum.splits)
  have o: "vm_outcome peer frame d w s c' w' s'" by (rule vmToLAN_outcome [OF assms r])
  then have "c_in c' = c_in d"
    unfolding vm_outcome_def nic_arp_def using nic_write_None(2) by (auto split: option.splits)
  then show ?thesis using o read_sized_Inr [OF r [unfolded nic_read_def]] by blast
qed

lemma vm_outcome_lan:
  assumes "vm_outcome peer frame d w s c' w' s'"
  shows "LANToVM (st_report s') = LANToVM (st_report s) \<and> DroppedLAN (st_report s') = DroppedLAN (st_report s) \<and>
    st_acks s' = st_acks s"
    and "c_out c' = c_out d \<or> (\<exists>f. c_out c' = c_out d @ length_prefixed f \<and> arp_reply frame = Some f \<and> \<not> is_ipv4 f)"
proof -
  show "LANToVM (st_report s') = LANToVM (st_report s) \<and> DroppedLAN (st_report s') = DroppedLAN (st_report s) \<and>
    st_acks s' = st_acks s"
    using assms sendLAN_keeps [of peer _ _ w s None w' s'] unfolding vm_outcome_def by (auto simp: upd_report_def)
  show "c_out c' = c_out d \<or> (\<exists>f. c_out c' = c_out d @ length_prefixed f \<and> arp_reply frame = Some f \<and> \<not> is_ipv4 f)"
  proof (cases "Uint16 (subslice 12 14 frame) = 0x0806 \<and> nic_arp frame d = (None, c')")
    case True
    show ?thesis
    proof (cases "arp_reply frame")
      case None
      then show ?thesis using True by (simp add: nic_arp_def)
    next
      case (Some f)
      have "\<not> is_ipv4 f" using True arp_reply_type [OF Some] by (simp add: is_ipv4_def)
      moreover have "c_out c' = c_out d @ length_prefixed f"
        using True Some nic_write_None(1) by (simp add: nic_arp_def)
      ultimately show ?thesis using Some by blast
    qed
  qed (use assms in \<open>auto simp: vm_outcome_def\<close>)
qed

lemma vm_outcome_sent:
  assumes "vm_outcome peer frame d w s c' w' s'"
  shows "rw_sent w' = rw_sent w \<and> VMToLAN (st_report s') = VMToLAN (st_report s) \<or>
    (\<exists>p tos. rw_sent w' = rw_sent w @ [(p, peer, int (unat tos))] \<and> VMToLAN (st_report s') = VMToLAN (st_report s) + 1 \<and>
       subslice 6 12 frame = guestMAC \<and> allowedHoma p False \<and>
       nativePacket (drop 14 frame) virtualGuest virtualHost = Some (p, tos))"
proof (cases "w' = w \<and> (s' = s \<or> s' = upd_report (\<lambda>r. r\<lparr>DroppedVM := DroppedVM r + 1\<rparr>) s)")
  case True
  then show ?thesis by (auto simp: upd_report_def)
next
  case False
  then obtain p tos where p: "subslice 6 12 frame = guestMAC" "allowedHoma p False"
    "nativePacket (drop 14 frame) virtualGuest virtualHost = Some (p, tos)" "sendLAN peer p tos w s = (None, w', s')"
    using assms unfolding vm_outcome_def by blast
  then show ?thesis using sendLAN_None [OF p(4)] by blast
qed

lemma lan_side_VmIn:
  assumes "lan_side local peer evs n" and "vmToLAN peer (link n) (sock n) (st n) = (None, c, w, s)"
  shows "lan_side local peer (evs @ [VmIn]) (n\<lparr>link := c, sock := w, st := s, vm_err := None\<rparr>)"
proof -
  obtain frame d where o: "vm_outcome peer frame d (sock n) (st n) c w s" "c_out d = c_out (link n)"
    using vmToLAN_reads [OF assms(2)] by blast
  note lan = vm_outcome_lan [OF o(1)]
  from assms(1) obtain fs where fs: "c_out (link n) = concat (map length_prefixed fs)"
    "filter is_ipv4 fs = map (\<lambda>(p, tos). ethernetPacket p tos) (accepted local peer evs)"
    "\<forall>f \<in> set fs. \<not> is_ipv4 f \<longrightarrow> (\<exists>q. arp_reply q = Some f)" by (auto simp: lan_side_def Let_def)
  from lan(2) have "\<exists>fs. c_out c = concat (map length_prefixed fs) \<and>
      filter is_ipv4 fs = map (\<lambda>(p, tos). ethernetPacket p tos) (accepted local peer evs) \<and>
      (\<forall>f \<in> set fs. \<not> is_ipv4 f \<longrightarrow> (\<exists>q. arp_reply q = Some f))"
  proof
    assume "c_out c = c_out d"
    then show ?thesis using fs o(2) by (intro exI [of _ fs]) simp
  next
    assume "\<exists>f. c_out c = c_out d @ length_prefixed f \<and> arp_reply frame = Some f \<and> \<not> is_ipv4 f"
    then obtain f where "c_out c = c_out d @ length_prefixed f" "arp_reply frame = Some f" "\<not> is_ipv4 f" by blast
    then show ?thesis using fs o(2) by (intro exI [of _ "fs @ [f]"]) auto
  qed
  then show ?thesis using lan(1) lan_side_counts [OF assms(1)]
    by (simp add: lan_side_def Let_def accepted_snoc lan_packet_def)
qed

lemma vm_side_VmIn:
  assumes "vm_side peer stream n" and "vmToLAN peer (link n) (sock n) (st n) = (None, c, w, s)"
  shows "vm_side peer stream (n\<lparr>link := c, sock := w, st := s, vm_err := None\<rparr>)"
proof -
  obtain frame d where o: "vm_outcome peer frame d (sock n) (st n) c w s"
    "c_in (link n) = length_prefixed frame @ c_in d" "c_in c = c_in d"
    using vmToLAN_reads [OF assms(2)] by blast
  obtain a where a: "stream = a @ length_prefixed frame @ c_in c"
    using assms(1) o(2,3) by (auto simp: vm_side_def)
  then have str: "\<exists>a. stream = a @ c_in c" by (metis append.assoc)
  from vm_outcome_sent [OF o(1)] show ?thesis
  proof
    assume "rw_sent w = rw_sent (sock n) \<and> VMToLAN (st_report s) = VMToLAN (st_report (st n))"
    then show ?thesis using assms(1) str by (simp add: vm_side_def)
  next
    assume "\<exists>p tos. rw_sent w = rw_sent (sock n) @ [(p, peer, int (unat tos))] \<and>
       VMToLAN (st_report s) = VMToLAN (st_report (st n)) + 1 \<and>
       subslice 6 12 frame = guestMAC \<and> allowedHoma p False \<and>
       nativePacket (drop 14 frame) virtualGuest virtualHost = Some (p, tos)"
    then obtain p tos where p: "rw_sent w = rw_sent (sock n) @ [(p, peer, int (unat tos))]"
      "VMToLAN (st_report s) = VMToLAN (st_report (st n)) + 1" "subslice 6 12 frame = guestMAC" "allowedHoma p False"
      "nativePacket (drop 14 frame) virtualGuest virtualHost = Some (p, tos)" by blast
    then have "from_guest stream p (int (unat tos))" using a unfolding from_guest_def by blast
    then show ?thesis using assms(1) str p by (simp add: vm_side_def)
  qed
qed

lemma vm_side_LanIn:
  assumes "vm_side peer stream n" and "lanToVM local peer buf trunc (link n) (st n) = (None, c, s)"
  shows "vm_side peer stream (n\<lparr>link := c, st := s, lan_err := None\<rparr>)"
proof -
  have "c_in c = c_in (link n)" "VMToLAN (st_report s) = VMToLAN (st_report (st n))"
    using lanToVM_None [OF assms(2)] by (auto simp: upd_report_def split: option.splits)
  then show ?thesis using assms(1) by (simp add: vm_side_def)
qed

section \<open>Properties\<close>

lemma fresh_sides: "fresh n \<Longrightarrow> lan_side local peer [] n \<and> vm_side peer (c_in (link n)) n"
  by (auto simp: fresh_def lan_side_def vm_side_def accepted_def zero_report_def Let_def intro!: exI [of _ "[]"])

lemma relay_run_sides:
  assumes "relay_run local peer n0 evs n" and "fresh n0" and "lan_err n = None" and "vm_err n = None"
  shows "lan_side local peer evs n \<and> vm_side peer (c_in (link n0)) n"
  using assms
proof (induction rule: relay_run.induct)
  case start
  then show ?case by (simp add: fresh_sides)
next
  case (more evs n ev)
  show ?case
  proof (cases ev)
    case (LanIn buf trunc)
    obtain err c s where l: "lanToVM local peer buf trunc (link n) (st n) = (err, c, s)"
      by (cases "lanToVM local peer buf trunc (link n) (st n)")
    then have e: "err = None" "vm_err n = None" "lan_err n = None" using more.prems more.hyps LanIn by simp_all
    then have "lan_side local peer evs n" "vm_side peer (c_in (link n0)) n" using more.IH more.prems by simp_all
    then show ?thesis using lan_side_LanIn vm_side_LanIn l e LanIn by simp
  next
    case (LanErr e)
    then show ?thesis using more.prems by simp
  next
    case VmIn
    obtain err c w s where v: "vmToLAN peer (link n) (sock n) (st n) = (err, c, w, s)"
      by (cases "vmToLAN peer (link n) (sock n) (st n)")
    then have e: "err = None" "vm_err n = None" "lan_err n = None" using more.prems more.hyps VmIn by simp_all
    then have "lan_side local peer evs n" "vm_side peer (c_in (link n0)) n" using more.IH more.prems by simp_all
    then show ?thesis using lan_side_VmIn vm_side_VmIn v e VmIn by simp
  qed
qed


definition sample_conn :: conn where
  "sample_conn = \<lparr>c_in = [], c_fin = EOF, c_out = [], c_calls = 0, c_write = (\<lambda>_. (1000, None)), c_deadline = (\<lambda>_. None)\<rparr>"

definition sample_relay :: relay where
  "sample_relay = \<lparr>link = sample_conn,
     sock = \<lparr>rw_tos = 0, rw_sent = [], rw_calls = 0, rw_syscall = (\<lambda>_. None), rw_write = (\<lambda>_. (65535, None))\<rparr>,
     st = \<lparr>st_report = zero_report, st_acks = {}\<rparr>, lan_err = None, vm_err = None\<rparr>"

definition sample_datagram :: bytes where
  "sample_datagram = drop 14 (ethernetPacket (layout sample_ack) 32)"


section \<open>The stream to the virtual machine\<close>

interpretation vm_link: framing length_prefixed nic_read frame_ok
  unfolding nic_read_def by (rule ethernet_framing)

lemma nic_write_bytes:
  assumes "nic_write f c = (r, c')"
  shows "\<exists>k n. k \<le> length f + 4 \<and> n \<le> length f + 5 \<and>
    c' = c\<lparr>c_out := c_out c @ take k (length_prefixed f), c_calls := c_calls c + n\<rparr> \<and> (r = None \<longrightarrow> k = length f + 4)"
proof (cases "c_deadline c (c_calls c)")
  case None
  then have w: "write_loop (length_prefixed f) (c\<lparr>c_calls := Suc (c_calls c)\<rparr>) = (r, c')"
    using assms by (simp add: nic_write_def set_deadline_def)
  have len: "length (length_prefixed f) = length f + 4" by (simp add: length_prefixed_eq)
  obtain k n where kn: "k \<le> length f + 4" "n \<le> length f + 4" "r = None \<longrightarrow> k = length f + 4"
    "c' = c\<lparr>c_calls := Suc (c_calls c), c_out := c_out c @ take k (length_prefixed f), c_calls := Suc (c_calls c) + n\<rparr>"
    using write_loop_bytes [OF w] len by auto
  then show ?thesis by (intro exI [of _ k] exI [of _ "Suc n"]) simp
next
  case (Some e)
  then have "r = Some e" "c' = c\<lparr>c_calls := Suc (c_calls c)\<rparr>"
    using assms by (auto simp: nic_write_def set_deadline_def)
  then show ?thesis by (rule_tac x = 0 in exI, rule_tac x = 1 in exI) simp
qed

text \<open>C39. Writing a frame ends, whatever the network does: after at most one call per byte of the frame and its
  length. It reports success only when the whole frame is on the stream, where the other end reads
  it back; a frame that is cut off makes the other end fail, never read something else. When every
  call succeeds and makes progress, so does the write.\<close>

theorem nic_write_terminates:
  assumes "nic_write f c = (r, c')" and "frame_ok f"
  shows "c_calls c' \<le> c_calls c + length f + 5 \<and>
    (\<exists>sent. c_out c' = c_out c @ sent \<and>
       (r = None \<longrightarrow> (\<forall>d. c_in d = sent @ rest \<longrightarrow> nic_read d = (Inr f, d\<lparr>c_in := rest\<rparr>))) \<and>
       (sent \<noteq> length_prefixed f \<longrightarrow> r \<noteq> None \<and> (\<forall>d. c_in d = sent \<longrightarrow> (\<exists>e. nic_read d = (Inl e, d\<lparr>c_in := []\<rparr>))))) \<and>
    ((\<forall>i. c_deadline c i = None \<and> (\<exists>n. c_write c i = (Suc n, None))) \<longrightarrow> r = None)"
proof -
  obtain k n where kn: "k \<le> length f + 4" "n \<le> length f + 5" "r = None \<longrightarrow> k = length f + 4"
    "c' = c\<lparr>c_out := c_out c @ take k (length_prefixed f), c_calls := c_calls c + n\<rparr>"
    using nic_write_bytes [OF assms(1)] by blast
  have len: "length (length_prefixed f) = length f + 4" by (simp add: length_prefixed_eq)
  let ?sent = "take k (length_prefixed f)"
  have full: "?sent = length_prefixed f \<longleftrightarrow> k = length f + 4"
    using kn(1) len by (metis length_take min.absorb2 take_all_iff order_refl)
  have "nic_read d = (Inr f, d\<lparr>c_in := rest\<rparr>)" if "r = None" "c_in d = ?sent @ rest" for d
    using vm_link.dec_enc [OF assms(2), of d rest] that kn(3) full by simp
  moreover have "\<exists>e. nic_read d = (Inl e, d\<lparr>c_in := []\<rparr>)" if "?sent \<noteq> length_prefixed f" "c_in d = ?sent" for d
  proof -
    have "k < length (length_prefixed f)" using that(1) kn(1) full len by linarith
    then show ?thesis using vm_link.dec_cut [OF assms(2)] that(2) by blast
  qed
  moreover have "r = None" if "\<forall>i. c_deadline c i = None \<and> (\<exists>n. c_write c i = (Suc n, None))"
    using write_loop_succeeds [of "c\<lparr>c_calls := Suc (c_calls c)\<rparr>" "length_prefixed f"] that assms(1)
    by (simp add: nic_write_def set_deadline_def)
  ultimately show ?thesis using kn full by (intro conjI exI [of _ ?sent]) auto
qed

theorem nic_write_terminates_witness:
  "fst (nic_write (replicate 20 7) sample_conn) = None \<and>
   c_calls (snd (nic_write (replicate 20 7) sample_conn)) \<le> 25"
  using nic_write_terminates [of "replicate 20 7" sample_conn "fst (nic_write (replicate 20 7) sample_conn)"
      "snd (nic_write (replicate 20 7) sample_conn)"]
  by (simp add: frame_ok_def sample_conn_def)

end
