(* ===== verification/Relay_Main.thy ===== *)
theory Relay_Main
  imports Relay_Run Text_Ops
begin

unbundle bit_operations_syntax

text \<open>
  What \<^verbatim>\<open>run\<close> of the LAN relay, \<^verbatim>\<open>interop/lanrelay/main.go\<close>, is made of: the console log of the guest, atomic
  replacement of files, the identity the virtual machine runs under, the checks of the command line and the final
  report.
\<close>

section \<open>The console log\<close>

definition maxLog :: nat where "maxLog = 4 * 1024 * 1024"

text \<open>\<^verbatim>\<open>logBuffer.Write\<close>: text that would exceed the bound is dropped, and reported as written.\<close>

definition log_write :: "string \<Rightarrow> string \<Rightarrow> nat \<times> string" where
  "log_write p b = (length p, if length b + length p \<le> maxLog then b @ p else b)"

section \<open>Files\<close>

text \<open>The files, and what the \<open>i\<close>-th operation on them returns; \<open>d_temp\<close> is the name \<^verbatim>\<open>os.CreateTemp\<close> picks.\<close>

record disk =
  d_files :: "string \<rightharpoonup> string"
  d_calls :: nat
  d_fail :: "nat \<Rightarrow> nat option"
  d_temp :: string

definition disk_op :: "((string \<rightharpoonup> string) \<Rightarrow> (string \<rightharpoonup> string)) \<Rightarrow> disk \<Rightarrow> nat option \<times> disk" where
  "disk_op f d =
     (case d_fail d (d_calls d) of
        None \<Rightarrow> (None, d\<lparr>d_files := f (d_files d), d_calls := Suc (d_calls d)\<rparr>)
      | Some e \<Rightarrow> (Some e, d\<lparr>d_calls := Suc (d_calls d)\<rparr>))"

datatype removal = Removed | NotExist | RemoveError nat

definition os_remove :: "string \<Rightarrow> disk \<Rightarrow> removal \<times> disk" where
  "os_remove path d =
     (case disk_op (\<lambda>fs. fs(path := None)) d of
        (Some e, d') \<Rightarrow> (RemoveError e, d')
      | (None, d') \<Rightarrow> (if d_files d path = None then NotExist else Removed, d'))"

text \<open>The deferred \<^verbatim>\<open>os.Remove\<close> of the temporary file; its error is ignored.\<close>

definition remove_temp :: "disk \<Rightarrow> disk" where
  "remove_temp d = d\<lparr>d_files := (d_files d)(d_temp d := None)\<rparr>"

definition writeFile :: "string \<Rightarrow> string \<Rightarrow> disk \<Rightarrow> nat option \<times> disk" where
  "writeFile path data d =
     (case disk_op (\<lambda>fs. fs(d_temp d \<mapsto> [])) d of
        (Some e, d) \<Rightarrow> (Some e, d)
      | (None, d) \<Rightarrow>
     (case disk_op (\<lambda>fs. fs(d_temp d \<mapsto> data)) d of
        (Some e, d) \<Rightarrow> (Some e, remove_temp (snd (disk_op (\<lambda>fs. fs) d)))
      | (None, d) \<Rightarrow>
     (case disk_op (\<lambda>fs. fs) d of
        (Some e, d) \<Rightarrow> (Some e, remove_temp (snd (disk_op (\<lambda>fs. fs) d)))
      | (None, d) \<Rightarrow>
     (case disk_op (\<lambda>fs. fs) d of
        (Some e, d) \<Rightarrow> (Some e, remove_temp d)
      | (None, d) \<Rightarrow>
     (case disk_op (\<lambda>fs. fs(path := fs (d_temp d), d_temp d := None)) d of
        (err, d) \<Rightarrow> (err, remove_temp d))))))"

section \<open>The identity of the virtual machine\<close>

record credential =
  Uid :: u32
  Gid :: u32

datatype cred_error = BadNumber | NeedUid | LookupFailed

text \<open>The first of the two variables that is set decides.\<close>

fun env_uid :: "(string \<Rightarrow> string) \<Rightarrow> string list \<Rightarrow> int \<Rightarrow> int option" where
  "env_uid getenv [] uid = Some uid"
| "env_uid getenv (key # keys) uid =
     (if getenv key \<noteq> [] then Atoi (getenv key) else env_uid getenv keys uid)"

definition qemuCredentials ::
  "int \<Rightarrow> (string \<Rightarrow> string) \<Rightarrow> (string \<Rightarrow> string option) \<Rightarrow> int \<Rightarrow> cred_error + credential option" where
  "qemuCredentials euid getenv lookup uidFlag =
     (if euid \<noteq> 0 then Inr None
      else case (if uidFlag < 0 then env_uid getenv [''PKEXEC_UID'', ''SUDO_UID''] uidFlag else Some uidFlag) of
        None \<Rightarrow> Inl BadNumber
      | Some uid \<Rightarrow>
          if uid \<le> 0 then Inl NeedUid
          else case lookup (itoa (nat uid)) of
            None \<Rightarrow> Inl LookupFailed
          | Some gid \<Rightarrow>
             (case ParseUint gid 32 of
                None \<Rightarrow> Inl BadNumber
              | Some g \<Rightarrow> Inr (Some \<lparr>Uid = of_int uid, Gid = of_nat g\<rparr>)))"

section \<open>The command line\<close>

datatype usage_error = BadLocal | BadPeer | BadUsage

definition unicast4 :: "netip \<Rightarrow> bool" where
  "unicast4 ip \<longleftrightarrow> Is4 ip \<and> \<not> IsUnspecified ip \<and> \<not> IsMulticast ip"

definition relay_args ::
  "ipv6_parser \<Rightarrow> string \<Rightarrow> string \<Rightarrow> string \<Rightarrow> string \<Rightarrow> int \<Rightarrow> nat \<Rightarrow> usage_error + netip \<times> netip" where
  "relay_args p6 localText peerText kernelPath initrd duration nargs =
     (case netip_ParseAddr p6 localText of
        None \<Rightarrow> Inl BadLocal
      | Some local \<Rightarrow>
          if \<not> unicast4 local then Inl BadLocal
          else case netip_ParseAddr p6 peerText of
            None \<Rightarrow> Inl BadPeer
          | Some peer \<Rightarrow>
              if \<not> unicast4 peer \<or> peer = local then Inl BadPeer
              else if kernelPath = [] \<or> initrd = [] \<or> duration \<le> 0 \<or> duration > 3 * Minute \<or> nargs \<noteq> 0
              then Inl BadUsage
              else Inr (local, peer))"

section \<open>The report\<close>

text \<open>The report written at the end of \<^verbatim>\<open>run\<close>.\<close>

definition final_report :: "((u8 \<rightharpoonup> u64) \<Rightarrow> u8 list) \<Rightarrow> state \<Rightarrow> string \<Rightarrow> string option \<Rightarrow> report" where
  "final_report keys s log result =
     (let r = snapshot keys s;
          r = r\<lparr>KernelClientSweepPassed := Contains log ''HOMA_GUEST_CLIENT_PASS'',
                KernelServerRequestsReceived := Count log ''ok mode=serve call='', Complete := (result = None)\<rparr>
      in case result of None \<Rightarrow> r | Some text \<Rightarrow> r\<lparr>ErrorText := text\<rparr>)"

section \<open>Lemmas\<close>

lemma cloneMap_eq: "set ks = dom m \<Longrightarrow> cloneMap ks m = m"
proof -
  have "foldl (\<lambda>out k. out(k := m k)) out ks = (\<lambda>k. if k \<in> set ks then m k else out k)" for out :: "u8 \<rightharpoonup> u64" and ks
    by (induction ks arbitrary: out) auto
  then show "set ks = dom m \<Longrightarrow> cloneMap ks m = m" by (auto simp: cloneMap_def fun_eq_iff)
qed

lemma snapshot_eq:
  assumes "\<And>m. set (keys m) = dom m"
  shows "snapshot keys s = (st_report s)\<lparr>MacClientRPCsAcknowledged := card (st_acks s)\<rparr>"
  by (simp add: snapshot_def Let_def cloneMap_eq assms)

text \<open>Replacing a file is atomic: on success the file has the new content, on an error every file is as it
  was, and in no case does a temporary file stay behind.\<close>

lemma writeFile_atomic:
  assumes "writeFile path data d = (err, d')" and "d_temp d \<notin> dom (d_files d)" and "path \<noteq> d_temp d"
  shows "d_files d' = (if err = None then (d_files d)(path \<mapsto> data) else d_files d)"
proof -
  have none: "(d_files d)(d_temp d := None) = d_files d" using assms(2) by (auto simp: fun_eq_iff dom_def)
  from assms show ?thesis
    by (auto simp: writeFile_def disk_op_def remove_temp_def none fun_upd_twist split: option.splits)
qed

text \<open>The identifier is checked as a signed 64-bit number and then cut to 32 bits.\<close>

lemma qemu_uid_unprivileged:
  assumes "qemuCredentials 0 getenv lookup uidFlag = Inr (Some c)" and "0 \<le> uidFlag" and "uidFlag < 2 ^ 32"
  shows "uint (Uid c) = uidFlag" and "Uid c \<noteq> 0"
proof -
  have *: "0 < uidFlag" "Uid c = of_int uidFlag"
    using assms by (auto simp: qemuCredentials_def split: option.splits if_splits)
  then show "uint (Uid c) = uidFlag" using assms(3) by (simp add: unsigned_of_int take_bit_int_eq_self)
  then show "Uid c \<noteq> 0" using * by auto
qed

lemma qemu_uid_wraps:
  "qemuCredentials 0 getenv (\<lambda>u. if u = itoa 4294967296 then Some ''0'' else None) 4294967296 =
     Inr (Some \<lparr>Uid = 0, Gid = 0\<rparr>)"
proof -
  have "ParseUint ''0'' 32 = Some 0" by (simp add: ParseUint_def decimal_def is_digit_def digit_val_def)
  then show ?thesis by (simp add: qemuCredentials_def)
qed

end
