(* ===== verification/Relay_Process.thy ===== *)
theory Relay_Process
  imports Relay_Main
begin

unbundle bit_operations_syntax

text \<open>
  The process of the LAN relay: \<^verbatim>\<open>run\<close> and \<^verbatim>\<open>main\<close> of \<^verbatim>\<open>interop/lanrelay/main.go\<close>, from the parsed flags to the exit. The
  packet loops, the console of the guest, its end, signals and timers are events in any interleaving; what the
  operating system answers is the environment. Deferred calls run in the order Go runs them.
\<close>

section \<open>State\<close>

datatype resource = RawConn | TcpListener | SignalContext | DeadlineContext | LinkConn | IOWatch | Ticker

text \<open>What \<^verbatim>\<open>run\<close> holds: the relay its two packet loops share, whether the guest was ready, the console log, the
  channel \<^verbatim>\<open>wait\<close> and whether the goroutine that fills it is done, files, output, open resources, whether
  the guest runs, and whether the wait for its end timed out.\<close>

record process =
  p_relay :: relay
  p_ready :: bool
  p_log :: string
  p_wait :: "nat option list"
  p_ended :: bool
  p_disk :: disk
  p_out :: "string list"
  p_err :: "string list"
  p_open :: "resource list"
  p_guest :: bool
  p_stalled :: bool

record flags =
  f_local :: string
  f_peer :: string
  f_kernel :: string
  f_initrd :: string
  f_log :: string
  f_report :: string
  f_ready :: string
  f_duration :: int
  f_qemuUID :: int
  f_nargs :: nat

text \<open>Errors of the operating system are numbers.\<close>

record env =
  e_p6 :: ipv6_parser
  e_s6 :: "128 word \<Rightarrow> string \<Rightarrow> string"
  e_euid :: int
  e_getenv :: "string \<Rightarrow> string"
  e_lookup :: "string \<Rightarrow> string option"
  e_rawlisten :: "nat option"
  e_raw :: raw
  e_tcplisten :: "nat option"
  e_address :: string
  e_start :: "credential option \<Rightarrow> string list \<Rightarrow> nat option"
  e_accept :: "nat option"
  e_conn :: conn
  e_control :: "io_error option"
  e_pid :: nat
  e_reaped :: bool
  e_keys :: "(u8 \<rightharpoonup> u64) \<Rightarrow> u8 list"
  e_json :: "report \<Rightarrow> string"
  e_text :: "nat \<Rightarrow> string"
  e_iotext :: "io_error \<Rightarrow> string"
  e_credtext :: "cred_error \<Rightarrow> string"

section \<open>Supervision\<close>

datatype ctx_error = CtxCanceled | CtxDeadline

text \<open>An iteration of a packet loop, console output of the guest, the end of the guest; then the cases of the
  \<^verbatim>\<open>select\<close>: the end of the context, an error of a packet loop, the end of the guest, a tick, at which the boot
  deadline may have passed.\<close>

datatype sup_event = Packet relay_event | Console string | GuestEnds "nat option"
  | CtxDone ctx_error | LoopFailed io_error | Exited | Tick bool

datatype verdict = Passed | CtxEnded ctx_error | PathFailed io_error | GuestExited "nat option" | GuestFailed
  | ReadyFile nat | BootDeadline

fun sup_enabled :: "sup_event \<Rightarrow> process \<Rightarrow> bool" where
  "sup_enabled (Packet ev) p \<longleftrightarrow> relay_enabled ev (p_relay p)"
| "sup_enabled (Console text) p \<longleftrightarrow> \<not> p_ended p"
| "sup_enabled (GuestEnds x) p \<longleftrightarrow> \<not> p_ended p"
| "sup_enabled (LoopFailed e) p \<longleftrightarrow> lan_err (p_relay p) = Some e \<or> vm_err (p_relay p) = Some e"
| "sup_enabled Exited p \<longleftrightarrow> p_wait p \<noteq> []"
| "sup_enabled _ p \<longleftrightarrow> True"

definition ready_text :: "env \<Rightarrow> netip \<Rightarrow> netip \<Rightarrow> string" where
  "ready_text en local peer =
     ''pid='' @ itoa (e_pid en) @ '' local='' @ netip_String (e_s6 en) local @ '' peer='' @ netip_String (e_s6 en) peer @
     '' native_protocol=146'' @ [CHR 0x0A]"

definition ready_line :: "env \<Rightarrow> netip \<Rightarrow> netip \<Rightarrow> string" where
  "ready_line en local peer =
     ''RELAY_READY local='' @ netip_String (e_s6 en) local @ '' peer='' @ netip_String (e_s6 en) peer @
     '' Mac-client4003->guest4000 Mac-server4001<-guest4002'' @ [CHR 0x0A]"

text \<open>The part of a tick after the log was found free of failures.\<close>

definition tick_ready :: "env \<Rightarrow> flags \<Rightarrow> netip \<Rightarrow> netip \<Rightarrow> process \<Rightarrow> nat option \<times> process" where
  "tick_ready en f local peer p =
     (if \<not> p_ready p \<and> Contains (p_log p) ''HOMA_GUEST_READY'' then
        (case writeFile (f_ready f) (ready_text en local peer) (p_disk p) of
           (Some e, d) \<Rightarrow> (Some e, p\<lparr>p_ready := True, p_disk := d\<rparr>)
         | (None, d) \<Rightarrow> (None, p\<lparr>p_ready := True, p_disk := d, p_out := p_out p @ [ready_line en local peer]\<rparr>))
      else (None, p))"

definition tick :: "env \<Rightarrow> flags \<Rightarrow> netip \<Rightarrow> netip \<Rightarrow> bool \<Rightarrow> process \<Rightarrow> verdict option \<times> process" where
  "tick en f local peer late p =
     (if Contains (p_log p) ''HOMA_GUEST_ERROR'' \<or> Contains (p_log p) ''HOMA_GUEST_CLIENT_FAIL'' then (Some GuestFailed, p)
      else case tick_ready en f local peer p of
        (Some e, p) \<Rightarrow> (Some (ReadyFile e), p)
      | (None, p) \<Rightarrow>
         if \<not> p_ready p \<and> late then (Some BootDeadline, p)
         else if p_ready p \<and> Contains (p_log p) ''HOMA_GUEST_CLIENT_PASS'' \<and>
             8 \<le> Count (p_log p) ''ok mode=serve call='' \<and>
             8 \<le> MacClientRPCsAcknowledged (snapshot (e_keys en) (st (p_relay p)))
         then (Some Passed, p\<lparr>p_out := p_out p @ [''RELAY_COMPLETE kernel client sweep passed; at least8 unique Mac client ACKs forwarded (confirm Mac payload-check logs separately)'' @ [CHR 0x0A]]\<rparr>)
         else (None, p))"

fun sup_step :: "env \<Rightarrow> flags \<Rightarrow> netip \<Rightarrow> netip \<Rightarrow> sup_event \<Rightarrow> process \<Rightarrow> verdict option \<times> process" where
  "sup_step en f local peer (Packet ev) p = (None, p\<lparr>p_relay := relay_step local peer ev (p_relay p)\<rparr>)"
| "sup_step en f local peer (Console text) p = (None, p\<lparr>p_out := p_out p @ [text], p_log := snd (log_write text (p_log p))\<rparr>)"
| "sup_step en f local peer (GuestEnds x) p = (None, p\<lparr>p_wait := p_wait p @ [x], p_ended := True\<rparr>)"
| "sup_step en f local peer (CtxDone e) p = (Some (CtxEnded e), p)"
| "sup_step en f local peer (LoopFailed e) p = (Some (PathFailed e), p)"
| "sup_step en f local peer Exited p = (Some (GuestExited (hd (p_wait p))), p\<lparr>p_wait := tl (p_wait p)\<rparr>)"
| "sup_step en f local peer (Tick late) p = tick en f local peer late p"

text \<open>The loop: \<open>None\<close> as long as no event ends it.\<close>

fun supervise :: "env \<Rightarrow> flags \<Rightarrow> netip \<Rightarrow> netip \<Rightarrow> sup_event list \<Rightarrow> process \<Rightarrow> (verdict \<times> process) option" where
  "supervise en f local peer [] p = None"
| "supervise en f local peer (ev # evs) p =
     (if \<not> sup_enabled ev p then None
      else case sup_step en f local peer ev p of
        (Some v, p) \<Rightarrow> Some (v, p)
      | (None, p) \<Rightarrow> supervise en f local peer evs p)"

section \<open>The run\<close>

datatype relay_error = Usage usage_error | CredFailed cred_error | OsError nat | RawFailed nat | Ended verdict

fun usage_text :: "usage_error \<Rightarrow> string" where
  "usage_text BadLocal = ''-local requires unicast IPv4''"
| "usage_text BadPeer = ''-peer requires a different unicast IPv4''"
| "usage_text BadUsage = ''require -kernel/-initrd and duration in (0,3m]''"

fun verdict_text :: "env \<Rightarrow> verdict \<Rightarrow> string" where
  "verdict_text en Passed = []"
| "verdict_text en (CtxEnded CtxCanceled) = ''context canceled''"
| "verdict_text en (CtxEnded CtxDeadline) = ''context deadline exceeded''"
| "verdict_text en (PathFailed e) = ''relay packet path: '' @ e_iotext en e"
| "verdict_text en (GuestExited x) = ''guest exited before completion: '' @ (case x of None \<Rightarrow> ''<nil>'' | Some e \<Rightarrow> e_text en e)"
| "verdict_text en GuestFailed = ''guest reported failure''"
| "verdict_text en (ReadyFile e) = e_text en e"
| "verdict_text en BootDeadline = ''guest readiness deadline exceeded''"

fun error_text :: "env \<Rightarrow> relay_error \<Rightarrow> string" where
  "error_text en (Usage u) = usage_text u"
| "error_text en (CredFailed c) = (if c = NeedUid then ''root launch requires -qemu-uid with an unprivileged UID, or PKEXEC_UID/SUDO_UID''
     else e_credtext en c)"
| "error_text en (OsError e) = e_text en e"
| "error_text en (RawFailed e) = ''open native146 raw socket (requires root/CAP_NET_RAW): '' @ e_text en e"
| "error_text en (Ended v) = verdict_text en v"

definition relay_path :: string where
  "relay_path = ''Mac native IPv4 protocol146 LAN <-> explicit address-rewriting relay <-> QEMU Ethernet backend <-> unmodified Linux Homa kernel''"

definition new_state :: "env \<Rightarrow> netip \<Rightarrow> netip \<Rightarrow> state" where
  "new_state en local peer =
     \<lparr>st_report = zero_report\<lparr>Path := relay_path, Local := netip_String (e_s6 en) local, Peer := netip_String (e_s6 en) peer\<rparr>,
      st_acks = {}\<rparr>"

definition qemu_args :: "flags \<Rightarrow> string \<Rightarrow> string list" where
  "qemu_args f address =
     [''qemu-system-x86_64'', ''-accel'', ''tcg,thread=multi'', ''-smp'', ''2'', ''-m'', ''512'', ''-nodefaults'', ''-no-user-config'',
      ''-nographic'', ''-serial'', ''stdio'', ''-monitor'', ''none'', ''-no-reboot'', ''-kernel'', f_kernel f, ''-initrd'', f_initrd f,
      ''-append'', ''console=ttyS0 rdinit=/init panic=1 nokaslr quiet homa.test_guest=1 homa.mode=interop'',
      ''-netdev'', ''socket,id=n0,connect='' @ address, ''-device'', ''e1000,netdev=n0,mac=52:54:00:12:34:56'']"

definition opened :: "resource \<Rightarrow> process \<Rightarrow> process" where
  "opened r p = p\<lparr>p_open := r # p_open p\<rparr>"

definition released :: "resource \<Rightarrow> process \<Rightarrow> process" where
  "released r p = p\<lparr>p_open := remove1 r (p_open p)\<rparr>"

text \<open>The deferred function that ends the guest and writes the report. \<^verbatim>\<open>wait\<close> is received from once more, for at most
  five seconds: it holds a value if the guest ended and \<^verbatim>\<open>run\<close> did not take it, or when the killed guest is reaped in
  time.\<close>

definition end_guest :: "env \<Rightarrow> process \<Rightarrow> process" where
  "end_guest en p =
     (let ws = (if p_ended p then p_wait p else if e_reaped en then [None] else []) in
      p\<lparr>p_guest := False, p_stalled := (ws = []), p_wait := tl ws\<rparr>)"

definition save :: "string \<Rightarrow> string \<Rightarrow> (nat \<Rightarrow> string) \<Rightarrow> string \<Rightarrow> process \<Rightarrow> process" where
  "save path data text what p =
     (case writeFile path data (p_disk p) of
        (None, d) \<Rightarrow> p\<lparr>p_disk := d\<rparr>
      | (Some e, d) \<Rightarrow> p\<lparr>p_disk := d, p_err := p_err p @ [what @ text e @ [CHR 0x0A]]\<rparr>)"

definition finish_run :: "env \<Rightarrow> flags \<Rightarrow> relay_error option \<Rightarrow> process \<Rightarrow> process" where
  "finish_run en f result p =
     (let p = end_guest en p;
          p = p\<lparr>p_disk := snd (os_remove (f_ready f) (p_disk p))\<rparr>;
          r = final_report (e_keys en) (st (p_relay p)) (p_log p) (map_option (error_text en) result);
          data = e_json en r;
          p = save (f_log f) (p_log p) (e_text en) ''write log: '' p;
          p = save (f_report f) (data @ [CHR 0x0A]) (e_text en) ''write report: '' p
      in p\<lparr>p_out := p_out p @ [''RELAY_REPORT '' @ f_report f @ [CHR 0x0A] @ data @ [CHR 0x0A]]\<rparr>)"

text \<open>The packet loops begin: \<^verbatim>\<open>vmToLAN\<close> ends at once if it does not get the raw connection of its socket.\<close>

definition loops_begin :: "env \<Rightarrow> relay \<Rightarrow> relay" where
  "loops_begin en n = n\<lparr>link := e_conn en, lan_err := None, vm_err := e_control en\<rparr>"

text \<open>From the guest's connection to the result. The loops go on until the report is taken: \<open>tail\<close> are their
  iterations after the verdict.\<close>

definition run_linked :: "env \<Rightarrow> flags \<Rightarrow> netip \<Rightarrow> netip \<Rightarrow> sup_event list \<Rightarrow> relay_event list \<Rightarrow> process \<Rightarrow>
    (relay_error option \<times> process) option" where
  "run_linked en f local peer evs tail p =
     (case e_accept en of
        Some e \<Rightarrow> Some (Some (OsError e), p)
      | None \<Rightarrow>
          let p = p\<lparr>p_relay := loops_begin en (p_relay p), p_ready := False\<rparr> in
          deferred (released LinkConn) (deferred (released IOWatch) (deferred (released Ticker)
            (case supervise en f local peer evs (opened Ticker (opened IOWatch (opened LinkConn p))) of
               None \<Rightarrow> None
             | Some (v, p) \<Rightarrow>
                 Some (if v = Passed then None else Some (Ended v),
                   p\<lparr>p_relay := foldl (\<lambda>n ev. if relay_enabled ev n then relay_step local peer ev n else n) (p_relay p) tail\<rparr>)))))"

definition run_guest :: "env \<Rightarrow> flags \<Rightarrow> netip \<Rightarrow> netip \<Rightarrow> credential option \<Rightarrow> sup_event list \<Rightarrow> relay_event list \<Rightarrow> process \<Rightarrow>
    (relay_error option \<times> process) option" where
  "run_guest en f local peer cred evs tail p =
     (let p = p\<lparr>p_relay := (p_relay p)\<lparr>sock := e_raw en, st := new_state en local peer\<rparr>, p_log := []\<rparr> in
      case e_start en cred (qemu_args f (e_address en)) of
        Some e \<Rightarrow> Some (Some (OsError e), p)
      | None \<Rightarrow> map_option (\<lambda>(result, p). (result, finish_run en f result p))
          (run_linked en f local peer evs tail (p\<lparr>p_guest := True, p_wait := [], p_ended := False\<rparr>)))"

text \<open>From the sockets on.\<close>

definition run_sockets :: "env \<Rightarrow> flags \<Rightarrow> netip \<Rightarrow> netip \<Rightarrow> credential option \<Rightarrow> sup_event list \<Rightarrow> relay_event list \<Rightarrow> process \<Rightarrow>
    (relay_error option \<times> process) option" where
  "run_sockets en f local peer cred evs tail p =
     (case e_rawlisten en of
        Some e \<Rightarrow> Some (Some (RawFailed e), p)
      | None \<Rightarrow> deferred (released RawConn)
     (case e_tcplisten en of
        Some e \<Rightarrow> Some (Some (OsError e), opened RawConn p)
      | None \<Rightarrow> deferred (released TcpListener) (deferred (released SignalContext) (deferred (released DeadlineContext)
          (run_guest en f local peer cred evs tail
             (opened DeadlineContext (opened SignalContext (opened TcpListener (opened RawConn p)))))))))"

definition relay_main :: "env \<Rightarrow> flags \<Rightarrow> sup_event list \<Rightarrow> relay_event list \<Rightarrow> process \<Rightarrow>
    (relay_error option \<times> process) option" where
  "relay_main en f evs tail p =
     (case relay_args (e_p6 en) (f_local f) (f_peer f) (f_kernel f) (f_initrd f) (f_duration f) (f_nargs f) of
        Inl u \<Rightarrow> Some (Some (Usage u), p)
      | Inr (local, peer) \<Rightarrow>
     (case qemuCredentials (e_euid en) (e_getenv en) (e_lookup en) (f_qemuUID f) of
        Inl c \<Rightarrow> Some (Some (CredFailed c), p)
      | Inr cred \<Rightarrow>
     (case os_remove (f_ready f) (p_disk p) of
        (RemoveError e, d) \<Rightarrow> Some (Some (OsError e), p\<lparr>p_disk := d\<rparr>)
      | (_, d) \<Rightarrow> run_sockets en f local peer cred evs tail (p\<lparr>p_disk := d\<rparr>))))"

text \<open>\<^verbatim>\<open>main\<close>: the exit status, and what it prints.\<close>

definition relay_exit :: "env \<Rightarrow> relay_error option \<times> process \<Rightarrow> nat \<times> process" where
  "relay_exit en r =
     (case r of
        (None, p) \<Rightarrow> (0, p)
      | (Some e, p) \<Rightarrow> (1, p\<lparr>p_err := p_err p @ [''homa-lanrelay: '' @ error_text en e @ [CHR 0x0A]]\<rparr>))"

section \<open>Files\<close>

text \<open>A disk whose operations succeed, with a temporary name of its own.\<close>

definition reliable :: "disk \<Rightarrow> bool" where
  "reliable d \<longleftrightarrow> (\<forall>n. d_fail d n = None) \<and> d_temp d \<notin> dom (d_files d)"

lemma reliable_write:
  assumes "reliable d" and "path \<noteq> d_temp d" and "writeFile path data d = (err, d')"
  shows "err = None" and "d_files d' = (d_files d)(path \<mapsto> data)" and "d_temp d' = d_temp d" and "reliable d'"
proof -
  have fields: "err = None" "d_temp d' = d_temp d" "d_fail d' = d_fail d"
    using assms(1,3) by (auto simp: reliable_def writeFile_def disk_op_def remove_temp_def)
  then show err: "err = None" and "d_temp d' = d_temp d" by simp_all
  show "d_files d' = (d_files d)(path \<mapsto> data)"
    using writeFile_atomic [OF assms(3) _ assms(2)] assms(1) err by (simp add: reliable_def)
  then show "reliable d'" using assms(1,2) fields by (auto simp: reliable_def)
qed

lemma reliable_remove:
  assumes "reliable d" and "os_remove path d = (r, d')"
  shows "\<forall>e. r \<noteq> RemoveError e" and "d_files d' = (d_files d)(path := None)" and "d_temp d' = d_temp d" and "reliable d'"
  using assms by (auto simp: os_remove_def disk_op_def reliable_def split: if_splits)

section \<open>What the supervision leaves alone\<close>

lemma noteAcks_grows: "acks_ok a \<Longrightarrow> acks_ok (noteAcks p a) \<and> a \<subseteq> noteAcks p a"
proof -
  have one: "acks_ok b \<and> a \<subseteq> b \<Longrightarrow> acks_ok (note_ack b i) \<and> a \<subseteq> note_ack b i" for b i
    using note_ack_ok [of b i] by (auto simp: note_ack_def)
  have "acks_ok b \<and> a \<subseteq> b \<Longrightarrow> acks_ok (foldl (\<lambda>b i. if g i then note_ack b (h i) else b) b xs) \<and>
      a \<subseteq> foldl (\<lambda>b i. if g i then note_ack b (h i) else b) b xs" for b and xs :: "nat list" and g h
    using one by (induction xs arbitrary: b) auto
  then show "acks_ok a \<Longrightarrow> acks_ok (noteAcks p a) \<and> a \<subseteq> noteAcks p a"
    using one by (simp add: noteAcks_def Let_def)
qed

text \<open>The evidence only grows.\<close>

definition acks_grow :: "relay \<Rightarrow> relay \<Rightarrow> bool" where
  "acks_grow n n' \<longleftrightarrow> (acks_ok (st_acks (st n)) \<longrightarrow> acks_ok (st_acks (st n')) \<and> st_acks (st n) \<subseteq> st_acks (st n'))"

lemma acks_grow_refl [simp]: "acks_grow n n"
  by (simp add: acks_grow_def)

lemma acks_grow_trans: "acks_grow n n' \<Longrightarrow> acks_grow n' n'' \<Longrightarrow> acks_grow n n''"
  by (auto simp: acks_grow_def)

lemma sendLAN_acks: "sendLAN peer p tos w s = (err, w', s') \<Longrightarrow> st_acks s' = st_acks s"
  by (auto simp: sendLAN_def Let_def upd_report_def split: prod.splits option.splits sum.splits if_splits)

lemma acks_grow_step: "acks_grow n (relay_step local peer ev n)"
proof (cases ev)
  case (LanIn buf trunc)
  then show ?thesis using noteAcks_grows
    by (auto simp: acks_grow_def lanToVM_def Let_def upd_report_def split: prod.splits option.splits if_splits)
next
  case VmIn
  then show ?thesis using sendLAN_acks
    by (fastforce simp: acks_grow_def vmToLAN_def Let_def upd_report_def split: prod.splits option.splits sum.splits if_splits)
qed (simp add: acks_grow_def)

lemma acks_grow_tail:
  "acks_grow n (foldl (\<lambda>n ev. if relay_enabled ev n then relay_step local peer ev n else n) n tail)"
proof (induction tail rule: rev_induct)
  case (snoc ev tail)
  then show ?case using acks_grow_trans acks_grow_step by auto
qed simp

text \<open>Supervision opens and closes nothing, writes no file but the ready file, and loses no evidence.\<close>

definition framed :: "flags \<Rightarrow> process \<Rightarrow> process \<Rightarrow> bool" where
  "framed f p p' \<longleftrightarrow> p_open p' = p_open p \<and> p_guest p' = p_guest p \<and> acks_grow (p_relay p) (p_relay p') \<and>
     (reliable (p_disk p) \<and> f_ready f \<noteq> d_temp (p_disk p) \<longrightarrow> reliable (p_disk p') \<and> d_temp (p_disk p') = d_temp (p_disk p) \<and>
        (\<exists>x. d_files (p_disk p') = (d_files (p_disk p))(f_ready f := x)))"

lemma framed_trans: "framed f p p' \<Longrightarrow> framed f p' p'' \<Longrightarrow> framed f p p''"
  unfolding framed_def by (elim conjE) (auto intro: acks_grow_trans)

lemma framed_same:
  "p_open p' = p_open p \<Longrightarrow> p_guest p' = p_guest p \<Longrightarrow> p_disk p' = p_disk p \<Longrightarrow> acks_grow (p_relay p) (p_relay p') \<Longrightarrow> framed f p p'"
  unfolding framed_def by (auto intro: exI [of _ "d_files (p_disk p) (f_ready f)"])

lemma framed_ready: "tick_ready en f local peer p = (x, p') \<Longrightarrow> framed f p p' \<and> p_log p' = p_log p \<and> p_relay p' = p_relay p"
proof -
  assume t: "tick_ready en f local peer p = (x, p')"
  obtain err d where w: "writeFile (f_ready f) (ready_text en local peer) (p_disk p) = (err, d)"
    by (cases "writeFile (f_ready f) (ready_text en local peer) (p_disk p)")
  have "framed f p (p\<lparr>p_ready := True, p_disk := d\<rparr>)" "framed f p (p\<lparr>p_ready := True, p_disk := d, p_out := out\<rparr>)" for out
    using reliable_write [OF _ _ w] unfolding framed_def by auto
  then show ?thesis
    using t w framed_same [of p p f] by (auto simp: tick_ready_def split: if_splits option.splits)
qed

lemma tick_state:
  assumes "tick en f local peer late p = (v, p')"
  obtains "p' = p" | x q where "tick_ready en f local peer p = (x, q)" "p' = q \<or> (\<exists>out. p' = q\<lparr>p_out := out\<rparr>)"
proof -
  obtain x q where q: "tick_ready en f local peer p = (x, q)" by (cases "tick_ready en f local peer p")
  have "p' = p \<or> p' = q \<or> (\<exists>out. p' = q\<lparr>p_out := out\<rparr>)"
    using assms unfolding tick_def q
    by (cases x) (simp_all only: option.case prod.case split: if_splits, auto)
  then show thesis using that q by blast
qed

lemma framed_step: "sup_step en f local peer ev p = (v, p') \<Longrightarrow> framed f p p'"
proof (cases ev)
  case (Tick late)
  assume "sup_step en f local peer ev p = (v, p')"
  then have "tick en f local peer late p = (v, p')" using Tick by simp
  then show ?thesis
  proof (cases rule: tick_state)
    case (2 x q)
    have "framed f q q" "framed f q (q\<lparr>p_out := out\<rparr>)" for out by (rule framed_same; simp)+
    then show ?thesis using 2 framed_ready [OF 2(1)] framed_trans by blast
  qed (simp add: framed_same)
qed (auto intro!: framed_same simp: acks_grow_step)

section \<open>What a result means\<close>

definition evidence :: "env \<Rightarrow> process \<Rightarrow> bool" where
  "evidence en p \<longleftrightarrow> Contains (p_log p) ''HOMA_GUEST_CLIENT_PASS'' \<and> 8 \<le> Count (p_log p) ''ok mode=serve call='' \<and>
     8 \<le> card (st_acks (st (p_relay p)))"

lemma snapshot_acks: "MacClientRPCsAcknowledged (snapshot keys s) = card (st_acks s)"
  by (simp add: snapshot_def Let_def)

lemma tick_passed: "tick en f local peer late p = (Some Passed, p') \<Longrightarrow> evidence en p'"
proof -
  assume t: "tick en f local peer late p = (Some Passed, p')"
  obtain x q where q: "tick_ready en f local peer p = (x, q)" by (cases "tick_ready en f local peer p")
  have "(Contains (p_log q) ''HOMA_GUEST_CLIENT_PASS'' \<and> 8 \<le> Count (p_log q) ''ok mode=serve call='' \<and>
      8 \<le> card (st_acks (st (p_relay q)))) \<and> (\<exists>out. p' = q\<lparr>p_out := out\<rparr>)"
    using t unfolding tick_def q snapshot_acks
    by (cases x)
      (simp_all only: option.case prod.case prod.inject option.inject verdict.distinct option.distinct simp_thms split: if_splits, blast)
  then show ?thesis unfolding evidence_def by (elim conjE exE) simp
qed

lemma supervise_ends:
  "supervise en f local peer evs p = Some (v, p') \<Longrightarrow> framed f p p' \<and> (v = Passed \<longrightarrow> evidence en p')"
proof (induction evs arbitrary: p)
  case (Cons ev evs)
  obtain x q where s: "sup_step en f local peer ev p = (x, q)" by (cases "sup_step en f local peer ev p")
  note fr = framed_step [OF s]
  show ?case
  proof (cases x)
    case None
    then show ?thesis using Cons.prems Cons.IH [of q] s fr framed_trans by (auto split: if_splits)
  next
    case (Some w)
    then have eq: "p' = q" "v = w" using Cons.prems s by (simp_all split: if_splits)
    have "evidence en q" if "w = Passed"
      using s that Some tick_passed by (cases ev) auto
    then show ?thesis using fr eq by blast
  qed
qed simp

lemma run_linked_ends:
  assumes r: "run_linked en f local peer evs tail p = Some (err, p')" and a: "st_acks (st (p_relay p)) = {}"
  shows "framed f p p' \<and> (err = None \<longrightarrow> evidence en p')"
proof (cases "e_accept en")
  case None
  let ?p = "p\<lparr>p_relay := loops_begin en (p_relay p), p_ready := False\<rparr>"
  let ?o = "opened Ticker (opened IOWatch (opened LinkConn ?p))"
  obtain v q where q: "supervise en f local peer evs ?o = Some (v, q)"
    using r None by (auto simp: run_linked_def deferred_def Let_def split: option.splits)
  let ?n = "foldl (\<lambda>n ev. if relay_enabled ev n then relay_step local peer ev n else n) (p_relay q) tail"
  have p': "p' = released LinkConn (released IOWatch (released Ticker (q\<lparr>p_relay := ?n\<rparr>)))"
    and err: "err = (if v = Passed then None else Some (Ended v))"
    using r None q by (auto simp: run_linked_def deferred_def Let_def)
  have fr: "framed f ?o q" and ev: "v = Passed \<longrightarrow> evidence en q" using supervise_ends [OF q] by simp_all
  have grow: "acks_grow (p_relay q) ?n" by (rule acks_grow_tail)
  have st: "st (loops_begin en n) = st n" for n by (simp add: loops_begin_def)
  have ok: "acks_ok (st_acks (st (p_relay q)))" using fr a by (simp add: framed_def acks_grow_def opened_def acks_ok_def st)
  have "framed f p p'"
    using fr grow unfolding p' framed_def acks_grow_def by (auto simp: opened_def released_def st)
  moreover have "evidence en p'" if "err = None"
  proof -
    have e: "evidence en q" using ev err that by (auto split: if_splits)
    have "card (st_acks (st (p_relay q))) \<le> card (st_acks (st ?n))"
      using grow ok by (auto simp: acks_grow_def acks_ok_def intro!: card_mono)
    then have "8 \<le> card (st_acks (st ?n))" using e unfolding evidence_def by linarith
    moreover have "p_log p' = p_log q" "p_relay p' = ?n" by (simp_all add: p' released_def)
    ultimately show ?thesis using e unfolding evidence_def by simp
  qed
  ultimately show ?thesis by blast
qed (use r in \<open>auto simp: run_linked_def intro: framed_same\<close>)

lemma final_report_fields:
  "Complete (final_report keys s log result) \<longleftrightarrow> result = None"
  "KernelClientSweepPassed (final_report keys s log result) \<longleftrightarrow> Contains log ''HOMA_GUEST_CLIENT_PASS''"
  "KernelServerRequestsReceived (final_report keys s log result) = Count log ''ok mode=serve call=''"
  "MacClientRPCsAcknowledged (final_report keys s log result) = card (st_acks s)"
  by (cases result; simp add: final_report_def Let_def snapshot_acks del: Contains.simps)+

lemma save_fields:
  "p_open (save path data tx wh p) = p_open p" "p_guest (save path data tx wh p) = p_guest p"
  "p_relay (save path data tx wh p) = p_relay p" "p_log (save path data tx wh p) = p_log p"
  by (simp_all add: save_def split: prod.split option.split)

lemma save_reliable:
  assumes "reliable (p_disk p)" and "path \<noteq> d_temp (p_disk p)"
  shows "d_files (p_disk (save path data tx wh p)) = (d_files (p_disk p))(path \<mapsto> data)"
    and "reliable (p_disk (save path data tx wh p))" and "d_temp (p_disk (save path data tx wh p)) = d_temp (p_disk p)"
proof -
  obtain err d where w: "writeFile path data (p_disk p) = (err, d)" by (cases "writeFile path data (p_disk p)")
  note r = reliable_write [OF assms w]
  show "d_files (p_disk (save path data tx wh p)) = (d_files (p_disk p))(path \<mapsto> data)"
    "reliable (p_disk (save path data tx wh p))" "d_temp (p_disk (save path data tx wh p)) = d_temp (p_disk p)"
    using r w by (simp_all add: save_def)
qed

text \<open>The report of a run that ended with \<open>err\<close> in \<open>p\<close>.\<close>

definition run_report :: "env \<Rightarrow> relay_error option \<Rightarrow> process \<Rightarrow> report" where
  "run_report en err p = final_report (e_keys en) (st (p_relay p)) (p_log p) (map_option (error_text en) err)"

lemma finish_run_ends:
  fixes en :: env and err :: "relay_error option"
  assumes "reliable (p_disk p)" and "distinct [f_ready f, f_log f, f_report f, d_temp (p_disk p)]"
  defines "p' \<equiv> finish_run en f err p"
  shows "p_open p' = p_open p" and "\<not> p_guest p'" and "p_relay p' = p_relay p" and "p_log p' = p_log p"
    and "d_files (p_disk p') = (d_files (p_disk p))(f_ready f := None, f_log f \<mapsto> p_log p,
      f_report f \<mapsto> e_json en (run_report en err p) @ [CHR 0x0A])"
proof -
  obtain x d where d: "os_remove (f_ready f) (p_disk p) = (x, d)" by (cases "os_remove (f_ready f) (p_disk p)")
  note r = reliable_remove [OF assms(1) d]
  let ?q = "(end_guest en p)\<lparr>p_disk := d\<rparr>"
  let ?s = "save (f_log f) (p_log p) (e_text en) ''write log: '' ?q"
  have q: "p_disk (end_guest en p) = p_disk p" "p_log ?q = p_log p" "p_relay ?q = p_relay p" "p_open ?q = p_open p" "\<not> p_guest ?q"
    by (simp_all add: end_guest_def Let_def)
  note s = save_reliable [of ?q "f_log f"]
  have p': "p' = (save (f_report f) (e_json en (run_report en err p) @ [CHR 0x0A]) (e_text en) ''write report: '' ?s)
      \<lparr>p_out := p_out (save (f_report f) (e_json en (run_report en err p) @ [CHR 0x0A]) (e_text en) ''write report: '' ?s) @
        [''RELAY_REPORT '' @ f_report f @ [CHR 0x0A] @ e_json en (run_report en err p) @ [CHR 0x0A]]\<rparr>"
    unfolding p'_def finish_run_def Let_def by (simp add: q d run_report_def)
  show "p_open p' = p_open p" "\<not> p_guest p'" "p_relay p' = p_relay p" "p_log p' = p_log p"
    using q by (simp_all add: p' save_fields)
  show "d_files (p_disk p') = (d_files (p_disk p))(f_ready f := None, f_log f \<mapsto> p_log p,
      f_report f \<mapsto> e_json en (run_report en err p) @ [CHR 0x0A])"
    using assms(2) r s [of "p_log p" "e_text en" "''write log: ''"]
    by (simp add: p' save_reliable(1) [of ?s "f_report f"])
qed

text \<open>Whether \<^verbatim>\<open>run\<close> gets as far as a running guest.\<close>

definition guest_started :: "env \<Rightarrow> flags \<Rightarrow> bool" where
  "guest_started en f \<longleftrightarrow> e_rawlisten en = None \<and> e_tcplisten en = None \<and>
     (case relay_args (e_p6 en) (f_local f) (f_peer f) (f_kernel f) (f_initrd f) (f_duration f) (f_nargs f) of
        Inl u \<Rightarrow> False
      | Inr a \<Rightarrow> (case qemuCredentials (e_euid en) (e_getenv en) (e_lookup en) (f_qemuUID f) of
           Inl c \<Rightarrow> False
         | Inr cred \<Rightarrow> e_start en cred (qemu_args f (e_address en)) = None))"

lemma run_guest_ends:
  assumes r: "run_guest en f local peer cred evs tail p = Some (err, p')"
    and d: "reliable (p_disk p)" and f: "distinct [f_ready f, f_log f, f_report f, d_temp (p_disk p)]" and g: "\<not> p_guest p"
  shows "p_open p' = p_open p \<and> \<not> p_guest p' \<and>
    (if e_start en cred (qemu_args f (e_address en)) = None
     then d_files (p_disk p') = (d_files (p_disk p))(f_ready f := None, f_log f \<mapsto> p_log p',
         f_report f \<mapsto> e_json en (run_report en err p') @ [CHR 0x0A]) \<and> (err = None \<longrightarrow> evidence en p')
     else err \<noteq> None \<and> p_disk p' = p_disk p)"
proof (cases "e_start en cred (qemu_args f (e_address en))")
  case None
  let ?p = "p\<lparr>p_relay := (p_relay p)\<lparr>sock := e_raw en, st := new_state en local peer\<rparr>, p_log := [], p_guest := True,
    p_wait := [], p_ended := False\<rparr>"
  obtain q where q: "run_linked en f local peer evs tail ?p = Some (err, q)" and p': "p' = finish_run en f err q"
    using r None by (auto simp: run_guest_def)
  have l: "framed f ?p q" "err = None \<longrightarrow> evidence en q"
    using run_linked_ends [OF q] by (auto simp: new_state_def)
  then obtain x where x: "reliable (p_disk q)" "d_temp (p_disk q) = d_temp (p_disk p)" "p_open q = p_open p"
      "d_files (p_disk q) = (d_files (p_disk p))(f_ready f := x)"
    using d f by (auto simp: framed_def)
  then have fin: "distinct [f_ready f, f_log f, f_report f, d_temp (p_disk q)]" using f by simp
  note e = finish_run_ends [OF x(1) fin, of en err, folded p']
  have "run_report en err q = run_report en err p'" "evidence en q = evidence en p'"
    by (simp_all only: run_report_def evidence_def e)
  then show ?thesis using None e x l(2) by simp
qed (use r g in \<open>auto simp: run_guest_def\<close>)

lemma run_sockets_ends:
  assumes r: "run_sockets en f local peer cred evs tail p = Some (err, p')"
    and d: "reliable (p_disk p)" and f: "distinct [f_ready f, f_log f, f_report f, d_temp (p_disk p)]" and g: "\<not> p_guest p"
  shows "p_open p' = p_open p \<and> \<not> p_guest p' \<and>
    (if e_rawlisten en = None \<and> e_tcplisten en = None \<and> e_start en cred (qemu_args f (e_address en)) = None
     then d_files (p_disk p') = (d_files (p_disk p))(f_ready f := None, f_log f \<mapsto> p_log p',
         f_report f \<mapsto> e_json en (run_report en err p') @ [CHR 0x0A]) \<and> (err = None \<longrightarrow> evidence en p')
     else err \<noteq> None \<and> p_disk p' = p_disk p)"
proof (cases "e_rawlisten en = None \<and> e_tcplisten en = None")
  case False
  then show ?thesis using r g
    by (auto simp: run_sockets_def deferred_def opened_def released_def split: option.splits)
next
  case True
  let ?o = "opened DeadlineContext (opened SignalContext (opened TcpListener (opened RawConn p)))"
  obtain q where q: "run_guest en f local peer cred evs tail ?o = Some (err, q)"
    and p': "p' = released RawConn (released TcpListener (released SignalContext (released DeadlineContext q)))"
    using r True by (auto simp: run_sockets_def deferred_def)
  have o: "reliable (p_disk ?o)" "distinct [f_ready f, f_log f, f_report f, d_temp (p_disk ?o)]" "\<not> p_guest ?o"
      "p_open ?o = [DeadlineContext, SignalContext, TcpListener, RawConn] @ p_open p" "p_disk ?o = p_disk p"
    using d f g by (simp_all add: opened_def)
  have same: "run_report en err p' = run_report en err q" "evidence en q = evidence en p'" "p_log p' = p_log q"
      "p_disk p' = p_disk q" "p_guest p' = p_guest q"
    by (simp_all add: p' released_def run_report_def evidence_def del: Contains.simps)
  have "p_open p' = p_open p" using run_guest_ends [OF q o(1-3)] o(4) by (simp add: p' released_def)
  then show ?thesis using run_guest_ends [OF q o(1-3)] True o(5) by (auto simp: same)
qed

lemma relay_main_sockets:
  assumes "relay_args (e_p6 en) (f_local f) (f_peer f) (f_kernel f) (f_initrd f) (f_duration f) (f_nargs f) = Inr (local, peer)"
    and "qemuCredentials (e_euid en) (e_getenv en) (e_lookup en) (f_qemuUID f) = Inr cred"
    and "os_remove (f_ready f) (p_disk p) = (x, d)" and "\<forall>e. x \<noteq> RemoveError e"
  shows "relay_main en f evs tail p = run_sockets en f local peer cred evs tail (p\<lparr>p_disk := d\<rparr>)"
  using assms by (cases x) (simp_all add: relay_main_def)

lemma report_evidence:
  "Complete (run_report en err p) \<longleftrightarrow> err = None"
  "evidence en p \<Longrightarrow> KernelClientSweepPassed (run_report en err p) \<and> 8 \<le> KernelServerRequestsReceived (run_report en err p) \<and>
     8 \<le> MacClientRPCsAcknowledged (run_report en err p)"
  unfolding run_report_def final_report_fields evidence_def by simp_all


text \<open>A run whose guest ends by itself.\<close>

definition sample_env :: env where
  "sample_env = \<lparr>e_p6 = (\<lambda>_. None), e_s6 = (\<lambda>_ z. z), e_euid = 1000, e_getenv = (\<lambda>_. []), e_lookup = (\<lambda>_. None),
     e_rawlisten = None, e_raw = sock sample_relay, e_tcplisten = None, e_address = ''127.0.0.1:5000'', e_start = (\<lambda>_ _. None),
     e_accept = None, e_conn = sample_conn, e_control = None, e_pid = 1, e_reaped = True, e_keys = (\<lambda>_. []),
     e_json = (\<lambda>r. if Complete r then ''complete'' else ErrorText r), e_text = (\<lambda>_. []), e_iotext = (\<lambda>_. []), e_credtext = (\<lambda>_. [])\<rparr>"

definition sample_flags :: flags where
  "sample_flags = \<lparr>f_local = ipv4_text 0x0A000001, f_peer = ipv4_text 0x0A000002, f_kernel = ''k'', f_initrd = ''i'', f_log = ''l'', f_report = ''r'',
     f_ready = ''y'', f_duration = Second, f_qemuUID = -1, f_nargs = 0\<rparr>"

definition sample_process :: process where
  "sample_process = \<lparr>p_relay = sample_relay, p_ready = False, p_log = [], p_wait = [], p_ended = False,
     p_disk = \<lparr>d_files = [''y'' \<mapsto> ''old''], d_calls = 0, d_fail = (\<lambda>_. None), d_temp = ''t''\<rparr>,
     p_out = [], p_err = [], p_open = [], p_guest = False, p_stalled = False\<rparr>"

lemma sample_args:
  "relay_args (e_p6 sample_env) (f_local sample_flags) (f_peer sample_flags) (f_kernel sample_flags) (f_initrd sample_flags)
     (f_duration sample_flags) (f_nargs sample_flags) = Inr (V4 0x0A000001, V4 0x0A000002)"
  "qemuCredentials (e_euid sample_env) (e_getenv sample_env) (e_lookup sample_env) (f_qemuUID sample_flags) = Inr None"
proof -
  have "netip_ParseAddr p6 (ipv4_text ip) = Some (V4 ip)" for p6 ip
    using netip_ParseAddr_Is4 [of p6 "ipv4_text ip" "V4 ip"] by simp
  then show "relay_args (e_p6 sample_env) (f_local sample_flags) (f_peer sample_flags) (f_kernel sample_flags) (f_initrd sample_flags)
      (f_duration sample_flags) (f_nargs sample_flags) = Inr (V4 0x0A000001, V4 0x0A000002)"
    by (simp add: relay_args_def unicast4_def sample_flags_def duration_defs)
qed (simp add: qemuCredentials_def sample_env_def)

lemma sample_process_ends:
  "\<exists>p'. relay_main sample_env sample_flags [Console ''booting'', GuestEnds None, Exited] [] sample_process =
     Some (Some (Ended (GuestExited None)), p')"
proof -
  have "\<exists>d x. os_remove (f_ready sample_flags) (p_disk sample_process) = (x, d) \<and> (\<forall>e. x \<noteq> RemoveError e)"
    by (simp add: os_remove_def disk_op_def sample_process_def sample_flags_def)
  then obtain x d where "os_remove (f_ready sample_flags) (p_disk sample_process) = (x, d)" "\<forall>e. x \<noteq> RemoveError e" by blast
  from relay_main_sockets [OF sample_args this] show ?thesis
    by (simp add: run_sockets_def run_guest_def run_linked_def deferred_def opened_def sample_env_def sample_process_def Let_def)
qed


section \<open>The end of the guest\<close>

text \<open>The context of a run ends at the latest when its duration is over, and then the loop returns.\<close>

fun feasible :: "env \<Rightarrow> flags \<Rightarrow> netip \<Rightarrow> netip \<Rightarrow> sup_event list \<Rightarrow> process \<Rightarrow> bool" where
  "feasible en f local peer [] p \<longleftrightarrow> True"
| "feasible en f local peer (ev # evs) p \<longleftrightarrow> sup_enabled ev p \<and>
     (case sup_step en f local peer ev p of (Some v, p) \<Rightarrow> True | (None, p) \<Rightarrow> feasible en f local peer evs p)"

lemma supervise_returns:
  "feasible en f local peer (evs @ [CtxDone e]) p \<Longrightarrow> \<exists>v p'. supervise en f local peer (evs @ [CtxDone e]) p = Some (v, p')"
proof (induction evs arbitrary: p)
  case (Cons ev evs)
  obtain y q where "sup_step en f local peer ev p = (y, q)" by (cases "sup_step en f local peer ev p")
  then show ?case using Cons by (cases y) simp_all
qed simp

text \<open>When the guest ends by itself, \<^verbatim>\<open>run\<close> has already taken the only value of \<^verbatim>\<open>wait\<close>, and its deferred function
  waits for another one until the five seconds are over.\<close>

definition wait_ok :: "process \<Rightarrow> bool" where
  "wait_ok p \<longleftrightarrow> length (p_wait p) \<le> 1 \<and> (p_wait p \<noteq> [] \<longrightarrow> p_ended p)"

lemma tick_wait: "tick en f local peer late p = (v, p') \<Longrightarrow> (p_wait p' = p_wait p \<and> p_ended p' = p_ended p) \<and> (\<forall>x. v \<noteq> Some (GuestExited x))"
proof -
  assume t: "tick en f local peer late p = (v, p')"
  obtain x q where q: "tick_ready en f local peer p = (x, q)" by (cases "tick_ready en f local peer p")
  have "p_wait q = p_wait p \<and> p_ended q = p_ended p"
    using q by (auto simp: tick_ready_def split: if_splits prod.splits option.splits)
  moreover have "\<forall>x. v \<noteq> Some (GuestExited x)"
    using t unfolding tick_def q
    by (cases x) (simp_all only: option.case prod.case prod.inject split: if_splits, auto)
  ultimately show ?thesis
    using t q by (elim tick_state) (auto simp: q)
qed

lemma supervise_stalls:
  "supervise en f local peer evs p = Some (GuestExited x, p') \<Longrightarrow> wait_ok p \<Longrightarrow> p_ended p' \<and> p_wait p' = []"
proof (induction evs arbitrary: p)
  case (Cons ev evs)
  obtain y q where s: "sup_step en f local peer ev p = (y, q)" by (cases "sup_step en f local peer ev p")
  have en: "sup_enabled ev p" using Cons.prems by (simp split: if_splits)
  show ?case
  proof (cases y)
    case None
    then have "wait_ok q" using s en Cons.prems(2) tick_wait [of en f local peer _ p] by (cases ev) (auto simp: wait_ok_def)
    then show ?thesis using Cons.IH [of q] Cons.prems(1) s None en by simp
  next
    case (Some w)
    then have "w = GuestExited x" "p' = q" using Cons.prems(1) s en by simp_all
    then show ?thesis
      using s en Some Cons.prems(2) tick_wait [of en f local peer _ p]
      by (cases ev) (auto simp: wait_ok_def Suc_le_eq length_Suc_conv neq_Nil_conv)
  qed
qed simp

lemma guest_exit_stalls:
  "supervise en f local peer evs p = Some (GuestExited x, p') \<Longrightarrow> wait_ok p \<Longrightarrow> p_stalled (end_guest en p')"
  using supervise_stalls by (simp add: end_guest_def Let_def)

end
