(* ===== verification/VmCheck.thy ===== *)
theory VmCheck
  imports PacketIO Frames
begin

unbundle bit_operations_syntax

text \<open>
  The interoperability check against a Linux guest, \<^verbatim>\<open>interop/vmcheck/main.go\<close>: its network interface \<^verbatim>\<open>nic\<close> is
  the second implementation of \<^verbatim>\<open>PacketIO\<close>, Ethernet frames over a stream connection to QEMU. \<^verbatim>\<open>run\<close> starts
  the guest and an endpoint over that interface; of it the payload pattern and the verdict are modelled.
\<close>

section \<open>The code\<close>

definition hostIP :: netip where "hostIP = V4 0x0a000001"
definition guestIP :: netip where "guestIP = V4 0x0a000002"
definition hostMAC :: bytes where "hostMAC = [2, 0, 0, 0, 0, 1]"
definition guestMAC :: bytes where "guestMAC = [0x52, 0x54, 0, 0x12, 0x34, 0x56]"

text \<open>\<^verbatim>\<open>nic.frame\<close>: the error of setting the deadline is ignored.\<close>

definition nic_frame :: "bytes \<Rightarrow> conn \<Rightarrow> io_error option \<times> conn" where
  "nic_frame f c = (case set_deadline c of (_, c) \<Rightarrow> write_loop (length_prefixed f) c)"

text \<open>The frame of \<^verbatim>\<open>WritePacket\<close>; \<^verbatim>\<open>ip\<close> is the slice of the frame from byte 14 on. The checksum is taken over the
  first 20 bytes of that slice, which there always are.\<close>

definition vm_frame :: "bytes \<Rightarrow> u8 \<Rightarrow> bytes option" where
  "vm_frame p priority =
     (let f = replicate (14 + 20 + length p) 0;
          f = put_at 0 guestMAC f;
          f = put_at 6 hostMAC f;
          f = put_at 12 (PutUint16 0x0800) f;
          f = f[14 := 0x45, 15 := push_bit 5 priority];
          f = put_at 16 (PutUint16 (of_nat (length f - 14))) f;
          f = f[22 := 64, 23 := 146];
          f = put_at 26 (AsSlice hostIP) f;
          f = put_at 30 (AsSlice guestIP) f
      in case checksum 20 (drop 14 f) of
           None \<Rightarrow> None
         | Some c \<Rightarrow> Some (put_at 34 p (put_at 24 (PutUint16 c) f)))"

definition vm_WritePacket :: "bytes \<Rightarrow> netip \<Rightarrow> u8 \<Rightarrow> conn \<Rightarrow> pio_error option \<times> conn" where
  "vm_WritePacket p peer priority c =
     (if peer \<noteq> guestIP then (Some BadPeer, c)
      else case vm_frame p priority of
        None \<Rightarrow> (Some Panic, c)
      | Some f \<Rightarrow> (case nic_frame f c of (err, c) \<Rightarrow> (map_option Net err, c)))"

text \<open>What \<^verbatim>\<open>ReadPacket\<close> does with a frame: skip it, answer it, deliver its payload, or panic.\<close>

datatype vm_action = Skip | Answer bytes | Deliver bytes | Crash

definition vm_arp :: "bytes \<Rightarrow> vm_action" where
  "vm_arp f =
     (if length f < 42 \<or> Uint16 (subslice 20 22 f) \<noteq> 1 \<or> subslice 38 42 f \<noteq> AsSlice hostIP then Skip
      else
        let reply = replicate 42 0;
            reply = put_at 0 (subslice 6 12 f) reply;
            reply = put_at 6 hostMAC reply;
            reply = put_at 12 (subslice 12 22 f) reply;
            reply = put_at 20 (PutUint16 2) reply;
            reply = put_at 22 hostMAC reply;
            reply = put_at 28 (AsSlice hostIP) reply;
            reply = put_at 32 (subslice 22 28 f) reply
        in Answer (put_at 38 (subslice 28 32 f) reply))"

definition vm_ipv4 :: "netip \<Rightarrow> netip \<Rightarrow> bytes \<Rightarrow> vm_action" where
  "vm_ipv4 source destination f =
     (if length f < 34 then Skip
      else
        let ip = drop 14 f;
            hlen = unat (ip ! 0 AND 15) * 4;
            len = unat (Uint16 (subslice 2 4 ip))
        in if drop_bit 4 (ip ! 0) \<noteq> 4 \<or> hlen < 20 \<or> len < hlen \<or> len > length ip \<or> ip ! 9 \<noteq> 146 then Skip
           else case checksum hlen ip of
             None \<Rightarrow> Crash
           | Some c \<Rightarrow>
               if c \<noteq> 0 \<or> Uint16 (subslice 6 8 ip) AND 0x3fff \<noteq> 0 then Skip
               else if V4 (Uint32 (subslice 12 16 ip)) \<noteq> source \<or> subslice 16 20 ip \<noteq> AsSlice destination then Skip
               else Deliver (subslice hlen len ip))"

definition vm_receive :: "bytes \<Rightarrow> vm_action" where
  "vm_receive f =
     (if Uint16 (subslice 12 14 f) = 0x0806 then vm_arp f
      else if Uint16 (subslice 12 14 f) = 0x0800 then vm_ipv4 guestIP hostIP f
      else Skip)"

definition vm_read_frame :: "conn \<Rightarrow> (io_error + bytes) \<times> conn" where
  "vm_read_frame = read_sized 14 (65535 + 14)"

lemma nic_frame_in: "nic_frame f c = (r, c') \<Longrightarrow> c_in c' = c_in c"
  using write_loop_bytes [of "length_prefixed f" "snd (set_deadline c)" r c']
  by (auto simp: nic_frame_def set_deadline_def)

lemma vm_read_frame_shorter: "vm_read_frame c = (Inr f, c') \<Longrightarrow> length (c_in c') < length (c_in c)"
  using read_sized_Inr(1) [of 14 "65535 + 14" c f c'] by (simp add: vm_read_frame_def length_prefixed_eq)

function vm_ReadPacket :: "nat \<Rightarrow> conn \<Rightarrow> (pio_error + bytes \<times> netip) \<times> conn" where
  "vm_ReadPacket buf c =
     (case vm_read_frame c of
        (Inl e, c) \<Rightarrow> (Inl (Net e), c)
      | (Inr f, c) \<Rightarrow>
         (case vm_receive f of
            Skip \<Rightarrow> vm_ReadPacket buf c
          | Answer reply \<Rightarrow>
             (case nic_frame reply c of
                (Some e, c) \<Rightarrow> (Inl (Net e), c)
              | (None, c) \<Rightarrow> vm_ReadPacket buf c)
          | Deliver p \<Rightarrow> if length p > buf then (Inl (Net ErrShortBuffer), c) else (Inr (p, guestIP), c)
          | Crash \<Rightarrow> (Inl Panic, c)))"
  by pat_completeness auto
termination
proof (relation "measure (\<lambda>(buf, c). length (c_in c))")
  fix buf c x y f
  assume "(x, y) = vm_read_frame c" "x = Inr f"
  then have "length (c_in y) < length (c_in c)" using vm_read_frame_shorter [of c f y] by simp
  then show "((buf, y), buf, c) \<in> measure (\<lambda>(buf, c). length (c_in c))" by simp
next
  fix buf c x y f reply xa ya
  assume "(x, y) = vm_read_frame c" "x = Inr f" "(xa, ya) = nic_frame reply y"
  then have "length (c_in ya) < length (c_in c)"
    using vm_read_frame_shorter [of c f y] nic_frame_in [of reply y xa ya] by simp
  then show "((buf, ya), buf, c) \<in> measure (\<lambda>(buf, c). length (c_in c))" by simp
qed simp

declare vm_ReadPacket.simps [simp del]

text \<open>The payload of the check: every byte depends on its position.\<close>

definition vm_payload :: "nat \<Rightarrow> bytes" where
  "vm_payload n = map (\<lambda>i. of_nat (i * 31) XOR of_nat (i div 256) XOR 0xa5) [0..<n]"

section \<open>Frames\<close>

lemma vm_bytes: "AsSlice hostIP = [10, 0, 0, 1]" "AsSlice guestIP = [10, 0, 0, 2]"
  by (simp_all add: hostIP_def guestIP_def PutUint32_def)

lemma checksum_ip: "20 \<le> length b \<Longrightarrow> even n \<Longrightarrow> n \<le> length b \<Longrightarrow> checksum n b = Some (ipChecksum (take n b))"
  using sum_index_eq [of 0 n b 0] by (simp add: checksum_def ipChecksum_def subslice_def even_iff_mod_2_eq_zero)

lemma vm_frame_eq:
  "vm_frame p pr = Some (guestMAC @ hostMAC @ [8, 0] @
     ip_header (of_nat (20 + length p)) (push_bit 5 pr)
       (ipChecksum (ip_header (of_nat (20 + length p)) (push_bit 5 pr) 0)) @ p)"
proof -
  have r: "replicate (14 + 20 + length p) (0 :: byte) =
      [0, 0, 0, 0, 0, 0, 0, 0, 0, 0, 0, 0, 0, 0, 0, 0, 0, 0, 0, 0, 0, 0, 0, 0, 0, 0, 0, 0, 0, 0, 0, 0, 0, 0] @
      replicate (length p) 0"
    by (simp add: replicate_add numeral_eq_Suc)
  show ?thesis
    unfolding vm_frame_def Let_def r
    by (simp add: put_at_def guestMAC_def hostMAC_def vm_bytes PutUint16_def ip_header_def checksum_ip)
qed

lemma vm_receive_no_crash: "vm_receive f \<noteq> Crash"
proof -
  have "checksum (unat (drop 14 f ! 0 AND 15) * 4) (drop 14 f) \<noteq> None"
    if "unat (drop 14 f ! 0 AND 15) * 4 \<le> length (drop 14 f)" "34 \<le> length f"
    using checksum_ip [of "drop 14 f" "unat (drop 14 f ! 0 AND 15) * 4"] that by simp
  then show ?thesis
    by (auto simp: vm_receive_def vm_arp_def vm_ipv4_def Let_def not_less split: option.splits if_splits)
qed

text \<open>The reader on the other side, with the same rules and the addresses exchanged.\<close>

definition guest_reads :: "bytes \<Rightarrow> (bytes \<times> netip \<times> int) option" where
  "guest_reads f =
     (if 14 \<le> length f \<and> Uint16 (subslice 12 14 f) = 0x0800 then
        case vm_ipv4 hostIP guestIP f of Deliver p \<Rightarrow> Some (p, guestIP, int (unat (f ! 15))) | _ \<Rightarrow> None
      else None)"

lemma guest_reads_frame:
  assumes "length p \<le> 65515" and "pr \<le> 7" and "vm_frame p pr = Some f"
  shows "guest_reads f = Some (p, guestIP, 32 * int (unat pr))"
proof -
  define n :: u16 where "n = of_nat (20 + length p)"
  define h where "h = ip_header n (push_bit 5 pr) (ipChecksum (ip_header n (push_bit 5 pr) 0))"
  have f: "f = guestMAC @ hostMAC @ [8, 0] @ h @ p" using assms(3) by (simp add: vm_frame_eq n_def h_def)
  have n: "unat n = 20 + length p"
    unfolding n_def unsigned_of_nat using assms(1) by (simp add: take_bit_nat_eq_self)
  have zero: "Uint16 [0, 0] = 0" "Uint16 [8, 0] = 0x0800" "Uint32 [10, 0, 0, 1] = 0x0a000001"
    by (simp_all add: Uint16_def Uint32_def)
  have hf: "length h = 20" "h ! 0 = 0x45" "h ! Suc 0 = push_bit 5 pr" "h ! 9 = 146" "subslice 2 4 h = PutUint16 n"
    "subslice 6 8 h = [0, 0]" "subslice 12 16 h = [10, 0, 0, 1]" "subslice 16 20 h = [10, 0, 0, 2]"
    "ipChecksum h = 0"
    using header_verifies by (simp_all add: h_def ip_header_fields flip: One_nat_def)
  have d: "drop 14 f = h @ p" "f ! 15 = push_bit 5 pr" "subslice 12 14 f = [8, 0]" "length f = 34 + length p"
    using hf(1,3) by (simp_all add: f guestMAC_def hostMAC_def nth_append subslice_def)
  have tos: "unat (push_bit 5 pr :: u8) = 32 * unat pr"
    using assms(2) by (simp add: push_bit_eq_mult unat_word_ariths word_le_nat_alt)
  have "vm_ipv4 hostIP guestIP f = Deliver p"
    unfolding vm_ipv4_def Let_def d
    by (simp add: nth_append subslice_in_prefix subslice_append_skip hf n zero vm_bytes checksum_ip hostIP_def)
  then show ?thesis using tos by (simp add: guest_reads_def d zero)
qed

section \<open>The stream to the guest\<close>

function split_frames :: "bytes \<Rightarrow> bytes list" where
  "split_frames b =
     (if length b < 4 then []
      else
        let n = unat (Uint32 (take 4 b)) in
        if length b < 4 + n then [] else subslice 4 (4 + n) b # split_frames (drop (4 + n) b))"
  by pat_completeness auto
termination by (relation "measure length") auto

declare split_frames.simps [simp del]

lemma split_frames_Cons:
  assumes "length f < 2 ^ 32"
  shows "split_frames (length_prefixed f @ b) = f # split_frames b"
  using assms
  by (subst split_frames.simps)
    (simp add: length_prefixed_eq Let_def unsigned_of_nat take_bit_nat_eq_self subslice_def)

lemma split_frames_concat:
  "\<forall>f \<in> set fs. length f < 2 ^ 32 \<Longrightarrow> split_frames (concat (map length_prefixed fs) @ b) = fs @ split_frames b"
  by (induction fs) (simp_all add: split_frames_Cons)

lemma split_frames_short: "f \<in> set (split_frames b) \<Longrightarrow> length f < 2 ^ 32"
proof (induction b rule: split_frames.induct)
  case (1 b)
  show ?case
  proof (cases "length b < 4 \<or> length b < 4 + unat (Uint32 (take 4 b))")
    case True
    then show ?thesis using 1(2) by (auto simp: split_frames.simps [of b] Let_def split: if_splits)
  next
    case False
    then have "f = subslice 4 (4 + unat (Uint32 (take 4 b))) b \<or> f \<in> set (split_frames (drop (4 + unat (Uint32 (take 4 b))) b))"
      using 1(2) by (simp add: split_frames.simps [of b] Let_def)
    then show ?thesis using 1(1) False unat_u32 [of "Uint32 (take 4 b)"] by auto
  qed
qed

lemma split_frames_cut:
  assumes "length f < 2 ^ 32" and "k < length f + 4"
  shows "split_frames (take k (length_prefixed f)) = []"
proof (cases "k < 4")
  case True
  then show ?thesis by (subst split_frames.simps) (simp add: length_prefixed_eq)
next
  case False
  then obtain j where "k = 4 + j" using le_Suc_ex [of 4 k] by auto
  then show ?thesis using assms
    by (subst split_frames.simps)
      (simp add: length_prefixed_eq Let_def unsigned_of_nat take_bit_nat_eq_self take_add)
qed

definition vm_usable :: "conn \<Rightarrow> bool" where
  "vm_usable c \<longleftrightarrow> concat (map length_prefixed (split_frames (c_out c))) = c_out c"

definition vm_sent :: "conn \<Rightarrow> (bytes \<times> netip \<times> int) list" where
  "vm_sent c = concat (map (\<lambda>f. case guest_reads f of None \<Rightarrow> [] | Some x \<Rightarrow> [x]) (split_frames (c_out c)))"

definition vm_writable :: "bytes \<Rightarrow> netip \<Rightarrow> u8 \<Rightarrow> bool" where
  "vm_writable p ip pr \<longleftrightarrow> ip = guestIP \<and> pr \<le> 7 \<and> length p \<le> 65515"

text \<open>What a frame, whole or cut off, adds to a stream of whole frames.\<close>

lemma split_after:
  assumes "vm_usable c" and "c_out c' = c_out c @ x"
  shows "split_frames (c_out c') = split_frames (c_out c) @ split_frames x"
proof -
  have "c_out c' = concat (map length_prefixed (split_frames (c_out c))) @ x"
    using assms by (simp add: vm_usable_def)
  then show ?thesis using split_frames_concat [of "split_frames (c_out c)" x] split_frames_short by simp
qed

lemma vm_whole_frame:
  assumes "vm_usable c" and "c_out c' = c_out c @ length_prefixed f" and "length f < 2 ^ 32"
  shows "vm_usable c'" and "vm_sent c' = vm_sent c @ (case guest_reads f of None \<Rightarrow> [] | Some x \<Rightarrow> [x])"
proof -
  have nil: "split_frames [] = []" by (simp add: split_frames.simps)
  have "split_frames (c_out c') = split_frames (c_out c) @ [f]"
    using split_after [OF assms(1,2)] split_frames_Cons [OF assms(3), of "[]"] nil by simp
  then show "vm_usable c'" "vm_sent c' = vm_sent c @ (case guest_reads f of None \<Rightarrow> [] | Some x \<Rightarrow> [x])"
    using assms(1,2) by (simp_all add: vm_usable_def vm_sent_def)
qed

lemma nic_frame_out:
  assumes "nic_frame f c = (r, c')"
  obtains k where "k \<le> length f + 4" and "c_out c' = c_out c @ take k (length_prefixed f)" and "r = None \<longrightarrow> k = length f + 4"
proof -
  have "write_loop (length_prefixed f) (snd (set_deadline c)) = (r, c')"
    using assms by (simp add: nic_frame_def set_deadline_def)
  from write_loop_bytes [OF this] obtain k n where k: "k \<le> length (length_prefixed f)"
    "c' = (snd (set_deadline c))\<lparr>c_out := c_out (snd (set_deadline c)) @ take k (length_prefixed f),
       c_calls := c_calls (snd (set_deadline c)) + n\<rparr>" "r = None \<longrightarrow> k = length (length_prefixed f)" by blast
  have "length (length_prefixed f) = length f + 4" by (simp add: length_prefixed_eq)
  then show thesis using that [of k] k by (simp add: set_deadline_def)
qed

lemma nic_frame_sent:
  assumes "vm_usable c" and "nic_frame f c = (r, c')" and "length f < 2 ^ 32"
  shows "r = None \<Longrightarrow> vm_usable c' \<and> vm_sent c' = vm_sent c @ (case guest_reads f of None \<Rightarrow> [] | Some x \<Rightarrow> [x])"
    and "vm_sent c' = vm_sent c \<or> vm_sent c' = vm_sent c @ (case guest_reads f of None \<Rightarrow> [] | Some x \<Rightarrow> [x])"
proof -
  obtain k where k: "k \<le> length f + 4" "c_out c' = c_out c @ take k (length_prefixed f)" "r = None \<longrightarrow> k = length f + 4"
    using nic_frame_out [OF assms(2)] by blast
  have full: "take (length f + 4) (length_prefixed f) = length_prefixed f" by (simp add: length_prefixed_eq)
  show whole: "r = None \<Longrightarrow> vm_usable c' \<and> vm_sent c' = vm_sent c @ (case guest_reads f of None \<Rightarrow> [] | Some x \<Rightarrow> [x])"
    using vm_whole_frame [OF assms(1) _ assms(3), of c'] k full by simp
  show "vm_sent c' = vm_sent c \<or> vm_sent c' = vm_sent c @ (case guest_reads f of None \<Rightarrow> [] | Some x \<Rightarrow> [x])"
  proof (cases "k = length f + 4")
    case True
    then show ?thesis using vm_whole_frame(2) [OF assms(1) _ assms(3), of c'] k(2) full by simp
  next
    case False
    then have "split_frames (take k (length_prefixed f)) = []" using split_frames_cut [OF assms(3)] k(1) by simp
    then show ?thesis using split_after [OF assms(1) k(2)] by (simp add: vm_sent_def)
  qed
qed

section \<open>The interface keeps the contract\<close>

lemma vm_arp_answer:
  assumes "vm_arp f = Answer reply"
  shows "reply = arp_answer hostMAC [10, 0, 0, 1] f" and "length reply = 42" and "subslice 12 14 reply = subslice 12 14 f"
proof -
  have len: "\<not> length f < 42" using assms by (auto simp: vm_arp_def)
  have mac: "length hostMAC = 6" "length (AsSlice hostIP) = 4" by (simp_all add: hostMAC_def vm_bytes)
  show r: "reply = arp_answer hostMAC [10, 0, 0, 1] f"
    using assms arp_answer_writes [OF len mac] unfolding vm_arp_def Let_def vm_bytes
    by (simp split: if_splits)
  show "length reply = 42" "subslice 12 14 reply = subslice 12 14 f"
    using arp_answer_shape [of f hostMAC "[10, 0, 0, 1]"] len mac by (simp_all add: r vm_bytes)
qed

lemma vm_receive_Answer:
  assumes "vm_receive f = Answer reply"
  shows "guest_reads reply = None" and "length reply < 2 ^ 32"
proof -
  have t: "Uint16 (subslice 12 14 f) = 0x0806 \<and> vm_arp f = Answer reply"
    using assms by (auto simp: vm_receive_def vm_ipv4_def Let_def split: if_splits option.splits)
  then show "guest_reads reply = None" "length reply < 2 ^ 32"
    using vm_arp_answer [of f reply] by (simp_all add: guest_reads_def)
qed

lemma vm_read_frame_out: "vm_read_frame c = (r, c') \<Longrightarrow> c_out c' = c_out c"
  by (auto simp: vm_read_frame_def read_sized_def ReadFull_def Let_def split: prod.splits sum.splits if_splits)

lemma vm_same_out: "c_out c' = c_out c \<Longrightarrow> vm_usable c' = vm_usable c \<and> vm_sent c' = vm_sent c"
  by (simp add: vm_usable_def vm_sent_def)

lemma vm_ReadPacket_keeps:
  "vm_usable c \<Longrightarrow> vm_ReadPacket n c = (r, c') \<Longrightarrow> vm_sent c' = vm_sent c \<and> (\<forall>x. r = Inr x \<longrightarrow> vm_usable c')"
proof (induction n c arbitrary: r c' rule: vm_ReadPacket.induct)
  case (1 n c)
  obtain x d where rf: "vm_read_frame c = (x, d)" by (cases "vm_read_frame c")
  have d: "vm_usable d" "vm_sent d = vm_sent c" using vm_same_out [OF vm_read_frame_out [OF rf]] 1(3) by simp_all
  show ?case
  proof (cases x)
    case (Inl e)
    then show ?thesis using 1(4) rf d by (auto simp: vm_ReadPacket.simps [of n c])
  next
    case (Inr f)
    show ?thesis
    proof (cases "vm_receive f")
      case Skip
      then show ?thesis using 1(1) [OF rf [symmetric] Inr Skip d(1)] 1(4) rf Inr d(2)
        by (simp add: vm_ReadPacket.simps [of n c])
    next
      case (Answer reply)
      obtain y g where fr: "nic_frame reply d = (y, g)" by (cases "nic_frame reply d")
      have g: "vm_sent g = vm_sent c" "y = None \<Longrightarrow> vm_usable g"
        using nic_frame_sent [OF d(1) fr vm_receive_Answer(2) [OF Answer]] vm_receive_Answer(1) [OF Answer] d(2) by auto
      show ?thesis
      proof (cases y)
        case None
        then show ?thesis using 1(2) [OF rf [symmetric] Inr Answer fr [symmetric] None g(2)] 1(4) rf Inr Answer fr g
          by (simp add: vm_ReadPacket.simps [of n c])
      next
        case (Some e)
        then show ?thesis using 1(4) rf Inr Answer fr g by (auto simp: vm_ReadPacket.simps [of n c])
      qed
    next
      case (Deliver p)
      then show ?thesis using 1(4) rf Inr d by (auto simp: vm_ReadPacket.simps [of n c] split: if_splits)
    next
      case Crash
      then show ?thesis using vm_receive_no_crash by blast
    qed
  qed
qed

lemma vm_ReadPacket_fits:
  "vm_ReadPacket n c = (Inr (b, ip), c') \<Longrightarrow> length b \<le> n \<and> Is4 ip"
proof (induction n c rule: vm_ReadPacket.induct)
  case (1 n c)
  obtain x d where rf: "vm_read_frame c = (x, d)" by (cases "vm_read_frame c")
  then obtain f where x: "x = Inr f" using 1(3) by (cases x) (auto simp: vm_ReadPacket.simps [of n c])
  show ?case
  proof (cases "vm_receive f")
    case Skip
    then show ?thesis using 1(1) [OF rf [symmetric] x Skip] 1(3) rf x by (simp add: vm_ReadPacket.simps [of n c])
  next
    case (Answer reply)
    obtain y g where fr: "nic_frame reply d = (y, g)" by (cases "nic_frame reply d")
    then have "y = None" using 1(3) rf x Answer by (cases y) (auto simp: vm_ReadPacket.simps [of n c])
    then show ?thesis using 1(2) [OF rf [symmetric] x Answer fr [symmetric]] 1(3) rf x Answer fr
      by (simp add: vm_ReadPacket.simps [of n c])
  next
    case (Deliver p)
    then show ?thesis using 1(3) rf x by (auto simp: vm_ReadPacket.simps [of n c] guestIP_def split: if_splits)
  next
    case Crash
    then show ?thesis using vm_receive_no_crash by blast
  qed
qed

lemma vm_WritePacket_sent:
  assumes "vm_usable c" and "vm_writable p ip pr" and "vm_WritePacket p ip pr c = (err, c')"
  shows "err = None \<Longrightarrow> vm_usable c' \<and> vm_sent c' = vm_sent c @ [(p, ip, 32 * int (unat pr))]"
    and "vm_sent c' = vm_sent c \<or> vm_sent c' = vm_sent c @ [(take (length p) p, ip, 32 * int (unat pr))]"
proof -
  obtain f where f: "vm_frame p pr = Some f" by (simp add: vm_frame_eq)
  have len: "length f < 2 ^ 32" using f assms(2) by (auto simp: vm_frame_eq vm_writable_def guestMAC_def hostMAC_def)
  have g: "guest_reads f = Some (p, ip, 32 * int (unat pr))"
    using guest_reads_frame [of p pr f] f assms(2) by (simp add: vm_writable_def)
  obtain r d where fr: "nic_frame f c = (r, d)" by (cases "nic_frame f c")
  then have "d = c'" "err = map_option Net r" using assms(2,3) f by (simp_all add: vm_WritePacket_def vm_writable_def)
  then show "err = None \<Longrightarrow> vm_usable c' \<and> vm_sent c' = vm_sent c @ [(p, ip, 32 * int (unat pr))]"
    and "vm_sent c' = vm_sent c \<or> vm_sent c' = vm_sent c @ [(take (length p) p, ip, 32 * int (unat pr))]"
    using nic_frame_sent [OF assms(1) fr len] g by simp_all
qed

interpretation vm: packet_io vm_ReadPacket vm_WritePacket vm_sent vm_usable vm_writable
proof
  fix n c b ip c' x r p pr e
  show "vm_ReadPacket n c = (Inr (b, ip), c') \<Longrightarrow> length b \<le> n \<and> Is4 ip" by (rule vm_ReadPacket_fits)
  show "vm_usable c \<Longrightarrow> vm_ReadPacket n c = (r, c') \<Longrightarrow> vm_sent c' = vm_sent c"
    using vm_ReadPacket_keeps by blast
  show "vm_usable c \<Longrightarrow> vm_ReadPacket n c = (Inr x, c') \<Longrightarrow> vm_usable c'"
    using vm_ReadPacket_keeps by blast
  show "vm_usable c \<Longrightarrow> vm_writable p ip pr \<Longrightarrow> vm_WritePacket p ip pr c = (None, c') \<Longrightarrow>
      vm_usable c' \<and> vm_sent c' = vm_sent c @ [(p, ip, 32 * int (unat pr))]"
    by (rule vm_WritePacket_sent(1)) simp_all
  show "vm_usable c \<Longrightarrow> vm_writable p ip pr \<Longrightarrow> vm_WritePacket p ip pr c = (Some e, c') \<Longrightarrow>
      vm_sent c' = vm_sent c \<or> (\<exists>k t. vm_sent c' = vm_sent c @ [(take k p, ip, t)])"
    using vm_WritePacket_sent(2) by blast
qed

interpretation guest_link: framing length_prefixed vm_read_frame frame_ok
  unfolding vm_read_frame_def by (rule ethernet_framing)

section \<open>Properties\<close>

text \<open>C24. Packets written to the virtual machine's interface without an error reach the guest: read with the
  rules of the other side, the stream holds exactly these packets, in the order of the writes, complete and
  in the class of their priority.\<close>

theorem vm_write_correct:
  assumes "vm_usable c" and "\<forall>(p, ip, pr) \<in> set ps. ip = guestIP \<and> pr \<le> 7 \<and> length p \<le> 65515"
    and "write_all vm_WritePacket ps c = (rs, c')" and "set rs \<subseteq> {None}"
  shows "vm_sent c' = vm_sent c @ map (\<lambda>(p, ip, pr). (p, ip, 32 * int (unat pr))) ps"
  using vm.write_all_ok [OF assms(1) _ assms(3,4)] assms(2) unfolding vm_writable_def by blast

definition sample_vm :: conn where
  "sample_vm = \<lparr>c_in = [], c_fin = EOF, c_out = [], c_calls = 0,
     c_write = (\<lambda>i. if i = 1 then (10, Some (NetErr 1)) else (100, None)), c_deadline = (\<lambda>_. None)\<rparr>"

text \<open>After a frame that was cut off, a later write that succeeds is lost: the reader takes its beginning for
  the rest of the frame before.\<close>

lemma vm_lost_after_error:
  "fst (write_all vm_WritePacket [(replicate 28 1, guestIP, 0), (replicate 28 0, guestIP, 0)] sample_vm) =
     [Some (Net (NetErr 1)), None] \<and>
   vm_sent (snd (write_all vm_WritePacket [(replicate 28 1, guestIP, 0), (replicate 28 0, guestIP, 0)] sample_vm)) = []"
  by code_simp

theorem vm_write_correct_witness:
  "vm_sent (snd (write_all vm_WritePacket [(replicate 28 1, guestIP, 5)] (sample_vm\<lparr>c_calls := 1, c_write := (\<lambda>i. (40, None))\<rparr>))) =
     [(replicate 28 1, guestIP, 160)]"
proof -
  let ?c = "sample_vm\<lparr>c_calls := 1, c_write := (\<lambda>i. (40, None))\<rparr>"
  have "vm_usable ?c" by code_simp
  moreover have "set (fst (write_all vm_WritePacket [(replicate 28 1, guestIP, 5)] ?c)) \<subseteq> {None}" by code_simp
  moreover have "vm_sent ?c = []" by code_simp
  ultimately show ?thesis
    using vm_write_correct [of ?c "[(replicate 28 1, guestIP, 5)]",
        OF _ _ surjective_pairing [of "write_all vm_WritePacket [(replicate 28 1, guestIP, 5)] ?c"]] by simp
qed

definition replies :: "bytes list \<Rightarrow> bytes list" where
  "replies fs = concat (map (\<lambda>f. case vm_receive f of Answer r \<Rightarrow> [r] | _ \<Rightarrow> []) fs)"

lemma nic_frame_succeeds:
  assumes "\<And>i. \<exists>n. c_write c i = (Suc n, None)"
  obtains d where "nic_frame f c = (None, d)" and "c_out d = c_out c @ length_prefixed f" and "c_in d = c_in c"
    and "c_write d = c_write c"
proof -
  let ?c = "snd (set_deadline c)"
  have "fst (write_loop (length_prefixed f) ?c) = None"
    using write_loop_succeeds [of ?c "length_prefixed f"] assms by (simp add: set_deadline_def)
  then obtain d where w: "write_loop (length_prefixed f) ?c = (None, d)" by (cases "write_loop (length_prefixed f) ?c") auto
  from write_loop_bytes [OF w] obtain n where
    "d = ?c\<lparr>c_out := c_out ?c @ length_prefixed f, c_calls := c_calls ?c + n\<rparr>" by auto
  then show thesis using that [of d] w by (simp add: nic_frame_def set_deadline_def)
qed


definition sample_arp :: bytes where
  "sample_arp = replicate 6 255 @ guestMAC @ [8, 6, 0, 1, 8, 0, 6, 4, 0, 1] @ guestMAC @ [10, 0, 0, 2] @ replicate 6 0 @ [10, 0, 0, 1]"

definition sample_ip :: bytes where
  "sample_ip = hostMAC @ guestMAC @ [8, 0, 0x45, 0, 0, 0x30, 0, 0, 0, 0, 64, 146, 0x66, 0x3a, 10, 0, 0, 2, 10, 0, 0, 1] @
     replicate 28 9"


end
