(* ===== verification/VmCheck_Run.thy ===== *)
theory VmCheck_Run
  imports VmCheck Calls Text_Ops
begin

unbundle bit_operations_syntax

text \<open>
  The process of the VM check, \<^verbatim>\<open>run\<close> of \<^verbatim>\<open>interop/vmcheck/main.go\<close>: starting the guest, waiting for its console
  messages, one echo of every size, and the deferred calls that end the guest and keep its log. What the
  operating system answers, the console text, the passing of time and what the calls return are the
  environment.
\<close>

section \<open>State\<close>

datatype vm_resource = VmListener | VmContext | VmConn | VmEndpoint

record vm_process =
  v_log :: string
  v_files :: "string \<rightharpoonup> string"
  v_out :: "string list"
  v_open :: "vm_resource list"
  v_guest :: bool

text \<open>How \<^verbatim>\<open>os.WriteFile\<close> ends: with the whole file, without having opened it, or with a part of the data.\<close>

datatype file_write = Written | NotOpened | CutShort nat

fun WriteFile :: "file_write \<Rightarrow> string \<Rightarrow> string \<Rightarrow> (string \<rightharpoonup> string) \<Rightarrow> (string \<rightharpoonup> string)" where
  "WriteFile Written path data files = files(path \<mapsto> data)"
| "WriteFile NotOpened path data files = files"
| "WriteFile (CutShort n) path data files = files(path \<mapsto> take n data)"

text \<open>A turn of a waiting loop is the console output since the last one and whether the deadline has passed. The
  console also writes during the calls, and until the guest has ended.\<close>

record vm_env =
  ve_listen :: "io_error option"
  ve_address :: string
  ve_start :: "string list \<Rightarrow> io_error option"
  ve_accept :: "io_error option"
  ve_host :: host
  ve_boot :: "(string \<times> bool) list"
  ve_calls :: caller
  ve_console :: "nat \<Rightarrow> string"
  ve_sweep :: "(string \<times> bool) list"
  ve_tail :: string
  ve_write :: file_write
  ve_time :: "int \<Rightarrow> string"
  ve_stats :: "stats \<Rightarrow> string"

section \<open>The code\<close>

datatype vm_error =
    VmUsage
  | VmOs io_error
  | VmNew new_error
  | NotReady string string
  | VmCall nat error string
  | VmMismatch nat
  | NotVerified string string

text \<open>\<^verbatim>\<open>logBuffer.Write\<close>.\<close>

definition vm_log_write :: "string \<Rightarrow> vm_process \<Rightarrow> vm_process" where
  "vm_log_write text p = p\<lparr>v_log := v_log p @ text\<rparr>"

text \<open>The loop ends with \<open>Some True\<close> on the marker, with \<open>Some False\<close> on the deadline.\<close>

fun wait_for :: "string \<Rightarrow> (string \<times> bool) list \<Rightarrow> vm_process \<Rightarrow> bool option \<times> vm_process" where
  "wait_for marker [] p = (None, p)"
| "wait_for marker ((text, late) # polls) p =
     (let p = vm_log_write text p in
      if Contains (v_log p) marker then (Some True, p)
      else if late then (Some False, p) else wait_for marker polls p)"

definition vm_sizes :: "nat list" where
  "vm_sizes = [1, 100, 1424, 65535, 65536, 65537, 100000, 1000000]"

definition vm_pass_line :: "vm_env \<Rightarrow> nat \<Rightarrow> int \<Rightarrow> string" where
  "vm_pass_line ve n t =
     ''PASS userspace -> unmodified Linux HomaModule: '' @ itoa n @ '' bytes ('' @ ve_time ve t @ '', TCG correctness only)'' @ [CHR 0x0A]"

fun vm_calls :: "vm_env \<Rightarrow> string \<Rightarrow> nat \<Rightarrow> nat list \<Rightarrow> vm_process \<Rightarrow> vm_error option \<times> vm_process" where
  "vm_calls ve logPath k [] p = (None, p)"
| "vm_calls ve logPath k (n # ns) p =
     (let b = vm_payload n; p = vm_log_write (ve_console ve k) p in
      case ve_calls ve k b of
        (Inl e, t) \<Rightarrow> (Some (VmCall n e logPath), p)
      | (Inr response, t) \<Rightarrow>
          if response \<noteq> b then (Some (VmMismatch n), p)
          else vm_calls ve logPath (Suc k) ns (p\<lparr>v_out := v_out p @ [vm_pass_line ve n t]\<rparr>))"

definition vm_config :: config where
  "vm_config = zero_config\<lparr>Timeout := 15 * Second, RetryInterval := 10 * Millisecond\<rparr>"

definition vm_qemu_args :: "string \<Rightarrow> string \<Rightarrow> string \<Rightarrow> string list" where
  "vm_qemu_args kernel_image initrd address =
     [''qemu-system-x86_64'', ''-accel'', ''tcg,thread=multi'', ''-smp'', ''2'', ''-m'', ''512'', ''-nodefaults'', ''-nographic'', ''-serial'',
      ''stdio'', ''-monitor'', ''none'', ''-no-reboot'', ''-kernel'', kernel_image, ''-initrd'', initrd,
      ''-append'', ''console=ttyS0 rdinit=/init panic=1 nokaslr quiet homa.test_guest=1 homa.mode=interop'',
      ''-netdev'', ''socket,id=n0,connect='' @ address, ''-device'', ''e1000,netdev=n0,mac=52:54:00:12:34:56'']"

definition vm_opened :: "vm_resource \<Rightarrow> vm_process \<Rightarrow> vm_process" where
  "vm_opened r p = p\<lparr>v_open := r # v_open p\<rparr>"

definition vm_released :: "vm_resource \<Rightarrow> vm_process \<Rightarrow> vm_process" where
  "vm_released r p = p\<lparr>v_open := remove1 r (v_open p)\<rparr>"

text \<open>From the endpoint on; the result is \<open>None\<close> while \<^verbatim>\<open>run\<close> is waiting.\<close>

definition vm_exchange :: "vm_env \<Rightarrow> string \<Rightarrow> vm_process \<Rightarrow> (vm_error option \<times> vm_process) option" where
  "vm_exchange ve logPath p =
     (case wait_for ''HOMA_GUEST_READY'' (ve_boot ve) p of
        (None, p) \<Rightarrow> None
      | (Some False, p) \<Rightarrow> Some (Some (NotReady logPath (v_log p)), p)
      | (Some True, p) \<Rightarrow>
         (case vm_calls ve logPath 0 vm_sizes p of
            (Some e, p) \<Rightarrow> Some (Some e, p)
          | (None, p) \<Rightarrow>
             (case wait_for ''HOMA_GUEST_CLIENT_PASS'' (ve_sweep ve) p of
                (None, p) \<Rightarrow> None
              | (Some False, p) \<Rightarrow> Some (Some (NotVerified logPath (v_log p)), p)
              | (Some True, p) \<Rightarrow>
                  Some (None, p\<lparr>v_out := v_out p @ [''PASS Linux HomaModule -> userspace (guest checks); stats='' @
                    ve_stats ve (h_stats (ve_host ve) (length vm_sizes)) @ [CHR 0x0A]]\<rparr>))))"

text \<open>From the guest's connection on. \<^verbatim>\<open>endpoint.Close\<close> closes the connection through \<^verbatim>\<open>nic.Close\<close>.\<close>

definition vm_linked :: "vm_env \<Rightarrow> string \<Rightarrow> vm_process \<Rightarrow> (vm_error option \<times> vm_process) option" where
  "vm_linked ve logPath p =
     (case ve_accept ve of
        Some e \<Rightarrow> Some (Some (VmOs e), p)
      | None \<Rightarrow>
         (let p = vm_opened VmConn p; h = ve_host ve in
          case New \<lparr>IP = hostIP, Port = 4001\<rparr> vm_config True (h_seed h) (h_clock h) (h_order h) of
            Inl e \<Rightarrow> Some (Some (VmNew e), vm_released VmConn p)
          | Inr ep \<Rightarrow> deferred (vm_released VmConn \<circ> vm_released VmEndpoint) (vm_exchange ve logPath (vm_opened VmEndpoint p))))"

text \<open>The deferred function that ends the guest and keeps its log.\<close>

definition vm_end_guest :: "vm_env \<Rightarrow> string \<Rightarrow> vm_process \<Rightarrow> vm_process" where
  "vm_end_guest ve logPath p =
     (let p = vm_log_write (ve_tail ve) (p\<lparr>v_guest := False\<rparr>) in
      p\<lparr>v_files := WriteFile (ve_write ve) logPath (v_log p) (v_files p)\<rparr>)"

definition vm_run :: "vm_env \<Rightarrow> string \<Rightarrow> string \<Rightarrow> string \<Rightarrow> vm_process \<Rightarrow> (vm_error option \<times> vm_process) option" where
  "vm_run ve kernel_image initrd logPath p =
     (if kernel_image = [] \<or> initrd = [] then Some (Some VmUsage, p)
      else case ve_listen ve of
        Some e \<Rightarrow> Some (Some (VmOs e), p)
      | None \<Rightarrow>
          deferred (vm_released VmListener) (deferred (vm_released VmContext)
            (let p = (vm_opened VmContext (vm_opened VmListener p))\<lparr>v_log := []\<rparr> in
             case ve_start ve (vm_qemu_args kernel_image initrd (ve_address ve)) of
               Some e \<Rightarrow> Some (Some (VmOs e), p)
             | None \<Rightarrow> deferred (vm_end_guest ve logPath) (vm_linked ve logPath (p\<lparr>v_guest := True\<rparr>)))))"

section \<open>A pass is evidence\<close>

definition vm_plan :: "caller \<Rightarrow> nat list \<Rightarrow> planned list" where
  "vm_plan f ns = map (\<lambda>n. (f, vm_payload n, True)) ns"

text \<open>The log after the first \<open>i\<close> turns, and the turn at which the marker is first in it, before the deadline.\<close>

definition log_after :: "string \<Rightarrow> (string \<times> bool) list \<Rightarrow> nat \<Rightarrow> string" where
  "log_after l polls i = l @ concat (map fst (take i polls))"

definition seen_at :: "string \<Rightarrow> string \<Rightarrow> (string \<times> bool) list \<Rightarrow> nat \<Rightarrow> bool" where
  "seen_at marker l polls i \<longleftrightarrow> i < length polls \<and> Contains (log_after l polls (Suc i)) marker \<and>
     (\<forall>j < i. \<not> Contains (log_after l polls (Suc j)) marker \<and> \<not> snd (polls ! j))"

lemma log_after_simps [simp]:
  "log_after l polls 0 = l" "log_after l ((chunk, late) # polls) (Suc i) = log_after (l @ chunk) polls i"
  by (simp_all add: log_after_def)

lemma seen_at_Cons:
  "seen_at marker l ((chunk, late) # polls) i \<longleftrightarrow>
     (if Contains (l @ chunk) marker then i = 0
      else \<not> late \<and> (\<exists>j. i = Suc j \<and> seen_at marker (l @ chunk) polls j))"
  by (cases i) (auto simp: seen_at_def All_less_Suc2)

lemma wait_for_seen:
  "wait_for marker polls p = (Some True, p') \<longleftrightarrow>
     (\<exists>i. seen_at marker (v_log p) polls i \<and> p' = p\<lparr>v_log := log_after (v_log p) polls (Suc i)\<rparr>)"
proof (induction polls arbitrary: p)
  case (Cons poll polls)
  obtain chunk late where poll: "poll = (chunk, late)" by (cases poll)
  show ?case
    using Cons [of "vm_log_write chunk p"] unfolding poll seen_at_Cons
    by (auto simp: vm_log_write_def Let_def)
qed (simp add: seen_at_def)

text \<open>Nothing but the log and the output changes before the deferred calls.\<close>

definition vm_same :: "vm_process \<Rightarrow> vm_process \<Rightarrow> bool" where
  "vm_same p p' \<longleftrightarrow> v_files p' = v_files p \<and> v_open p' = v_open p \<and> v_guest p' = v_guest p"

lemma vm_same_refl [simp]: "vm_same p p" by (simp add: vm_same_def)

lemma vm_same_trans: "vm_same p q \<Longrightarrow> vm_same q r \<Longrightarrow> vm_same p r" by (simp add: vm_same_def)

lemma vm_same_wait: "wait_for marker polls p = (x, p') \<Longrightarrow> vm_same p p'"
  by (induction marker polls p rule: wait_for.induct) (auto simp: vm_same_def vm_log_write_def Let_def split: if_splits)

lemma vm_calls_Cons:
  "vm_calls ve path k (n # ns) p =
     (case fst (ve_calls ve k (vm_payload n)) of
        Inl e \<Rightarrow> (Some (VmCall n e path), vm_log_write (ve_console ve k) p)
      | Inr response \<Rightarrow>
          if response \<noteq> vm_payload n then (Some (VmMismatch n), vm_log_write (ve_console ve k) p)
          else vm_calls ve path (Suc k) ns ((vm_log_write (ve_console ve k) p)
            \<lparr>v_out := v_out p @ [vm_pass_line ve n (snd (ve_calls ve k (vm_payload n)))]\<rparr>))"
  by (simp add: Let_def vm_log_write_def split: prod.split sum.split)

lemma vm_same_calls: "vm_calls ve path k ns p = (x, p') \<Longrightarrow> vm_same p p'"
proof (induction ns arbitrary: k p)
  case (Cons n ns)
  let ?q = "vm_log_write (ve_console ve k) p"
  have q: "vm_same p ?q" "vm_same p (?q\<lparr>v_out := out\<rparr>)" for out by (simp_all add: vm_same_def vm_log_write_def)
  from Cons.prems show ?case unfolding vm_calls_Cons
    by (auto split: sum.splits if_splits intro: q vm_same_trans [OF q(2) Cons.IH])
qed simp

lemma vm_same_exchange: "vm_exchange ve path p = Some (x, p') \<Longrightarrow> vm_same p p'"
  unfolding vm_exchange_def
  by (auto split: prod.splits option.splits bool.splits dest!: vm_same_wait vm_same_calls) (auto simp: vm_same_def)

lemma vm_calls_echoed:
  "(\<exists>p'. vm_calls ve path k ns p = (None, p')) \<longleftrightarrow> echoed k (vm_plan (ve_calls ve) ns)"
  "vm_calls ve path k ns p = (None, p') \<Longrightarrow>
     v_log p' = v_log p @ concat (map (ve_console ve) [k..<k + length ns]) \<and>
     v_out p' = v_out p @ map2 (vm_pass_line ve) ns (timed k (vm_plan (ve_calls ve) ns))"
proof (induction ns arbitrary: k p)
  case (Cons n ns)
  have plan: "vm_plan f (n # ns) = (f, vm_payload n, True) # vm_plan f ns" for f by (simp add: vm_plan_def)
  {
    case 1
    show ?case using Cons.IH(1) unfolding vm_calls_Cons plan by (auto split: sum.split)
  next
    case 2
    then show ?case using Cons.IH(2) unfolding vm_calls_Cons plan
      by (fastforce simp: vm_log_write_def upt_conv_Cons simp del: upt_Suc split: sum.splits if_splits)
  }
qed (simp_all add: vm_plan_def)

lemma vm_New: "\<exists>ep. New \<lparr>IP = hostIP, Port = 4001\<rparr> vm_config True s k ord = Inr ep"
  by (simp add: New_def defaults_def with_defaults_def Let_def vm_config_def zero_config_def fill_def invalid_config_def
      maxMessage_def duration_defs hostIP_def)

definition before_sweep :: "vm_env \<Rightarrow> nat \<Rightarrow> string" where
  "before_sweep ve i = log_after [] (ve_boot ve) (Suc i) @ concat (map (ve_console ve) [0..<length vm_sizes])"

text \<open>What the check has seen when it passes: the guest ready at turn \<open>i\<close> of the first loop, every echo, and the
  success of the guest's client at turn \<open>j\<close> of the second.\<close>

definition vm_verified :: "vm_env \<Rightarrow> nat \<Rightarrow> nat \<Rightarrow> bool" where
  "vm_verified ve i j \<longleftrightarrow> seen_at ''HOMA_GUEST_READY'' [] (ve_boot ve) i \<and>
     echoed 0 (vm_plan (ve_calls ve) [1, 100, 1424, 65535, 65536, 65537, 100000, 1000000]) \<and>
     seen_at ''HOMA_GUEST_CLIENT_PASS'' (before_sweep ve i) (ve_sweep ve) j"

lemma vm_exchange_cases:
  "vm_exchange ve path p = Some (None, p') \<longleftrightarrow>
     (\<exists>q r s. wait_for ''HOMA_GUEST_READY'' (ve_boot ve) p = (Some True, q) \<and> vm_calls ve path 0 vm_sizes q = (None, r) \<and>
        wait_for ''HOMA_GUEST_CLIENT_PASS'' (ve_sweep ve) r = (Some True, s) \<and>
        p' = s\<lparr>v_out := v_out s @ [''PASS Linux HomaModule -> userspace (guest checks); stats='' @
          ve_stats ve (h_stats (ve_host ve) (length vm_sizes)) @ [CHR 0x0A]]\<rparr>)"
proof -
  obtain x q where q: "wait_for ''HOMA_GUEST_READY'' (ve_boot ve) p = (x, q)" by fastforce
  obtain y r where r: "vm_calls ve path 0 vm_sizes q = (y, r)" by fastforce
  obtain z s where s: "wait_for ''HOMA_GUEST_CLIENT_PASS'' (ve_sweep ve) r = (z, s)" by fastforce
  define out where "out = ''PASS Linux HomaModule -> userspace (guest checks); stats='' @
      ve_stats ve (h_stats (ve_host ve) (length vm_sizes)) @ [CHR 0x0A]"
  show ?thesis
    unfolding vm_exchange_def out_def [symmetric] q prod.case prod.inject
    by (cases x; cases y; cases z) (auto simp: r s split: bool.splits)
qed

lemma vm_exchange_pass:
  assumes "v_log p = []"
  shows "(\<exists>p'. vm_exchange ve path p = Some (None, p')) \<longleftrightarrow> (\<exists>i j. vm_verified ve i j)"
    and "vm_exchange ve path p = Some (None, p') \<Longrightarrow>
      \<exists>i j. vm_verified ve i j \<and> v_log p' = log_after (before_sweep ve i) (ve_sweep ve) (Suc j)"
proof -
  define ready pass where marks: "ready = ''HOMA_GUEST_READY''" "pass = ''HOMA_GUEST_CLIENT_PASS''"
  let ?p = "\<lambda>i. p\<lparr>v_log := log_after [] (ve_boot ve) (Suc i)\<rparr>"
  have calls: "v_log r = before_sweep ve i" if "vm_calls ve path 0 vm_sizes (?p i) = (None, r)" for r i
    using vm_calls_echoed(2) [OF that] by (simp add: before_sweep_def)
  have ex: "(\<exists>s. vm_exchange ve path p = Some (None, s) \<and> v_log s = l) \<longleftrightarrow>
      (\<exists>i j. vm_verified ve i j \<and> l = log_after (before_sweep ve i) (ve_sweep ve) (Suc j))" for l
  proof
    assume "\<exists>s. vm_exchange ve path p = Some (None, s) \<and> v_log s = l"
    then obtain q r s where *: "wait_for ready (ve_boot ve) p = (Some True, q)" "vm_calls ve path 0 vm_sizes q = (None, r)"
        "wait_for pass (ve_sweep ve) r = (Some True, s)" "l = v_log s"
      unfolding vm_exchange_cases marks by auto
    obtain i where i: "seen_at ready [] (ve_boot ve) i" "q = ?p i" using *(1) assms unfolding wait_for_seen by auto
    have r: "v_log r = before_sweep ve i" using calls *(2) i(2) by simp
    then obtain j where "seen_at pass (before_sweep ve i) (ve_sweep ve) j" "l = log_after (before_sweep ve i) (ve_sweep ve) (Suc j)"
      using *(3,4) unfolding wait_for_seen by auto
    moreover have "echoed 0 (vm_plan (ve_calls ve) vm_sizes)" using vm_calls_echoed(1) *(2) by blast
    ultimately show "\<exists>i j. vm_verified ve i j \<and> l = log_after (before_sweep ve i) (ve_sweep ve) (Suc j)"
      unfolding vm_verified_def vm_sizes_def [symmetric] marks [symmetric] using i(1) by blast
  next
    assume "\<exists>i j. vm_verified ve i j \<and> l = log_after (before_sweep ve i) (ve_sweep ve) (Suc j)"
    then obtain i j where v: "seen_at ready [] (ve_boot ve) i" "echoed 0 (vm_plan (ve_calls ve) vm_sizes)"
        "seen_at pass (before_sweep ve i) (ve_sweep ve) j" "l = log_after (before_sweep ve i) (ve_sweep ve) (Suc j)"
      unfolding vm_verified_def vm_sizes_def [symmetric] marks [symmetric] by blast
    have q: "wait_for ready (ve_boot ve) p = (Some True, ?p i)" unfolding wait_for_seen using v(1) assms by auto
    obtain r where r: "vm_calls ve path 0 vm_sizes (?p i) = (None, r)" using vm_calls_echoed(1) v(2) by blast
    have s: "wait_for pass (ve_sweep ve) r = (Some True, r\<lparr>v_log := l\<rparr>)" unfolding wait_for_seen using v(3,4) calls [OF r] by auto
    show "\<exists>s. vm_exchange ve path p = Some (None, s) \<and> v_log s = l"
      unfolding vm_exchange_cases marks [symmetric] using q r s by fastforce
  qed
  show "(\<exists>p'. vm_exchange ve path p = Some (None, p')) \<longleftrightarrow> (\<exists>i j. vm_verified ve i j)" using ex by metis
  show "\<exists>i j. vm_verified ve i j \<and> v_log p' = log_after (before_sweep ve i) (ve_sweep ve) (Suc j)"
    if "vm_exchange ve path p = Some (None, p')" for p' using ex that by blast
qed

lemma vm_linked_eq:
  assumes "ve_accept ve = None"
  shows "vm_linked ve path p = deferred (vm_released VmConn \<circ> vm_released VmEndpoint)
    (vm_exchange ve path (vm_opened VmEndpoint (vm_opened VmConn p)))"
proof -
  obtain ep where "New \<lparr>IP = hostIP, Port = 4001\<rparr> vm_config True (h_seed (ve_host ve)) (h_clock (ve_host ve)) (h_order (ve_host ve)) = Inr ep"
    using vm_New by blast
  then show ?thesis using assms by (simp add: vm_linked_def Let_def)
qed

lemma vm_linked_same: "vm_linked ve path p = Some (err, p') \<Longrightarrow> vm_same p p'"
proof (cases "ve_accept ve")
  case None
  assume "vm_linked ve path p = Some (err, p')"
  then obtain q where q: "vm_exchange ve path (vm_opened VmEndpoint (vm_opened VmConn p)) = Some (err, q)"
      "p' = vm_released VmConn (vm_released VmEndpoint q)"
    by (auto simp: vm_linked_eq [OF None] deferred_Some)
  then show ?thesis using vm_same_exchange [OF q(1)] by (simp add: vm_same_def vm_opened_def vm_released_def)
qed (simp add: vm_linked_def)

text \<open>The guest was started.\<close>

definition vm_started :: "vm_env \<Rightarrow> string \<Rightarrow> string \<Rightarrow> bool" where
  "vm_started ve kernel_image initrd \<longleftrightarrow> kernel_image \<noteq> [] \<and> initrd \<noteq> [] \<and> ve_listen ve = None \<and>
     ve_start ve (vm_qemu_args kernel_image initrd (ve_address ve)) = None"

lemma vm_run_started:
  assumes "vm_started ve kernel_image initrd"
  shows "vm_run ve kernel_image initrd path p =
    deferred (vm_released VmListener) (deferred (vm_released VmContext) (deferred (vm_end_guest ve path)
      (vm_linked ve path ((vm_opened VmContext (vm_opened VmListener p))\<lparr>v_log := [], v_guest := True\<rparr>))))"
  using assms by (simp add: vm_run_def vm_started_def Let_def)

lemma vm_run_not_started:
  assumes "\<not> vm_started ve kernel_image initrd"
  shows "\<exists>e p'. vm_run ve kernel_image initrd path p = Some (Some e, p') \<and> vm_same p p'"
  using assms
  by (auto simp: vm_run_def vm_started_def deferred_def Let_def vm_same_def vm_opened_def vm_released_def split: option.splits)

text \<open>C33. The VM check passes exactly when it has both images, its guest starts and connects, the guest reports
  readiness in time, the echo of each of the eight sizes, from one byte to the largest message, is exact, and
  the guest reports the success of its own client in time. However it ends, the listener, the connection, the
  endpoint and the context are released, no guest stays behind, and if one was started its whole console log is
  what is written to the log file; otherwise no file changes.\<close>

theorem vm_check_evidence:
  "((\<exists>p'. vm_run ve kernel_image initrd path p = Some (None, p')) \<longleftrightarrow>
      vm_started ve kernel_image initrd \<and> ve_accept ve = None \<and> (\<exists>i j. vm_verified ve i j)) \<and>
   (\<forall>err p'. vm_run ve kernel_image initrd path p = Some (err, p') \<longrightarrow>
      v_open p' = v_open p \<and> (\<not> v_guest p \<longrightarrow> \<not> v_guest p') \<and>
      v_files p' = (if vm_started ve kernel_image initrd then WriteFile (ve_write ve) path (v_log p') (v_files p) else v_files p) \<and>
      (err = None \<longrightarrow> (\<exists>i j. vm_verified ve i j \<and> v_log p' = log_after (before_sweep ve i) (ve_sweep ve) (Suc j) @ ve_tail ve)))"
proof (cases "vm_started ve kernel_image initrd")
  case False
  then show ?thesis using vm_run_not_started [OF False, of path p] by (auto simp: vm_same_def)
next
  case True
  let ?q = "(vm_opened VmContext (vm_opened VmListener p))\<lparr>v_log := [], v_guest := True\<rparr>"
  let ?x = "vm_opened VmEndpoint (vm_opened VmConn ?q)"
  have x: "v_log ?x = []" by (simp add: vm_opened_def)
  note run = vm_run_started [OF True, of path p] and pass = vm_exchange_pass [OF x, of ve path]
  have linked: "vm_linked ve path ?q = Some (None, q') \<longleftrightarrow> ve_accept ve = None \<and>
      (\<exists>s. vm_exchange ve path ?x = Some (None, s) \<and> q' = vm_released VmConn (vm_released VmEndpoint s))" for q'
  proof (cases "ve_accept ve")
    case None
    then show ?thesis by (auto simp: vm_linked_eq deferred_Some)
  qed (simp add: vm_linked_def)
  have iff: "(\<exists>p'. vm_run ve kernel_image initrd path p = Some (None, p')) \<longleftrightarrow> ve_accept ve = None \<and> (\<exists>i j. vm_verified ve i j)"
    unfolding run deferred_Some linked pass(1) [symmetric] by blast
  have "v_open p' = v_open p \<and> (\<not> v_guest p \<longrightarrow> \<not> v_guest p') \<and> v_files p' = WriteFile (ve_write ve) path (v_log p') (v_files p) \<and>
      (err = None \<longrightarrow> (\<exists>i j. vm_verified ve i j \<and> v_log p' = log_after (before_sweep ve i) (ve_sweep ve) (Suc j) @ ve_tail ve))"
    if returned: "vm_run ve kernel_image initrd path p = Some (err, p')" for err p'
  proof -
    obtain q where q: "vm_linked ve path ?q = Some (err, q)"
        "p' = vm_released VmListener (vm_released VmContext (vm_end_guest ve path q))"
      using returned unfolding run deferred_Some by blast
    have "vm_same ?q q" by (rule vm_linked_same [OF q(1)])
    moreover have "\<exists>i j. vm_verified ve i j \<and> v_log q = log_after (before_sweep ve i) (ve_sweep ve) (Suc j)" if ok: "err = None"
      using q(1) pass(2) unfolding ok linked by (auto simp: vm_released_def)
    ultimately show ?thesis
      unfolding q(2) by (auto simp: vm_same_def vm_end_guest_def vm_released_def vm_opened_def vm_log_write_def Let_def)
  qed
  then show ?thesis using True iff by simp
qed

definition sample_ve :: vm_env where
  "sample_ve = \<lparr>ve_listen = None, ve_address = ''127.0.0.1:9'', ve_start = (\<lambda>_. None), ve_accept = None,
     ve_host = \<lparr>h_listen = None, h_setbuf = None, h_seed = 1, h_clock = int, h_order = (\<lambda>_ ks. ks),
       h_since = (\<lambda>k k'. 0), h_stats = (\<lambda>_. zero_stats)\<rparr>,
     ve_boot = [(''boot'', False), (''HOMA_GUEST_READY'', False)], ve_calls = (\<lambda>k b. (Inr b, 0)), ve_console = (\<lambda>_. []),
     ve_sweep = [(''HOMA_GUEST_CLIENT_PASS'', True)], ve_tail = ''off'', ve_write = Written, ve_time = (\<lambda>_. ''0s''),
     ve_stats = (\<lambda>_. ''{}'')\<rparr>"

definition sample_vp :: vm_process where
  "sample_vp = \<lparr>v_log = [], v_files = Map.empty, v_out = [], v_open = [], v_guest = False\<rparr>"

theorem vm_check_evidence_witness:
  "\<exists>p'. vm_run sample_ve ''k'' ''i'' ''log'' sample_vp = Some (None, p') \<and> v_open p' = [] \<and> \<not> v_guest p' \<and>
     v_files p' ''log'' = Some (v_log p')"
proof -
  have seen: "seen_at ''HOMA_GUEST_READY'' [] (ve_boot sample_ve) 1" "before_sweep sample_ve 1 = ''bootHOMA_GUEST_READY''"
      "seen_at ''HOMA_GUEST_CLIENT_PASS'' ''bootHOMA_GUEST_READY'' (ve_sweep sample_ve) 0"
    by (simp_all add: seen_at_def log_after_def before_sweep_def vm_sizes_def sample_ve_def)
  then have "vm_verified sample_ve 1 0" unfolding vm_verified_def by (simp add: vm_plan_def sample_ve_def)
  moreover have "vm_started sample_ve ''k'' ''i''" "ve_accept sample_ve = None" by (simp_all add: vm_started_def sample_ve_def)
  ultimately obtain p' where "vm_run sample_ve ''k'' ''i'' ''log'' sample_vp = Some (None, p')"
    using vm_check_evidence [of sample_ve "''k''" "''i''" "''log''" sample_vp] by blast
  then show ?thesis
    using vm_check_evidence [of sample_ve "''k''" "''i''" "''log''" sample_vp] \<open>vm_started sample_ve ''k'' ''i''\<close>
    by (auto simp: sample_vp_def sample_ve_def)
qed

end
