(* ===== verification/Commands.thy ===== *)
theory Commands
  imports Flags Echo Bench Relay_Process VmCheck_Run
begin

text \<open>
  The commands from their arguments to their exit status: \<^verbatim>\<open>main\<close> and the beginning of \<^verbatim>\<open>run\<close> of \<^verbatim>\<open>cmd/homa-echo\<close>,
  \<^verbatim>\<open>cmd/homa-bench\<close>, \<^verbatim>\<open>interop/lanrelay\<close> and \<^verbatim>\<open>interop/vmcheck\<close>, with the flags each of them defines and the reports the first
  two write. The text of a report in JSON and the texts of errors are not modelled.
\<close>

section \<open>Values of flags\<close>

definition str_flag :: "string \<Rightarrow> flag_set \<Rightarrow> string" where
  "str_flag n fs = (case map_of fs n of Some (FString s) \<Rightarrow> s | _ \<Rightarrow> [])"

definition int_flag :: "string \<Rightarrow> flag_set \<Rightarrow> int" where
  "int_flag n fs = (case map_of fs n of Some (FInt i) \<Rightarrow> i | _ \<Rightarrow> 0)"

definition dur_flag :: "string \<Rightarrow> flag_set \<Rightarrow> int" where
  "dur_flag n fs = (case map_of fs n of Some (FDuration i) \<Rightarrow> i | _ \<Rightarrow> 0)"

section \<open>The echo command\<close>

text \<open>What the process gets from its surroundings: hosts, calls, the result of writing the report, and the name
  of the platform.\<close>

record tool_env =
  t_p6 :: ipv6_parser
  t_s6 :: "128 word \<Rightarrow> string \<Rightarrow> string"
  t_host :: host
  t_host2 :: host
  t_calls :: caller
  t_encode :: "io_error option"
  t_platform :: string

record self_report =
  sr_status :: string
  sr_evidence :: string
  sr_kernel :: bool
  sr_platform :: string
  sr_protocol :: int
  sr_server :: string
  sr_client :: string
  sr_elapsed :: rat
  sr_results :: "(nat \<times> rat) list"
  sr_server_stats :: stats
  sr_client_stats :: stats

definition make_self_report :: "tool_env \<Rightarrow> (nat \<times> rat) list \<Rightarrow> self_report" where
  "make_self_report te results =
     \<lparr>sr_status = ''passed'', sr_evidence = ''native raw IPv4 loopback between two userspace Homa endpoints'', sr_kernel = False,
      sr_platform = t_platform te, sr_protocol = Protocol, sr_server = Addr_String (t_s6 te) serverAddr,
      sr_client = Addr_String (t_s6 te) clientAddr, sr_elapsed = Seconds (h_since (t_host2 te) 0 (length results)),
      sr_results = results, sr_server_stats = h_stats (t_host te) (length results), sr_client_stats = h_stats (t_host2 te) (length results)\<rparr>"

datatype echo_failure = EchoUsage | EchoFlags flag_error | EchoFailed echo_error | SelfFailed selftest_error | EchoEncode io_error

datatype echo_success = EchoHelp | EchoStopped | EchoReported echo_report | SelfReported self_report

definition selftest_flags :: flag_set where
  "selftest_flags = [(''timeout'', FDuration (5 * Second))]"

definition echo_flags :: "string \<Rightarrow> flag_set" where
  "echo_flags mode =
     [(''listen'', FString (if mode = ''call'' then ''127.0.0.1:4001'' else ''127.0.0.1:4000'')), (''peer'', FString ''127.0.0.1:4000''),
      (''bytes'', FInt 128), (''count'', FInt 1), (''timeout'', FDuration (5 * Second))]"

definition encoded :: "tool_env \<Rightarrow> (echo_failure + echo_success) \<Rightarrow> echo_failure + echo_success" where
  "encoded te r = (case r of
      Inr s \<Rightarrow> (case t_encode te of Some e \<Rightarrow> Inl (EchoEncode e) | None \<Rightarrow> Inr s)
    | Inl e \<Rightarrow> Inl e)"

definition selftest_main :: "tool_env \<Rightarrow> string list \<Rightarrow> rawIP \<Rightarrow> rawIP \<Rightarrow> (echo_failure + echo_success) \<times> rawIP \<times> rawIP" where
  "selftest_main te args rs rc =
     (case parse_flags selftest_flags args of
        Inl e \<Rightarrow> (if e = ErrHelp then Inr EchoHelp else Inl (EchoFlags e), rs, rc)
      | Inr (fs, left) \<Rightarrow>
         (case selftest (t_host te) (t_host2 te) (t_calls te) (length left) (dur_flag ''timeout'' fs) rs rc of
            (Inl e, rs, rc) \<Rightarrow> (Inl (SelfFailed e), rs, rc)
          | (Inr results, rs, rc) \<Rightarrow> (encoded te (Inr (SelfReported (make_self_report te results))), rs, rc)))"

definition echo_call :: "tool_env \<Rightarrow> string \<Rightarrow> flag_set \<Rightarrow> nat \<Rightarrow> rawIP \<Rightarrow> (echo_failure + echo_success) \<times> rawIP" where
  "echo_call te mode fs nargs r =
     (case echo_run (t_p6 te) (t_s6 te) (t_host te) (t_calls te) (if mode = ''call'' then Call else Serve) nargs (int_flag ''bytes'' fs)
         (int_flag ''count'' fs) (dur_flag ''timeout'' fs) (str_flag ''listen'' fs) (str_flag ''peer'' fs) r of
        (Inl e, r) \<Rightarrow> (Inl (EchoFailed e), r)
      | (Inr None, r) \<Rightarrow> (Inr EchoStopped, r)
      | (Inr (Some rep), r) \<Rightarrow> (encoded te (Inr (EchoReported rep)), r))"

definition echo_main :: "tool_env \<Rightarrow> string list \<Rightarrow> rawIP \<Rightarrow> rawIP \<Rightarrow> (echo_failure + echo_success) \<times> rawIP \<times> rawIP" where
  "echo_main te args r rc =
     (case args of
        [] \<Rightarrow> (Inl EchoUsage, r, rc)
      | mode # args \<Rightarrow>
          if mode = ''selftest'' then selftest_main te args r rc
          else if mode \<noteq> ''serve'' \<and> mode \<noteq> ''call'' then (Inl EchoUsage, r, rc)
          else case parse_flags (echo_flags mode) args of
            Inl e \<Rightarrow> (if e = ErrHelp then Inr EchoHelp else Inl (EchoFlags e), r, rc)
          | Inr (fs, left) \<Rightarrow> (case echo_call te mode fs (length left) r of (res, r) \<Rightarrow> (res, r, rc)))"

text \<open>\<^verbatim>\<open>main\<close> of both commands.\<close>

definition exit_status :: "('e + 'a) \<Rightarrow> nat" where
  "exit_status res = (case res of Inl e \<Rightarrow> 1 | Inr a \<Rightarrow> 0)"

section \<open>The benchmark\<close>

record bench_env =
  b_p6 :: ipv6_parser
  b_host :: client_host
  b_calls :: "transport \<Rightarrow> caller"
  b_tcp :: "io_error option"
  b_events :: "serve_event list"
  b_encode :: "io_error option"
  b_started :: int
  b_platform :: string
  b_goversion :: string

record bench_report =
  br_status :: string
  br_started :: int
  br_platform :: string
  br_goversion :: string
  br_evidence :: string
  br_options :: options
  br_elapsed :: rat
  br_measurements :: "measurement list"

definition bench_flags :: "string \<Rightarrow> flag_set" where
  "bench_flags mode =
     [(''timeout'', FDuration (5 * Second)), (''duration'', FDuration (10 * Minute))] @
     (if mode = ''serve'' then [(''bind'', FString ''127.0.0.1'')]
      else [(''local'', FString ''127.0.0.1:4003''), (''peer'', FString ''127.0.0.1:4000''), (''tcp-peer'', FString ''127.0.0.1:14000''),
        (''sizes'', FString ''64,1024,16384,65536,1000000''), (''warmup'', FInt 10), (''small-samples'', FInt 1000),
        (''large-samples'', FInt 100), (''rounds'', FInt 3), (''out'', FString ''-''), (''scope'', FString ''unspecified network'')])"

definition bench_options :: "flag_set \<Rightarrow> options" where
  "bench_options fs =
     \<lparr>o_local = str_flag ''local'' fs, o_peer = str_flag ''peer'' fs, o_tcppeer = str_flag ''tcp-peer'' fs, o_sizes = [],
      o_warmup = int_flag ''warmup'' fs, o_small = int_flag ''small-samples'' fs, o_large = int_flag ''large-samples'' fs,
      o_rounds = int_flag ''rounds'' fs, o_timeout = dur_flag ''timeout'' fs, o_scope = str_flag ''scope'' fs\<rparr>"

definition bench_evidence_text :: string where
  "bench_evidence_text = ''Sequential verified plaintext echo RTT and bidirectional application-payload goodput; one persistent endpoint/connection; not link capacity, loaded tail-latency, or the Homa paper's kernel implementation performance. Homa requests IP precedence priorities while TCP uses default QoS; physical-network differences can include QoS treatment, not only transport logic.''"

definition make_bench_report :: "bench_env \<Rightarrow> flag_set \<Rightarrow> measurement list \<Rightarrow> bench_report" where
  "make_bench_report be fs ms =
     \<lparr>br_status = ''passed'', br_started = b_started be, br_platform = b_platform be, br_goversion = b_goversion be,
      br_evidence = bench_evidence_text,
      br_options = (bench_options fs)\<lparr>o_sizes := (case parseSizes (str_flag ''sizes'' fs) of Inl e \<Rightarrow> [] | Inr ns \<Rightarrow> ns)\<rparr>,
      br_elapsed = Seconds (h_since (b_host be) 0 (sum_list (map (\<lambda>m. nat (int_flag ''warmup'' fs) + m_count m) ms))),
      br_measurements = ms\<rparr>"

datatype bench_failure = BenchUsage | BenchFlags flag_error | BenchArgs bench_error | BenchServe serve_error
  | BenchClient run_error | BenchUnsupported | BenchEncode io_error

datatype bench_success = BenchHelp | BenchServed | BenchReported bench_report

text \<open>The output file is created only if one is named. The JSON encoder refuses a report with an infinite number.\<close>

definition bench_client_main :: "bench_env \<Rightarrow> flag_set \<Rightarrow> nat \<Rightarrow> rawIP \<Rightarrow> (bench_failure + bench_success) \<times> rawIP" where
  "bench_client_main be fs nargs r =
     (let h = (if str_flag ''out'' fs = ''-'' then (b_host be)\<lparr>ch_create := None\<rparr> else b_host be) in
      case bench_run (b_p6 be) h (b_calls be) nargs (dur_flag ''duration'' fs) (str_flag ''sizes'' fs) (bench_options fs) r of
        (Inl e, r) \<Rightarrow> (Inl (BenchClient e), r)
      | (Inr ms, r) \<Rightarrow>
          (if \<exists>m \<in> set ms. m_goodput m = None then Inl BenchUnsupported
           else case b_encode be of Some e \<Rightarrow> Inl (BenchEncode e) | None \<Rightarrow> Inr (BenchReported (make_bench_report be fs ms)), r))"

text \<open>The result is \<open>None\<close> while a server runs.\<close>

definition bench_serve_main :: "bench_env \<Rightarrow> flag_set \<Rightarrow> nat \<Rightarrow> rawIP \<Rightarrow> (bench_failure + bench_success) option \<times> rawIP" where
  "bench_serve_main be fs nargs r =
     (case bench_common nargs (dur_flag ''timeout'' fs) (dur_flag ''duration'' fs) of
        Some e \<Rightarrow> (Some (Inl (BenchArgs e)), r)
      | None \<Rightarrow>
         (case serve (b_p6 be) (host.truncate (b_host be)) (str_flag ''bind'' fs) (dur_flag ''timeout'' fs) (b_tcp be) (b_events be) r of
            (None, s, r) \<Rightarrow> (None, r)
          | (Some None, s, r) \<Rightarrow> (Some (Inr BenchServed), r)
          | (Some (Some e), s, r) \<Rightarrow> (Some (Inl (BenchServe e)), r)))"

definition bench_main :: "bench_env \<Rightarrow> string list \<Rightarrow> rawIP \<Rightarrow> (bench_failure + bench_success) option \<times> rawIP" where
  "bench_main be args r =
     (case args of
        [] \<Rightarrow> (Some (Inl BenchUsage), r)
      | mode # args \<Rightarrow>
          if mode \<noteq> ''serve'' \<and> mode \<noteq> ''client'' then (Some (Inl BenchUsage), r)
          else case parse_flags (bench_flags mode) args of
            Inl e \<Rightarrow> (Some (if e = ErrHelp then Inr BenchHelp else Inl (BenchFlags e)), r)
          | Inr (fs, left) \<Rightarrow>
              if mode = ''serve'' then bench_serve_main be fs (length left) r
              else (case bench_client_main be fs (length left) r of (res, r) \<Rightarrow> (Some res, r)))"

section \<open>The interoperability tools\<close>

text \<open>Their flags belong to the process: \<^verbatim>\<open>flag.Parse\<close> ends it with status 0 for help and 2 for an error.\<close>

definition relay_flags :: flag_set where
  "relay_flags =
     [(''local'', FString []), (''peer'', FString []), (''kernel'', FString []), (''initrd'', FString []),
      (''log'', FString ''/tmp/homa-lanrelay-qemu.log''), (''report'', FString ''/tmp/homa-lanrelay-report.json''),
      (''ready-file'', FString ''/tmp/homa-lanrelay.ready''), (''duration'', FDuration (3 * Minute)), (''qemu-uid'', FInt (- 1))]"

definition relay_options :: "flag_set \<Rightarrow> nat \<Rightarrow> flags" where
  "relay_options fs nargs =
     \<lparr>f_local = str_flag ''local'' fs, f_peer = str_flag ''peer'' fs, f_kernel = str_flag ''kernel'' fs, f_initrd = str_flag ''initrd'' fs,
      f_log = str_flag ''log'' fs, f_report = str_flag ''report'' fs, f_ready = str_flag ''ready-file'' fs,
      f_duration = dur_flag ''duration'' fs, f_qemuUID = int_flag ''qemu-uid'' fs, f_nargs = nargs\<rparr>"

definition relay_command :: "env \<Rightarrow> string list \<Rightarrow> sup_event list \<Rightarrow> relay_event list \<Rightarrow> process \<Rightarrow> (nat \<times> process) option" where
  "relay_command en args evs tail p =
     (case parse_flags relay_flags args of
        Inl e \<Rightarrow> Some (if e = ErrHelp then 0 else 2, p)
      | Inr (fs, left) \<Rightarrow> map_option (relay_exit en) (relay_main en (relay_options fs (length left)) evs tail p))"

definition vm_flags :: flag_set where
  "vm_flags = [(''kernel'', FString []), (''initrd'', FString []), (''log'', FString ''/tmp/homa-qemu.log'')]"

text \<open>The VM check does not look at the arguments after its flags.\<close>

definition vm_command :: "vm_env \<Rightarrow> string list \<Rightarrow> vm_process \<Rightarrow> (nat \<times> vm_process) option" where
  "vm_command ve args p =
     (case parse_flags vm_flags args of
        Inl e \<Rightarrow> Some (if e = ErrHelp then 0 else 2, p)
      | Inr (fs, left) \<Rightarrow>
          map_option (\<lambda>(err, p). (if err = None then 0 else 1, p))
            (vm_run ve (str_flag ''kernel'' fs) (str_flag ''initrd'' fs) (str_flag ''log'' fs) p))"

section \<open>What can be said on a command line\<close>

definition int64 :: "int \<Rightarrow> bool" where
  "int64 i \<longleftrightarrow> - (2 ^ 63) \<le> i \<and> i < 2 ^ 63"

lemmas flag_values = str_flag_def int_flag_def dur_flag_def

lemma names_ok: "name_ok n" if "n \<in> {''listen'', ''peer'', ''bytes'', ''count'', ''timeout'', ''duration'', ''bind'', ''local'', ''tcp-peer'', ''sizes'',
    ''warmup'', ''small-samples'', ''large-samples'', ''rounds'', ''out'', ''scope'', ''kernel'', ''initrd'', ''log'', ''report'', ''ready-file'', ''qemu-uid''}"
  using that by (auto simp: name_ok_def)

lemma undefined_flag:
  assumes "name_ok n" and "map_of fs n = None" and "n \<noteq> ''help''" and "n \<noteq> ''h''"
  shows "parse_flags fs (flag_arg (n, v) # args) = Inl (NotDefined n)"
proof -
  obtain c cs where n: "n = c # cs" "c \<noteq> CHR ''-''" "c \<noteq> CHR ''=''" "CHR ''='' \<notin> set cs"
    using assms(1) by (cases n) (auto simp: name_ok_def)
  have "takeWhile (\<lambda>c. c \<noteq> CHR ''='') (cs @ CHR ''='' # w) = cs" for w using n(4) by (induction cs) auto
  then have "fst (split_flag (n @ CHR ''='' # w)) = n" for w by (simp add: split_flag_def n(1))
  then have "parseOne fs (flag_arg (n, v) # args) = Inl (NotDefined n)"
    using n(1-3) assms(2-4) by (auto simp: parseOne_def Let_def split_beta)
  then show ?thesis by (simp add: parse_flags.simps)
qed

definition echo_settings :: "string \<Rightarrow> string \<Rightarrow> int \<Rightarrow> int \<Rightarrow> int \<Rightarrow> flag_set" where
  "echo_settings listen peer n cnt t =
     [(''listen'', FString listen), (''peer'', FString peer), (''bytes'', FInt n), (''count'', FInt cnt), (''timeout'', FDuration t)]"

lemma echo_flags_read:
  assumes "int64 n" "int64 cnt" "int64 t"
  shows "parse_flags (echo_flags mode) (map flag_arg (echo_settings listen peer n cnt t) @ ''--'' # rest) =
    Inr (echo_settings listen peer n cnt t, rest)"
  by (rule flags_roundtrip) (use assms in \<open>simp_all add: echo_flags_def echo_settings_def names_ok int64_def\<close>)

definition bench_settings :: "options \<Rightarrow> int \<Rightarrow> string \<Rightarrow> string \<Rightarrow> flag_set" where
  "bench_settings opts duration sizes out =
     [(''timeout'', FDuration (o_timeout opts)), (''duration'', FDuration duration), (''local'', FString (o_local opts)),
      (''peer'', FString (o_peer opts)), (''tcp-peer'', FString (o_tcppeer opts)), (''sizes'', FString sizes),
      (''warmup'', FInt (o_warmup opts)), (''small-samples'', FInt (o_small opts)), (''large-samples'', FInt (o_large opts)),
      (''rounds'', FInt (o_rounds opts)), (''out'', FString out), (''scope'', FString (o_scope opts))]"

lemma bench_flags_read:
  assumes "int64 (o_timeout opts)" "int64 duration" "int64 (o_warmup opts)" "int64 (o_small opts)" "int64 (o_large opts)"
    "int64 (o_rounds opts)"
  shows "parse_flags (bench_flags ''client'') (map flag_arg (bench_settings opts duration sizes out) @ ''--'' # rest) =
    Inr (bench_settings opts duration sizes out, rest)"
  by (rule flags_roundtrip) (use assms in \<open>simp_all add: bench_flags_def bench_settings_def names_ok int64_def\<close>)

definition relay_settings :: "flags \<Rightarrow> flag_set" where
  "relay_settings f =
     [(''local'', FString (f_local f)), (''peer'', FString (f_peer f)), (''kernel'', FString (f_kernel f)), (''initrd'', FString (f_initrd f)),
      (''log'', FString (f_log f)), (''report'', FString (f_report f)), (''ready-file'', FString (f_ready f)),
      (''duration'', FDuration (f_duration f)), (''qemu-uid'', FInt (f_qemuUID f))]"

lemma relay_flags_read:
  assumes "int64 (f_duration f)" "int64 (f_qemuUID f)"
  shows "parse_flags relay_flags (map flag_arg (relay_settings f) @ ''--'' # rest) = Inr (relay_settings f, rest)"
  by (rule flags_roundtrip) (use assms in \<open>simp_all add: relay_flags_def relay_settings_def names_ok int64_def\<close>)

definition vm_settings :: "string \<Rightarrow> string \<Rightarrow> string \<Rightarrow> flag_set" where
  "vm_settings kernel_image initrd logPath = [(''kernel'', FString kernel_image), (''initrd'', FString initrd), (''log'', FString logPath)]"

lemma vm_flags_read:
  "parse_flags vm_flags (map flag_arg (vm_settings kernel_image initrd logPath) @ ''--'' # rest) =
     Inr (vm_settings kernel_image initrd logPath, rest)"
  by (rule flags_roundtrip) (simp_all add: vm_flags_def vm_settings_def names_ok)

lemma setting_values:
  "str_flag ''kernel'' (vm_settings kernel_image initrd logPath) = kernel_image"
  "str_flag ''initrd'' (vm_settings kernel_image initrd logPath) = initrd"
  "str_flag ''log'' (vm_settings kernel_image initrd logPath) = logPath"
  "str_flag ''listen'' (echo_settings listen peer n cnt t) = listen" "str_flag ''peer'' (echo_settings listen peer n cnt t) = peer"
  "int_flag ''bytes'' (echo_settings listen peer n cnt t) = n" "int_flag ''count'' (echo_settings listen peer n cnt t) = cnt"
  "dur_flag ''timeout'' (echo_settings listen peer n cnt t) = t"
  "str_flag ''sizes'' (bench_settings opts d sizes out) = sizes" "dur_flag ''duration'' (bench_settings opts d sizes out) = d"
  "str_flag ''out'' (bench_settings opts d sizes out) = out"
  "bench_options (bench_settings opts d sizes out) = opts\<lparr>o_sizes := []\<rparr>"
  "relay_options (relay_settings f) k = f\<lparr>f_nargs := k\<rparr>"
  by (simp_all add: flag_values echo_settings_def bench_settings_def bench_options_def relay_settings_def relay_options_def
      vm_settings_def)

lemma bench_run_sizes: "bench_run p6 h ex nargs d sizes (opts\<lparr>o_sizes := ns\<rparr>) r = bench_run p6 h ex nargs d sizes opts r"
  by (simp add: bench_run_def cong: option.case_cong sum.case_cong)

text \<open>C31. The commands do what their command lines say. Any values of the flags can be given, and then the echo command
  exits with status 0 exactly if its run with these values succeeds and its report can be written, the benchmark
  likewise if the report has no infinite number, and the relay and the VM check run with exactly these values.
  Arguments after the flags are counted as such. A flag that is not defined ends each of the four with an error
  before it opens anything.\<close>

theorem command_lines:
  assumes "int64 n" "int64 cnt" "int64 t" and "int64 (o_timeout opts)" "int64 d" "int64 (o_warmup opts)" "int64 (o_small opts)"
    "int64 (o_large opts)" "int64 (o_rounds opts)" and "int64 (f_duration f)" "int64 (f_qemuUID f)"
  shows
    "(exit_status (fst (echo_main te (''call'' # map flag_arg (echo_settings listen peer n cnt t) @ ''--'' # rest) r rc)) = 0 \<longleftrightarrow>
        (\<exists>rep. fst (echo_run (t_p6 te) (t_s6 te) (t_host te) (t_calls te) Call (length rest) n cnt t listen peer r) = Inr rep \<and>
          (rep \<noteq> None \<longrightarrow> t_encode te = None))) \<and>
     (map_option exit_status (fst (bench_main be (''client'' # map flag_arg (bench_settings opts d sizes out) @ ''--'' # rest) r)) =
        Some 0 \<longleftrightarrow>
        (\<exists>ms. fst (bench_run (b_p6 be) (if out = ''-'' then (b_host be)\<lparr>ch_create := None\<rparr> else b_host be) (b_calls be)
          (length rest) d sizes opts r) = Inr ms \<and> (\<forall>m \<in> set ms. m_goodput m \<noteq> None)) \<and> b_encode be = None) \<and>
     relay_command en (map flag_arg (relay_settings f) @ ''--'' # rest) evs tail p =
       map_option (relay_exit en) (relay_main en (f\<lparr>f_nargs := length rest\<rparr>) evs tail p) \<and>
     vm_command ve (map flag_arg (vm_settings kernel_image initrd logPath) @ ''--'' # rest) vp =
       map_option (\<lambda>(err, vp). (if err = None then 0 else 1, vp)) (vm_run ve kernel_image initrd logPath vp) \<and>
     (name_ok x \<and> x \<notin> {''help'', ''h''} \<longrightarrow>
       (map_of (echo_flags ''call'') x = None \<longrightarrow> echo_main te (''call'' # flag_arg (x, v) # rest) r rc = (Inl (EchoFlags (NotDefined x)), r, rc)) \<and>
       (map_of (bench_flags ''client'') x = None \<longrightarrow>
         bench_main be (''client'' # flag_arg (x, v) # rest) r = (Some (Inl (BenchFlags (NotDefined x))), r)) \<and>
       (map_of relay_flags x = None \<longrightarrow> relay_command en (flag_arg (x, v) # rest) evs tail p = Some (2, p)) \<and>
       (map_of vm_flags x = None \<longrightarrow> vm_command ve (flag_arg (x, v) # rest) vp = Some (2, vp)))"
proof (intro conjI impI)
  show "exit_status (fst (echo_main te (''call'' # map flag_arg (echo_settings listen peer n cnt t) @ ''--'' # rest) r rc)) = 0 \<longleftrightarrow>
        (\<exists>rep. fst (echo_run (t_p6 te) (t_s6 te) (t_host te) (t_calls te) Call (length rest) n cnt t listen peer r) = Inr rep \<and>
          (rep \<noteq> None \<longrightarrow> t_encode te = None))"
    by (simp add: echo_main_def echo_flags_read [OF assms(1-3)] echo_call_def setting_values exit_status_def encoded_def
        split: prod.splits sum.splits option.splits)
  show "map_option exit_status (fst (bench_main be (''client'' # map flag_arg (bench_settings opts d sizes out) @ ''--'' # rest) r)) =
        Some 0 \<longleftrightarrow>
        (\<exists>ms. fst (bench_run (b_p6 be) (if out = ''-'' then (b_host be)\<lparr>ch_create := None\<rparr> else b_host be) (b_calls be)
          (length rest) d sizes opts r) = Inr ms \<and> (\<forall>m \<in> set ms. m_goodput m \<noteq> None)) \<and> b_encode be = None"
    by (simp add: bench_main_def bench_flags_read [OF assms(4-9)] bench_client_main_def setting_values bench_run_sizes Let_def
        exit_status_def split: prod.splits sum.splits option.splits)
  show "relay_command en (map flag_arg (relay_settings f) @ ''--'' # rest) evs tail p =
       map_option (relay_exit en) (relay_main en (f\<lparr>f_nargs := length rest\<rparr>) evs tail p)"
    by (simp add: relay_command_def relay_flags_read [OF assms(10,11)] setting_values)
  show "vm_command ve (map flag_arg (vm_settings kernel_image initrd logPath) @ ''--'' # rest) vp =
       map_option (\<lambda>(err, vp). (if err = None then 0 else 1, vp)) (vm_run ve kernel_image initrd logPath vp)"
    by (simp add: vm_command_def vm_flags_read setting_values)
qed (auto simp: echo_main_def bench_main_def relay_command_def vm_command_def undefined_flag simp del: flag_arg.simps)

definition sample_tool :: tool_env where
  "sample_tool = \<lparr>t_p6 = (\<lambda>_. None), t_s6 = (\<lambda>_ z. z), t_host = sample_host, t_host2 = sample_host,
     t_calls = (\<lambda>k p. (Inr p, 1000 * int k)), t_encode = None, t_platform = ''linux/amd64''\<rparr>"

definition sample_bench :: bench_env where
  "sample_bench = \<lparr>b_p6 = (\<lambda>_. None), b_host = sample_client_host, b_calls = (\<lambda>t k p. (Inr p, 1000 * int k)), b_tcp = None,
     b_events = [], b_encode = None, b_started = 0, b_platform = ''linux/amd64'', b_goversion = ''go1.24''\<rparr>"

lemma sample_echo_run:
  "\<exists>rep. fst (echo_run (t_p6 sample_tool) (t_s6 sample_tool) (t_host sample_tool) (t_calls sample_tool) Call 0 3 2 10000000 ''127.0.0.1:4000''
     ''127.0.0.1:4001'' sample_raw) = Inr (Some rep)"
proof -
  have args: "echo_args (\<lambda>_. None) Call 0 3 2 10000000 ''127.0.0.1:4000'' ''127.0.0.1:4001'' = Inr (serverAddr, Some clientAddr)"
    by (simp add: echo_args_def selftest_addrs maxMessage_def duration_defs) (simp add: serverAddr_def clientAddr_def)
  have "\<exists>e r'. tool_listen sample_host serverAddr 10000000 False sample_raw = (Inr e, r')"
    by (subst tool_listen_iff) (simp_all add: serverAddr_def sample_host_def duration_defs)
  then obtain ep s where "tool_listen sample_host serverAddr 10000000 False sample_raw = (Inr ep, s)" by blast
  note run = echo_run_Call [OF args this, of "t_calls sample_tool" "t_s6 sample_tool"]
  have plan: "echoed 0 (echo_plan (t_calls sample_tool) (nat 3) 0 (nat 2))" "timed 0 (echo_plan (t_calls sample_tool) (nat 3) 0 (nat 2)) \<noteq> []"
    by (simp_all add: sample_tool_def numeral_2_eq_2)
  show ?thesis
    using run(1) [OF plan(1)] make_report_ok [OF plan(2), of "t_s6 sample_tool" sample_host serverAddr clientAddr "nat 3"] by (auto simp: sample_tool_def)
qed

theorem command_lines_witness:
  "exit_status (fst (echo_main sample_tool (''call'' # map flag_arg (echo_settings ''127.0.0.1:4000'' ''127.0.0.1:4001'' 3 2 10000000) @
     [''--'']) sample_raw sample_raw)) = 0 \<and>
   relay_command sample_env (flag_arg (''Log'', FString ''l'') # []) [] [] sample_process = Some (2, sample_process)"
proof -
  have i: "int64 3" "int64 2" "int64 10000000" "int64 1" "int64 (o_timeout sample_options)" "int64 (o_warmup sample_options)"
      "int64 (o_small sample_options)" "int64 (o_large sample_options)" "int64 (o_rounds sample_options)"
      "int64 (f_duration sample_flags)" "int64 (f_qemuUID sample_flags)"
    by (simp_all add: int64_def sample_options_def sample_flags_def duration_defs)
  note lines = command_lines [OF i(1-3) i(5) i(4) i(6-11), of sample_tool "''127.0.0.1:4000''" "''127.0.0.1:4001''" "[]" sample_raw sample_raw
      sample_bench "''8''" "''-''" sample_env "[]" "[]" sample_process sample_ve "''k''" "''i''" "''l''" sample_vp "''Log''" "FString ''l''"]
  have "name_ok ''Log'' \<and> ''Log'' \<notin> {''help'', ''h''}" "map_of relay_flags ''Log'' = None" by (simp_all add: name_ok_def relay_flags_def)
  moreover have "t_encode sample_tool = None" by (simp add: sample_tool_def)
  ultimately show ?thesis using lines sample_echo_run by auto
qed

end
