(* ===== verification/Summary.thy ===== *)
theory Summary
  imports Commands
begin

text \<open>
  The script that condenses benchmark reports, \<^verbatim>\<open>scripts/summarize_benchmark.py\<close>: it pools the samples of all
  rounds of a payload size and a transport and derives percentiles and goodput from the pool. The report is the
  one the benchmark wrote; reading its JSON text back is not modelled. How exactly Python adds floating-point
  numbers depends on its version: the sum is an argument.
\<close>

section \<open>The script\<close>

datatype summary_error = NotPassed | InvalidSamples | ZeroElapsed | NoStats

type_synonym group_id = "nat \<times> transport"

definition group_key :: "measurement \<Rightarrow> group_id" where
  "group_key m = (j_bytes (m_job m), j_transport (m_job m))"

text \<open>\<^verbatim>\<open>groups.setdefault(key, []).append(m)\<close>; a dictionary keeps its keys in the order of their insertion.\<close>

definition add_group :: "(group_id \<times> measurement list) list \<Rightarrow> measurement \<Rightarrow> (group_id \<times> measurement list) list" where
  "add_group gs m =
     (case map_of gs (group_key m) of
        None \<Rightarrow> gs @ [(group_key m, [m])]
      | Some ms \<Rightarrow> AList.update (group_key m) (ms @ [m]) gs)"

fun group_all :: "(group_id \<times> measurement list) list \<Rightarrow> measurement list \<Rightarrow>
    summary_error + (group_id \<times> measurement list) list" where
  "group_all gs [] = Inr gs"
| "group_all gs (m # ms) =
     (if m_samples m = [] \<or> length (m_samples m) \<noteq> m_count m \<or> Min (set (m_samples m)) \<le> 0 then Inl InvalidSamples
      else group_all (add_group gs m) ms)"

record summary_row =
  s_bytes :: nat
  s_transport :: transport
  s_samples :: nat
  s_p50 :: rat
  s_p95 :: rat
  s_p99 :: rat
  s_goodput :: rat
  s_rounds :: "rat list"
  s_retransmissions :: "int option"

text \<open>The retransmissions of the measurements; \<open>None\<close> if one has no statistics.\<close>

fun retransmitted :: "measurement list \<Rightarrow> int option" where
  "retransmitted [] = Some 0"
| "retransmitted (m # ms) =
     (case (m_before m, m_after m, retransmitted ms) of
        (Some b, Some a, Some n) \<Rightarrow> Some (int (unat (Retransmissions a)) - int (unat (Retransmissions b)) + n)
      | _ \<Rightarrow> None)"

definition make_row :: "(rat list \<Rightarrow> rat) \<Rightarrow> group_id \<times> measurement list \<Rightarrow> summary_error + summary_row" where
  "make_row fsum g =
     (case g of ((n, transport), ms) \<Rightarrow>
        let samples = sort (concat (map m_samples ms));
            elapsed = fsum (map m_elapsed ms);
            payload = sum_list (map m_payload_bytes ms);
            quantile = (\<lambda>q. fl (of_int (samples ! quantile_index q (length samples)) / 1000))
        in if elapsed = 0 then Inl ZeroElapsed
           else if transport = Homa \<and> retransmitted ms = None then Inl NoStats
           else Inr \<lparr>s_bytes = n, s_transport = transport, s_samples = length samples, s_p50 = quantile (1 / 2),
             s_p95 = quantile (95 / 100), s_p99 = quantile (99 / 100),
             s_goodput = fl (fl (fl (of_int (payload * 8)) / elapsed) / 1000000), s_rounds = map m_p50 ms,
             s_retransmissions = (if transport = Homa then retransmitted ms else None)\<rparr>)"

fun make_rows :: "(rat list \<Rightarrow> rat) \<Rightarrow> (group_id \<times> measurement list) list \<Rightarrow> summary_error + summary_row list" where
  "make_rows fsum [] = Inr []"
| "make_rows fsum (g # gs) =
     (case make_row fsum g of
        Inl e \<Rightarrow> Inl e
      | Inr row \<Rightarrow> (case make_rows fsum gs of Inl e \<Rightarrow> Inl e | Inr rows \<Rightarrow> Inr (row # rows)))"

text \<open>The keys are sorted by size, then by the name of the transport.\<close>

definition key_order :: "group_id \<Rightarrow> nat \<times> bool" where
  "key_order k = (fst k, snd k = TCP)"

definition summarize :: "(rat list \<Rightarrow> rat) \<Rightarrow> bench_report \<Rightarrow> summary_error + (string \<times> summary_row list)" where
  "summarize fsum rep =
     (if br_status rep \<noteq> ''passed'' then Inl NotPassed
      else case group_all [] (br_measurements rep) of
        Inl e \<Rightarrow> Inl e
      | Inr gs \<Rightarrow>
         (case make_rows fsum (sort_key (key_order \<circ> fst) gs) of
            Inl e \<Rightarrow> Inl e
          | Inr rows \<Rightarrow> Inr (br_platform rep, rows)))"

section \<open>The groups\<close>

text \<open>Every group holds the measurements of its key, in order.\<close>

definition pooled :: "measurement list \<Rightarrow> group_id \<Rightarrow> measurement list" where
  "pooled ms k = filter (\<lambda>m. group_key m = k) ms"

definition grouped :: "(group_id \<times> measurement list) list \<Rightarrow> measurement list \<Rightarrow> bool" where
  "grouped gs ms \<longleftrightarrow> distinct (map fst gs) \<and> set (map fst gs) = group_key ` set ms \<and>
     (\<forall>(k, g) \<in> set gs. g = pooled ms k)"

lemma pooled_snoc: "pooled (ms @ [m]) k = pooled ms k @ (if group_key m = k then [m] else [])"
  by (simp add: pooled_def)

lemma grouped_add:
  assumes "grouped gs ms"
  shows "grouped (add_group gs m) (ms @ [m])"
proof -
  have d: "distinct (map fst gs)" and keys: "fst ` set gs = group_key ` set ms"
    and g: "(k, g) \<in> set gs \<Longrightarrow> g = pooled ms k" for k g using assms by (auto simp: grouped_def)
  show ?thesis
  proof (cases "map_of gs (group_key m)")
    case None
    then have new: "group_key m \<notin> fst ` set gs" by (simp add: map_of_eq_None_iff)
    then have empty: "pooled ms (group_key m) = []" unfolding pooled_def filter_empty_conv keys by (metis imageI)
    have old: "h = pooled (ms @ [m]) k" if "(k, h) \<in> set gs" for k h
    proof -
      have "group_key m \<noteq> k" using that new by (metis fst_conv image_eqI)
      then show ?thesis using g [OF that] by (simp add: pooled_snoc)
    qed
    have "h = pooled (ms @ [m]) k" if "(k, h) \<in> set (gs @ [(group_key m, [m])])" for k h
    proof (cases "(k, h) \<in> set gs")
      case False
      then show ?thesis using that empty by (simp add: pooled_snoc)
    qed (rule old)
    then show ?thesis using d keys new None by (auto simp: grouped_def add_group_def)
  next
    case (Some g')
    let ?gs = "AList.update (group_key m) (g' @ [m]) gs"
    have k: "group_key m \<in> fst ` set gs" "g' = pooled ms (group_key m)" using map_of_SomeD [OF Some] g [OF map_of_SomeD [OF Some]] by (metis fst_conv image_eqI, simp)
    have same: "map fst ?gs = map fst gs" using k(1) by (simp add: update_keys)
    have "h = pooled (ms @ [m]) k" if "(k, h) \<in> set ?gs" for k h
    proof -
      have "map_of ?gs k = Some h" using that d same by simp
      then show ?thesis
      proof (cases "k = group_key m")
        case False
        then have "map_of gs k = Some h" using \<open>map_of ?gs k = Some h\<close> by (simp add: update_conv')
        from g [OF map_of_SomeD [OF this]] False show ?thesis by (simp add: pooled_snoc)
      qed (simp add: update_conv' pooled_snoc k(2))
    qed
    moreover have "fst ` set ?gs = fst ` set gs" using same by (metis set_map)
    ultimately show ?thesis using d same keys k(1) Some by (auto simp: grouped_def add_group_def)
  qed
qed

text \<open>A measurement the script accepts.\<close>

definition acceptable :: "measurement \<Rightarrow> bool" where
  "acceptable m \<longleftrightarrow> m_samples m \<noteq> [] \<and> length (m_samples m) = m_count m \<and> (\<forall>t \<in> set (m_samples m). 0 < t)"

lemma acceptable_iff:
  "acceptable m \<longleftrightarrow> \<not> (m_samples m = [] \<or> length (m_samples m) \<noteq> m_count m \<or> Min (set (m_samples m)) \<le> 0)"
proof (cases "m_samples m = []")
  case False
  then have "0 < Min (set (m_samples m)) \<longleftrightarrow> (\<forall>t \<in> set (m_samples m). 0 < t)" by (intro Min_gr_iff) simp_all
  then show ?thesis using False unfolding acceptable_def by (metis not_le)
qed (simp add: acceptable_def)

lemma group_all_grouped:
  assumes "grouped gs ms" and "\<forall>m \<in> set ns. acceptable m"
  shows "\<exists>gs'. group_all gs ns = Inr gs' \<and> grouped gs' (ms @ ns)"
  using assms
proof (induction ns arbitrary: gs ms)
  case (Cons m ns)
  have "acceptable m" using Cons.prems(2) by simp
  then show ?case using acceptable_iff [of m] Cons.IH [OF grouped_add [OF Cons.prems(1)], of m] Cons.prems(2) by simp
qed auto

lemma group_all_fails: "\<exists>m \<in> set ns. \<not> acceptable m \<Longrightarrow> group_all gs ns = Inl InvalidSamples"
proof (induction ns arbitrary: gs)
  case (Cons m ns)
  then show ?case using acceptable_iff [of m] by auto
qed simp

section \<open>A row\<close>

definition row_key :: "summary_row \<Rightarrow> group_id" where
  "row_key row = (s_bytes row, s_transport row)"

text \<open>What a row says about the measurements of its size and transport.\<close>

definition row_correct :: "measurement list \<Rightarrow> summary_row \<Rightarrow> bool" where
  "row_correct ms row \<longleftrightarrow>
     (let g = pooled ms (row_key row); ts = concat (map m_samples g) in
      s_samples row = length ts \<and>
      (\<exists>v. s_p50 row = fl (of_int v / 1000) \<and> is_percentile 50 v ts) \<and>
      (\<exists>v. s_p95 row = fl (of_int v / 1000) \<and> is_percentile 95 v ts) \<and>
      (\<exists>v. s_p99 row = fl (of_int v / 1000) \<and> is_percentile 99 v ts) \<and>
      near (1 / 2 ^ 38) (s_goodput row)
        (8 * of_int (sum_list (map m_payload_bytes g)) / sum_list (map m_elapsed g) / 1000000) \<and>
      s_rounds row = map m_p50 g \<and>
      s_retransmissions row = (if s_transport row = Homa then retransmitted g else None))"

lemma pooled_goodput:
  assumes "near (1 / 2 ^ 40) E X" and "0 < X" and "0 < P" and "8 * P < 2 ^ 53"
  shows "near (1 / 2 ^ 38) (fl (fl (fl (of_int (P * 8)) / E) / 1000000)) (8 * of_int P / X / 1000000)"
proof -
  let ?n = "of_int (P * 8) :: rat"
  have n: "fl ?n = ?n" "0 < ?n" using assms fl_integer [of "P * 8"] by simp_all
  have E: "0 < E" by (rule near_pos [OF assms(1,2)]) simp
  have "near (2 / 2 ^ 40) (?n / E) (?n / X)" by (rule near_inverse [OF assms(1,2)]) (use n in simp_all)
  from near_trans [OF near_fl this, of "3 / 2 ^ 40"] have "near (3 / 2 ^ 40) (fl (?n / E)) (?n / X)" using n E assms(2) by simp
  then have q: "near (3 / 2 ^ 40) (fl (?n / E) / 1000000) (?n / X / 1000000)" by (rule near_scale) simp
  have "0 < fl (?n / E) / 1000000" by (rule near_pos [OF q]) (use n assms(2) in simp_all)
  then have "near (1 / 2 ^ 38) (fl (fl (?n / E) / 1000000)) (?n / X / 1000000)"
    by (intro near_trans [OF near_fl q]) (use n assms(2) in simp_all)
  then show ?thesis unfolding n(1) by (simp add: mult.commute)
qed

lemma make_row_correct:
  assumes "near (1 / 2 ^ 40) (fsum (map m_elapsed g)) (sum_list (map m_elapsed g))" and "0 < sum_list (map m_elapsed g)"
    and "0 < sum_list (map m_payload_bytes g)" and "8 * sum_list (map m_payload_bytes g) < 2 ^ 53"
    and "concat (map m_samples g) \<noteq> []" and "length (concat (map m_samples g)) < 2 ^ 40"
    and "t = Homa \<longrightarrow> retransmitted g \<noteq> None" and "g = pooled ms (n, t)"
  shows "\<exists>row. make_row fsum ((n, t), g) = Inr row \<and> row_key row = (n, t) \<and> row_correct ms row"
proof -
  have "0 < fsum (map m_elapsed g)" by (rule near_pos [OF assms(1,2)]) simp
  then have z: "fsum (map m_elapsed g) \<noteq> 0" by simp
  define ts where "ts = concat (map m_samples g)"
  obtain row where row: "make_row fsum ((n, t), g) = Inr row" using z assms(7) by (auto simp: make_row_def Let_def)
  have eq: "row = \<lparr>s_bytes = n, s_transport = t, s_samples = length ts,
      s_p50 = fl (of_int (sort ts ! quantile_index (1 / 2) (length ts)) / 1000),
      s_p95 = fl (of_int (sort ts ! quantile_index (95 / 100) (length ts)) / 1000),
      s_p99 = fl (of_int (sort ts ! quantile_index (99 / 100) (length ts)) / 1000),
      s_goodput = fl (fl (fl (of_int (sum_list (map m_payload_bytes g) * 8)) / fsum (map m_elapsed g)) / 1000000),
      s_rounds = map m_p50 g, s_retransmissions = (if t = Homa then retransmitted g else None)\<rparr>"
    using row z assms(7) unfolding make_row_def prod.case Let_def ts_def [symmetric] length_sort
    by (simp only: if_False sum.inject split: if_splits) simp_all
  have key: "row_key row = (n, t)" by (simp add: eq row_key_def)
  note q = quantiles_exact [OF assms(5,6), folded ts_def] and good = pooled_goodput [OF assms(1-4)]
  have "row_correct ms row"
    unfolding row_correct_def key assms(8) [symmetric] Let_def ts_def [symmetric]
    unfolding eq summary_row.simps using q good by (intro conjI exI) simp_all
  then show ?thesis using row key by blast
qed

lemma make_rows_correct:
  assumes "\<forall>g \<in> set gs. \<exists>row. make_row fsum g = Inr row \<and> row_key row = fst g \<and> Q row"
  shows "\<exists>rows. make_rows fsum gs = Inr rows \<and> map row_key rows = map fst gs \<and> list_all Q rows"
  using assms by (induction gs) auto

lemma retransmitted_Some: "\<forall>m \<in> set g. m_before m \<noteq> None \<and> m_after m \<noteq> None \<Longrightarrow> retransmitted g \<noteq> None"
  by (induction g) auto

section \<open>The summary of a benchmark run\<close>

lemma length_pooled_samples: "length (concat (map m_samples (pooled ms k))) \<le> length (concat (map m_samples ms))"
  by (induction ms) (auto simp: pooled_def)

lemma length_jobs: "length (jobs opts) = nat (o_rounds opts) * (2 * length (o_sizes opts))"
proof -
  have "length (concat (map (pair_jobs rnd) ns)) = 2 * length ns" for rnd ns
    by (induction ns) (simp_all add: pair_jobs_def transport_order_def)
  then have "length (concat (map (\<lambda>rnd. concat (map (pair_jobs rnd) (o_sizes opts))) rs)) = length rs * (2 * length (o_sizes opts))" for rs
    by (induction rs) simp_all
  then show ?thesis by (simp add: jobs_def)
qed

lemma jobs_keys:
  assumes "0 < o_rounds opts"
  shows "(\<lambda>j. (j_bytes j, j_transport j)) ` set (jobs opts) = (\<lambda>(n, t). (nat n, t)) ` (set (o_sizes opts) \<times> UNIV)"
proof -
  have one: "(\<lambda>j. (j_bytes j, j_transport j)) ` set (pair_jobs rnd n) = (\<lambda>t. (nat n, t)) ` UNIV" for rnd n
    by (auto simp: pair_jobs_def transport_order_def image_iff) (metis transport.exhaust)+
  have "1 \<le> nat (o_rounds opts)" using assms by linarith
  then have "1 \<in> set [1..<Suc (nat (o_rounds opts))]" by (simp only: set_upt atLeastLessThan_iff) linarith
  then have "set [1..<Suc (nat (o_rounds opts))] \<noteq> {}" by (metis empty_iff)
  then show ?thesis
    unfolding jobs_def set_concat set_map image_UN image_Union image_image one by auto
qed

lemma timed_positive: "\<forall>(f, p, b) \<in> set cs. \<forall>k. 0 < snd (f k p) \<Longrightarrow> t \<in> set (timed k cs) \<Longrightarrow> 0 < t"
  by (induction k cs rule: timed.induct) (auto split: if_splits)

lemma planned_calls: "(f, p, b) \<in> set (run_calls ex opts js) \<Longrightarrow> \<exists>t. f = ex t"
  by (auto simp: run_calls_def job_calls_def Let_def)

text \<open>What the summary relies on in a measurement.\<close>

definition sound :: "measurement \<Rightarrow> bool" where
  "sound m \<longleftrightarrow> acceptable m \<and> 0 < m_elapsed m \<and> 0 < m_payload_bytes m \<and>
     m_payload_bytes m \<le> 2000000 * int (length (m_samples m)) \<and>
     (j_transport (m_job m) = Homa \<longrightarrow> m_before m \<noteq> None \<and> m_after m \<noteq> None)"

lemma reported_sound:
  assumes "reported h opts k m" and "0 < o_small opts" and "0 < o_large opts" and "\<forall>t \<in> set (m_samples m). 0 < t"
    and "\<forall>k k'. k < k' \<longrightarrow> 0 < h_since h k k' \<and> h_since h k k' < 2 ^ 63"
    and "1 \<le> j_bytes (m_job m)" and "j_bytes (m_job m) \<le> 1000000"
  shows "sound m"
proof -
  have "int (m_count m) = samples_for (o_small opts) (o_large opts) (int (j_bytes (m_job m)))" and len: "length (m_samples m) = m_count m"
    using assms(1) by (simp_all add: reported_def)
  then have c: "0 < m_count m" using assms(2,3) by (auto simp: samples_for_def split: if_splits)
  have "acceptable m" using c len assms(4) by (auto simp: acceptable_def)
  moreover have p: "m_payload_bytes m = 2 * int (j_bytes (m_job m)) * int (m_count m)" using assms(1) by (simp add: reported_def)
  moreover have "2 * int (j_bytes (m_job m)) * int (m_count m) \<le> 2000000 * int (m_count m)"
    using assms(7) by (intro mult_right_mono) simp_all
  moreover have "0 < 2 * int (j_bytes (m_job m)) * int (m_count m)" using assms(6) c by simp
  moreover have "0 < m_elapsed m"
  proof -
    have "k < k + m_count m" using c by simp
    then have "0 < h_since h k (k + m_count m)" "h_since h k (k + m_count m) < 2 ^ 63" using assms(5) by blast+
    then show ?thesis using assms(1) Seconds_pos by (simp add: reported_def)
  qed
  moreover have "j_transport (m_job m) = Homa \<longrightarrow> m_before m \<noteq> None \<and> m_after m \<noteq> None" using assms(1) by (simp add: reported_def)
  ultimately show ?thesis unfolding sound_def len by (metis)
qed

lemma sum_list_pos: "xs \<noteq> [] \<Longrightarrow> \<forall>x \<in> set xs. 0 < x \<Longrightarrow> 0 < sum_list xs" for xs :: "'a :: linordered_idom list"
proof (induction xs)
  case (Cons x xs)
  then show ?case by (cases "xs = []") (auto intro: add_pos_pos)
qed simp

text \<open>The pool of a group: sums and counts in the range of exact arithmetic.\<close>

lemma group_totals:
  assumes "g \<noteq> []" and "length (concat (map m_samples g)) \<le> 2000000" and "\<forall>m \<in> set g. sound m"
  shows "0 < sum_list (map m_elapsed g)" and "0 < sum_list (map m_payload_bytes g)" and "8 * sum_list (map m_payload_bytes g) < 2 ^ 53"
    and "concat (map m_samples g) \<noteq> []"
proof -
  show "0 < sum_list (map m_elapsed g)" "0 < sum_list (map m_payload_bytes g)"
    using assms(1,3) by (auto intro!: sum_list_pos simp: sound_def)
  show "concat (map m_samples g) \<noteq> []" using assms(1,3) by (cases g) (auto simp: sound_def acceptable_def)
  have "sum_list (map m_payload_bytes g) \<le> 2000000 * int (length (concat (map m_samples g)))"
    using assms(3) by (induction g) (auto simp: sound_def distrib_left)
  also have "\<dots> \<le> 2000000 * 2000000" using assms(2) by simp
  finally show "8 * sum_list (map m_payload_bytes g) < 2 ^ 53" by simp
qed

text \<open>What a successful run hands to the script.\<close>

lemma run_sound:
  assumes "bench_run p6 h ex nargs duration sizes opts r = (Inr ms, r')"
    and "\<forall>t k p. 0 < snd (ex t k p)" and "\<forall>k k'. k < k' \<longrightarrow> 0 < h_since h k k' \<and> h_since h k k' < 2 ^ 63"
  shows "\<forall>m \<in> set ms. sound m" and "length ms \<le> 2000" and "length (concat (map m_samples ms)) \<le> 2000000"
    and "\<exists>parsed. parseSizes sizes = Inr parsed \<and> group_key ` set ms = (\<lambda>(n, t). (nat n, t)) ` (set parsed \<times> UNIV)"
proof -
  obtain parsed where args: "bench_client_args sizes (o_warmup opts) (o_small opts) (o_large opts) (o_rounds opts) = Inr parsed"
    and js: "map m_job ms = jobs (opts\<lparr>o_sizes := parsed\<rparr>)" and reps: "reports h opts 0 ms"
    and ts: "concat (map m_samples ms) = timed 0 (bench_plan ex opts parsed)"
      "int (length (concat (map m_samples ms))) = total_samples parsed (o_small opts) (o_large opts) (o_rounds opts)"
    using assms(1) by (rule bench_run_reports)
  note ok = bench_client_args_ok [OF args]
  show "length (concat (map m_samples ms)) \<le> 2000000" using ts(2) ok(7) by linarith
  have planned: "\<forall>(f, p, b) \<in> set (bench_plan ex opts parsed). \<forall>k. 0 < snd (f k p)"
    using planned_calls assms(2) unfolding bench_plan_def by fast
  have "0 < t" if "m \<in> set ms" "t \<in> set (m_samples m)" for m t
  proof (rule timed_positive [OF planned])
    show "t \<in> set (timed 0 (bench_plan ex opts parsed))" unfolding ts(1) [symmetric] using that by auto
  qed
  then show "\<forall>m \<in> set ms. sound m"
    using reports_member [OF reps] reported_sound [OF _ ok(2,3) _ assms(3)] measured_job [OF js _ ok(8)] by metis
  have "length ms = nat (o_rounds opts) * (2 * length parsed)" using arg_cong [OF js, of length] by (simp add: length_jobs)
  also have "\<dots> \<le> 20 * (2 * 32)" using ok(9,10) by (intro mult_le_mono) simp_all
  finally show "length ms \<le> 2000" by simp
  have "group_key ` set ms = (\<lambda>j. (j_bytes j, j_transport j)) ` set (map m_job ms)" by (simp add: image_image group_key_def)
  then show "\<exists>parsed. parseSizes sizes = Inr parsed \<and> group_key ` set ms = (\<lambda>(n, t). (nat n, t)) ` (set parsed \<times> UNIV)"
    unfolding js using jobs_keys [of "opts\<lparr>o_sizes := parsed\<rparr>"] ok(1,6) by simp
qed

lemma group_row:
  assumes "grouped gs ms" and "g \<in> set gs" and "\<forall>m \<in> set ms. sound m" and "length ms \<le> 2000"
    and "length (concat (map m_samples ms)) \<le> 2000000"
    and "\<forall>xs. length xs \<le> 2000 \<and> (\<forall>x \<in> set xs. 0 \<le> x) \<longrightarrow> near (1 / 2 ^ 40) (fsum xs) (sum_list xs)"
  shows "\<exists>row. make_row fsum g = Inr row \<and> row_key row = fst g \<and> row_correct ms row"
proof -
  obtain n t g' where g: "g = ((n, t), g')" by (metis surj_pair)
  have pool: "g' = pooled ms (n, t)" using assms(1,2) unfolding g grouped_def by blast
  have sub: "m \<in> set ms \<and> group_key m = (n, t)" if "m \<in> set g'" for m using that by (simp add: pool pooled_def)
  have "(n, t) \<in> set (map fst gs)" using assms(2) by (force simp: g)
  then have "(n, t) \<in> group_key ` set ms" using assms(1) by (simp add: grouped_def)
  then have ne: "g' \<noteq> []" unfolding pool pooled_def filter_empty_conv by (metis imageE)
  have len: "length (concat (map m_samples g')) \<le> 2000000"
    using length_pooled_samples [of ms "(n, t)"] assms(5) unfolding pool by (rule order_trans)
  have snd: "\<forall>m \<in> set g'. sound m" using sub assms(3) by blast
  note tot = group_totals [OF ne len snd]
  have "length (map m_elapsed g') \<le> 2000" using assms(4) by (simp add: pool pooled_def order_trans [OF length_filter_le])
  moreover have "\<forall>x \<in> set (map m_elapsed g'). 0 \<le> x" using snd by (auto simp: sound_def less_imp_le)
  ultimately have near: "near (1 / 2 ^ 40) (fsum (map m_elapsed g')) (sum_list (map m_elapsed g'))" using assms(6) by blast
  have "t = Homa \<longrightarrow> retransmitted g' \<noteq> None"
  proof (intro impI retransmitted_Some ballI)
    fix m
    assume "t = Homa" "m \<in> set g'"
    then show "m_before m \<noteq> None \<and> m_after m \<noteq> None" using sub [of m] snd by (simp add: sound_def group_key_def)
  qed
  moreover have "length (concat (map m_samples g')) < 2 ^ 40" using len by simp
  ultimately have "\<exists>row. make_row fsum ((n, t), g') = Inr row \<and> row_key row = (n, t) \<and> row_correct ms row"
    using near tot pool by (intro make_row_correct)
  then show ?thesis by (simp add: g)
qed

text \<open>C28. The summary of a report the benchmark wrote is correct. If time passes in every call and between calls, and
  Python's sum of floating-point numbers is good to 40 bits, the script accepts the report and gives exactly one
  row for every size and transport of the benchmark, ordered by size; a row counts the samples of all rounds,
  its percentiles are the nearest-rank percentiles of these samples pooled, and its goodput is that of the whole
  payload over the whole time, to 38 bits.\<close>

theorem summary_correct:
  assumes "bench_run p6 h ex nargs duration sizes opts r = (Inr ms, r')"
    and "\<forall>t k p. 0 < snd (ex t k p)" and "\<forall>k k'. k < k' \<longrightarrow> 0 < h_since h k k' \<and> h_since h k k' < 2 ^ 63"
    and "\<forall>xs. length xs \<le> 2000 \<and> (\<forall>x \<in> set xs. 0 \<le> x) \<longrightarrow> near (1 / 2 ^ 40) (fsum xs) (sum_list xs)"
  shows "\<exists>rows parsed. summarize fsum (make_bench_report be fs ms) = Inr (b_platform be, rows) \<and> list_all (row_correct ms) rows \<and>
    sorted_wrt (<) (map (key_order \<circ> row_key) rows) \<and>
    parseSizes sizes = Inr parsed \<and> set (map row_key rows) = (\<lambda>(n, t). (nat n, t)) ` (set parsed \<times> UNIV)"
proof -
  note run = run_sound [OF assms(1-3)]
  have "grouped [] []" by (simp add: grouped_def)
  moreover have "\<forall>m \<in> set ms. acceptable m" using run(1) by (simp add: sound_def)
  ultimately obtain gs where gs: "group_all [] ms = Inr gs" "grouped gs ms" using group_all_grouped [of "[]" "[]" ms] by auto
  let ?sorted = "sort_key (key_order \<circ> fst) gs"
  have "\<forall>g \<in> set ?sorted. \<exists>row. make_row fsum g = Inr row \<and> row_key row = fst g \<and> row_correct ms row"
    using group_row [OF gs(2) _ run(1-3) assms(4)] by simp
  then obtain rows where rows: "make_rows fsum ?sorted = Inr rows" "map row_key rows = map fst ?sorted" "list_all (row_correct ms) rows"
    using make_rows_correct by blast
  have order: "map (key_order \<circ> row_key) rows = map (key_order \<circ> fst) ?sorted" using rows(2) by (metis map_map)
  have inj: "inj key_order" unfolding inj_def key_order_def by (auto, metis transport.exhaust)
  have "distinct (map key_order (map fst ?sorted))"
    using gs(2) inj unfolding distinct_map by (auto simp: grouped_def distinct_map intro: inj_on_subset)
  then have "sorted_wrt (<) (map (key_order \<circ> row_key) rows)" unfolding order strict_sorted_iff by simp
  moreover have "set (map row_key rows) = group_key ` set ms" unfolding rows(2) using gs(2) by (simp add: grouped_def)
  moreover have "summarize fsum (make_bench_report be fs ms) = Inr (b_platform be, rows)"
    by (simp add: summarize_def make_bench_report_def gs(1) rows(1))
  ultimately show ?thesis using rows(3) run(4) by metis
qed

lemma near_weaken: "near a x y \<Longrightarrow> 0 \<le> y \<Longrightarrow> a \<le> b \<Longrightarrow> near b x y"
  unfolding near_def by (meson add_left_mono diff_left_mono mult_left_mono order_trans)

theorem summary_correct_witness:
  "\<exists>ms r' rows. bench_run (\<lambda>_. None) (sample_client_host\<lparr>h_since := \<lambda>k k'. 1000\<rparr>) (\<lambda>t k p. (Inr p, 1000 + int k)) 0 1000000000 ''8''
       sample_options sample_raw = (Inr ms, r') \<and>
     summarize (\<lambda>xs. fl (sum_list xs)) (make_bench_report sample_bench [] ms) = Inr (''linux/amd64'', rows) \<and>
     set (map row_key rows) = {(8, Homa), (8, TCP)}"
proof -
  let ?h = "sample_client_host\<lparr>h_since := \<lambda>k k'. 1000\<rparr>" and ?ex = "\<lambda>t k p. (Inr p, 1000 + int k)"
  have parsed: "parseSizes ''8'' = Inr [8]" by code_simp
  have "client_addrs (\<lambda>_. None) sample_options = Inr (\<lparr>IP = V4 0x01020304, Port = 3\<rparr>, \<lparr>IP = V4 0x01020304, Port = 2\<rparr>)"
    by (simp add: client_addrs_def sample_options_def ParseAddr_def sample_texts)
  moreover have "echoed 0 (bench_plan ?ex sample_options [8])"
    by (simp add: bench_plan_def run_calls_def job_calls_def jobs_def pair_jobs_def transport_order_def
        sample_options_def samples_for_def Let_def numeral_2_eq_2)
  moreover have "bench_client_args ''8'' (o_warmup sample_options) (o_small sample_options) (o_large sample_options)
      (o_rounds sample_options) = Inr [8]"
    by (simp add: bench_client_args_def parsed total_samples_def samples_for_def sample_options_def)
  ultimately have "\<exists>ms r'. bench_run (\<lambda>_. None) ?h ?ex 0 1000000000 ''8'' sample_options sample_raw = (Inr ms, r')"
    by (intro bench_run_succeeds) (auto simp: bench_common_def sample_options_def sample_client_host_def duration_defs)
  then obtain ms r' where run: "bench_run (\<lambda>_. None) ?h ?ex 0 1000000000 ''8'' sample_options sample_raw = (Inr ms, r')" by blast
  have sum: "\<forall>xs. length xs \<le> 2000 \<and> (\<forall>x \<in> set xs. 0 \<le> x) \<longrightarrow> near (1 / 2 ^ 40) (fl (sum_list xs)) (sum_list xs)"
    by (auto intro!: near_weaken [OF near_fl] sum_list_nonneg)
  have "\<forall>t k p. 0 < snd (?ex t k p)" "\<forall>k k'. k < k' \<longrightarrow> 0 < h_since ?h k k' \<and> h_since ?h k k' < 2 ^ 63" by simp_all
  note s = summary_correct [OF run this sum, of sample_bench "[]"]
  then obtain rows where rows: "summarize (\<lambda>xs. fl (sum_list xs)) (make_bench_report sample_bench [] ms) = Inr (b_platform sample_bench, rows)"
      "set (map row_key rows) = (\<lambda>(n, t). (nat n, t)) ` (set [8 :: int] \<times> UNIV)" using parsed by force
  have all: "(UNIV :: transport set) = {Homa, TCP}" using transport.exhaust by blast
  have "set (map row_key rows) = {(8, Homa), (8, TCP)}" unfolding rows(2) all by simp
  moreover have "b_platform sample_bench = ''linux/amd64''" by (simp add: sample_bench_def)
  ultimately show ?thesis using run rows(1) by metis
qed

end
