(* ===== verification/Spec2Isabelle.thy ===== *)
theory Spec2Isabelle
  imports Endpoint_Functional Network Summary
begin

text \<open>
  MacHoma is a userspace implementation in Go of the Homa transport protocol, with four commands around it. This
  development models it as HOL functions on explicit states and proves what makes each part correct. This theory
  imports all others and holds the properties that span the commands.

  \<^bold>\<open>The program.\<close> An endpoint (\<^verbatim>\<open>endpoint.go\<close>) makes and serves remote calls over a \<^verbatim>\<open>PacketIO\<close>: a raw IPv4
  socket (\<^verbatim>\<open>rawip.go\<close>) or Ethernet frames to a virtual machine (\<^verbatim>\<open>interop/vmcheck\<close>). It cuts messages into segments,
  encodes them (\<^verbatim>\<open>internal/wire\<close>), queues them by priority, reassembles what arrives, grants, retransmits, and keeps
  an exact account of the bytes it holds. \<^verbatim>\<open>api.go\<close> has the public types. \<^verbatim>\<open>cmd/homa-echo\<close> and \<^verbatim>\<open>cmd/homa-bench\<close> make
  verified echo calls and report on them, and \<^verbatim>\<open>scripts/summarize_benchmark.py\<close> condenses the reports;
  \<^verbatim>\<open>interop/lanrelay\<close> relays Homa packets between a LAN and a guest.

  \<^bold>\<open>How code becomes definitions.\<close> A struct is a record, a method a function that takes and returns the state, a
  Go error a value of an error type, a nil result \<open>None\<close>; fixed-width integers are words, byte slices lists.
  Pointers to RPCs are indices into a heap that only grows. What the runtime and the operating system decide is
  part of the state and arbitrary: the clock, the order of \<^verbatim>\<open>range\<close> over a map, the results of socket calls, the
  interleaving of goroutines. A goroutine's critical sections, which hold the endpoint's mutex throughout, are the
  events of a transition system.

  \<^bold>\<open>Theories, their source and what they show.\<close>
  \<^item> \<open>Prelude\<close>: byte slices, big-endian accessors, \<^verbatim>\<open>defer\<close>. Locale \<open>field_codec\<close>, what a fixed-width field codec
    promises, interpreted by the integers here and by header and acknowledgement in \<open>Wire\<close>.
  \<^item> \<open>Wire\<close> (\<^verbatim>\<open>internal/wire/wire.go\<close>): all packet types, \<open>Marshal\<close>, \<open>Parse\<close>, \<open>ValidateBounds\<close>. \<open>Marshal\<close> equals a reference
    layout, both round trips hold, and \<open>Parse\<close> rejects exactly the malformed datagrams.
  \<^item> \<open>Config\<close>, \<open>Address\<close> (\<^verbatim>\<open>api.go\<close>, \<^verbatim>\<open>defaults\<close> of \<^verbatim>\<open>endpoint.go\<close>): configurations, errors with
    their texts, the text of addresses.
  \<^item> \<open>Assembly\<close> (\<^verbatim>\<open>assembly\<close> and its loops in \<^verbatim>\<open>endpoint.go\<close>): the buffer and its bitmap refine a map from offsets to
    bytes; locale \<open>reassembler\<close>. Segments in any order with overlaps and duplicates give the message.
  \<^item> \<open>Outbound\<close> (the channels of \<^verbatim>\<open>endpoint.go\<close>): locale \<open>priority_channels\<close>; strict priority, first in first out.
  \<^item> \<open>Endpoint\<close> (\<^verbatim>\<open>endpoint.go\<close>, one definition per method, in the order of the code), \<open>Endpoint_Static\<close> (what no
    operation changes), \<open>Endpoint_Inv\<close>, \<open>Transmit\<close>, \<open>Endpoint_Ops\<close>, \<open>Endpoint_Recv\<close> (the invariant \<open>inv\<close> and that every operation
    keeps it; locale \<open>bookkeeping\<close> for operations that touch no RPC, \<open>rpc_body\<close> for loops over the table),
    \<open>Endpoint_Progress\<close> (what no operation undoes), \<open>Endpoint_Steps\<close> (events, runs, reachable states), \<open>Endpoint_Sweep\<close> (locale
    \<open>rpc_sweep\<close>, the loops of timer and shutdown), \<open>Endpoint_Props\<close> and \<open>Endpoint_Functional\<close> (the properties).
  \<^item> \<open>Integrity\<close> and \<open>Network\<close>: the bytes. \<open>faithful T R\<close> says that each message in an endpoint's state is the one it
    should be, every event keeps it. Composed over any number of endpoints and a network that loses,
    repeats and reorders: handlers get exact requests, calls get the handler's answer.
  \<^item> \<open>Conn\<close>, \<open>PacketIO\<close> (\<^verbatim>\<open>rawip.go\<close>, \<^verbatim>\<open>Listen\<close>): streams with short reads and writes, locale \<open>framing\<close> for the two ends of
    a framed stream; locale \<open>packet_io\<close>, the contract of \<^verbatim>\<open>PacketIO\<close>, interpreted by raw socket and VM interface.
    The stub of \<^verbatim>\<open>rawip_unsupported.go\<close>.
  \<^item> \<open>Checksum\<close>, \<open>Frames\<close>: the IPv4 checksum of both tools against one's-complement addition, and frame layouts.
  \<^item> \<open>Relay\<close>, \<open>Relay_Run\<close>, \<open>Relay_Main\<close>, \<open>Relay_Process\<close> (\<^verbatim>\<open>interop/lanrelay/main.go\<close>): allowlist, frames, both packet
    loops in any interleaving, evidence, files, credentials, and the process from its flags to its exit: however
    it ends, everything it opened is closed, the guest is gone and the report tells the result.
  \<^item> \<open>VmCheck\<close>, \<open>VmCheck_Run\<close> (\<^verbatim>\<open>interop/vmcheck/main.go\<close>): the second \<^verbatim>\<open>PacketIO\<close>, and the process of the check, whose
    verdict is evidence and which keeps the whole console log.
  \<^item> \<open>Text_Ops\<close>, \<open>Float64\<close>, \<open>Calls\<close>, \<open>Flags\<close>: what the commands use of Go's \<^verbatim>\<open>strings\<close>, of \<^verbatim>\<open>float64\<close> with its rounding
    errors (\<open>near\<close>), echo calls, and Go's \<^verbatim>\<open>flag\<close> with the numbers and durations it reads.
  \<^item> \<open>Bench\<close> (\<^verbatim>\<open>cmd/homa-bench\<close>), \<open>Echo\<close> (\<^verbatim>\<open>cmd/homa-echo\<close>): a report says \<^verbatim>\<open>passed\<close> exactly when every planned call echoed,
    and its numbers are those of these calls: percentiles exact, goodput to 50 bits.
  \<^item> \<open>Commands\<close>: the four commands from their arguments to their exit status. Every setting can be given on the
    command line and is the one the run uses.
  \<^item> \<open>Summary\<close> (\<^verbatim>\<open>scripts/summarize_benchmark.py\<close>): the summary of a report of the benchmark pools its samples correctly.

  \<^bold>\<open>Bounds and fuel.\<close> The loops of \<^verbatim>\<open>sendNew\<close> and \<^verbatim>\<open>resend\<close> carry the message length as fuel; \<open>Transmit\<close> shows that
    this suffices, as each turn sends at least one byte. Write loops of \<open>Conn\<close> have one turn per byte; reads recur on
    what is left. Call identifiers repeat after \<open>2\<^sup>6\<^sup>3 - 1\<close> calls (\<open>idCycle\<close>), so properties of reachable states are
    for runs with at most that many. \<open>end_to_end\<close> has handlers as functions of the request: a handler that
    answers a repeated request differently may have answers of equal length mixed.

  \<^bold>\<open>Not modelled.\<close> What the operating system does is an argument: results of system calls, starting QEMU, its
    console, the clock. Signals have no state of their own: in the relay they are the end of its context, in the
    other commands a failure of the calls that follow. The JSON text of reports, which \<^verbatim>\<open>encoding/json\<close> makes, and notices on
    standard error. The texts of most errors of the commands: their errors are constructors with the values the texts
    print. IPv6 text (a parameter). The C programs and the image script under \<^verbatim>\<open>interop\<close> run in a guest against a
    kernel module that is not part of the repository. Package clauses, imports and the wire constant
    \<^verbatim>\<open>HijackUrgent\<close>, which no code uses, have nothing to translate. Memory beyond Go's promises: slices are values,
    since the code copies every buffer it keeps.
\<close>

section \<open>Properties that span components\<close>

text \<open>The two tools that put Homa packets on the virtual network of a guest, the VM check and the LAN relay, build
  the same Ethernet frame for the same packet and traffic class, although each has its own code for the headers
  and for the checksum.\<close>

lemma vm_frames_agree: "VmCheck.vm_frame p priority = Some (ethernetPacket p (push_bit 5 priority))"
  by (simp add: vm_frame_eq ethernetPacket_eq VmCheck.guestMAC_def VmCheck.hostMAC_def Relay.guestMAC_def Relay.hostMAC_def)

lemma echo_args_listen:
  assumes "echo_args p6 m nargs n cnt t listen peer = Inr (l, remote)"
  shows "Is4 (IP l)" and "Port l \<noteq> 0"
  using assms by (auto simp: echo_args_def ParseAddr_def split: if_splits sum.splits option.splits prod.splits mode.splits)

text \<open>C38. Both tools accept timeouts the transport refuses: the endpoint's retry interval, which they leave at its
  default, may not exceed the timeout, so a timeout below 5 ms that passes the argument checks ends in the
  error \<^verbatim>\<open>invalid configuration\<close> after the raw socket was opened, and never in a call.\<close>

theorem short_timeout_refused:
  assumes "0 < t" and "t < 5 * Millisecond" and "h_listen h = None" and "h_setbuf h = None"
  shows "(\<forall>l remote. echo_args p6 m nargs n cnt t listen peer = Inr (l, remote) \<and> (m = Serve \<longrightarrow> Port l < 32768) \<longrightarrow>
      fst (echo_run p6 s6 (host.truncate h) f m nargs n cnt t listen peer r) = Inl (EchoListen (NewError InvalidConfiguration))) \<and>
    (\<forall>l peer'. client_addrs p6 opts = Inr (l, peer') \<and> ch_create h = None \<and> o_timeout opts = t \<longrightarrow>
      fst (bench_client p6 h ex opts r) = Inl (ListenFailed (NewError InvalidConfiguration)))"
proof (intro conjI allI impI)
  have h: "h_listen (host.truncate h) = None" "h_setbuf (host.truncate h) = None" using assms by (simp_all add: host.truncate_def)
  have refused: "fst (tool_listen (host.truncate h) l t handler r) = Inl (NewError InvalidConfiguration)"
    if "Is4 (IP l)" "Port l \<noteq> 0" "handler \<longrightarrow> Port l < 32768" for l handler
    using tool_listen_ok(2) [of t l handler "host.truncate h" r] that h assms by simp
  fix l remote
  assume *: "echo_args p6 m nargs n cnt t listen peer = Inr (l, remote) \<and> (m = Serve \<longrightarrow> Port l < 32768)"
  then have "fst (tool_listen (host.truncate h) l t (m = Serve) r) = Inl (NewError InvalidConfiguration)"
    using echo_args_listen by (intro refused) auto
  then show "fst (echo_run p6 s6 (host.truncate h) f m nargs n cnt t listen peer r) = Inl (EchoListen (NewError InvalidConfiguration))"
    using * by (auto simp: echo_run_def split: prod.splits sum.splits)
next
  have h: "h_listen (host.truncate h) = None" "h_setbuf (host.truncate h) = None" using assms by (simp_all add: host.truncate_def)
  fix l peer'
  assume *: "client_addrs p6 opts = Inr (l, peer') \<and> ch_create h = None \<and> o_timeout opts = t"
  then have "Is4 (IP l)" "Port l \<noteq> 0"
    by (auto simp: client_addrs_def ParseAddr_def split: sum.splits option.splits if_splits prod.splits)
  then have "fst (tool_listen (host.truncate h) l t False r) = Inl (NewError InvalidConfiguration)"
    using tool_listen_ok(2) [of t l False "host.truncate h" r] h assms by simp
  then show "fst (bench_client p6 h ex opts r) = Inl (ListenFailed (NewError InvalidConfiguration))"
    using * by (auto simp: bench_client_def split: prod.splits sum.splits)
qed

theorem short_timeout_refused_witness:
  "fst (echo_run (\<lambda>_. None) (\<lambda>_ z. z) (host.truncate sample_client_host) (\<lambda>k p. (Inl ErrClosed, 0)) Call 0 3 2 1000000 ''127.0.0.1:4000'' ''127.0.0.1:4001''
     sample_raw) = Inl (EchoListen (NewError InvalidConfiguration)) \<and>
   fst (bench_client (\<lambda>_. None) sample_client_host (\<lambda>t k p. (Inl ErrClosed, 0)) (sample_options\<lparr>o_timeout := 1000000\<rparr>) sample_raw) =
     Inl (ListenFailed (NewError InvalidConfiguration))"
proof -
  have args: "echo_args (\<lambda>_. None) Call 0 3 2 1000000 ''127.0.0.1:4000'' ''127.0.0.1:4001'' = Inr (serverAddr, Some clientAddr)"
    by (simp add: echo_args_def selftest_addrs maxMessage_def duration_defs) (simp add: serverAddr_def clientAddr_def)
  have addrs: "client_addrs (\<lambda>_. None) (sample_options\<lparr>o_timeout := 1000000\<rparr>) =
      Inr (\<lparr>IP = V4 0x01020304, Port = 3\<rparr>, \<lparr>IP = V4 0x01020304, Port = 2\<rparr>)"
    by (simp add: client_addrs_def sample_options_def ParseAddr_def sample_texts)
  show ?thesis
    using short_timeout_refused [of 1000000 sample_client_host "\<lambda>_. None" Call 0 3 2 "''127.0.0.1:4000''" "''127.0.0.1:4001''"
        "\<lambda>_ z. z" "\<lambda>k p. (Inl ErrClosed, 0)" sample_raw "sample_options\<lparr>o_timeout := 1000000\<rparr>" "\<lambda>t k p. (Inl ErrClosed, 0)"] args addrs
    by (simp add: sample_client_host_def duration_defs)
qed

end
